(* ===== verification/Prelude.thy ===== *)
theory Prelude
  imports Complex_Main "HOL-Library.Word" "HOL-Library.AList" "HOL-Library.Multiset"
begin

text \<open>
  Shared vocabulary of the development: the types that stand for the Rust types every
  component uses, the fact collections the component proofs draw on, the list
  operations of the Rust standard library that HOL has no name for
  (\<open>Iterator::position\<close>, \<open>Vec::swap_remove\<close>), and generic lemmas on lists, maps and options.
\<close>

section \<open>Types\<close>

text \<open>
  A \<open>Uuid\<close> is a 128-bit value compared as an unsigned big-endian number.
  A \<open>Decimal\<close> (crate \<open>rust_decimal\<close>, not part of the repository) is never defined here:
  it is a type variable \<open>'d\<close> whose sort \<open>linordered_idom\<close> states what the code relies on
  (a total order and exact addition, subtraction and comparison).
\<close>

type_synonym uuid = "128 word"
type_synonym u64 = "64 word"
type_synonym u8 = "8 word"

named_theorems level_simps \<open>rewrites on price levels and ordered maps\<close>
named_theorems wf_intros \<open>introduction rules for well-formedness\<close>

section \<open>Standard-library list operations\<close>

text \<open>\<open>iter().position(p)\<close>: the index of the first element satisfying the predicate.\<close>

fun position :: "('a \<Rightarrow> bool) \<Rightarrow> 'a list \<Rightarrow> nat option" where
  "position P [] = None"
| "position P (x # xs) = (if P x then Some 0 else map_option Suc (position P xs))"

text \<open>\<open>Vec::swap_remove(pos)\<close> and \<open>VecDeque::remove(pos)\<close>.\<close>

definition swap_remove :: "nat \<Rightarrow> 'a list \<Rightarrow> 'a list" where
  "swap_remove pos xs =
     (if Suc pos = length xs then butlast xs else butlast (xs[pos := last xs]))"

definition remove_at :: "nat \<Rightarrow> 'a list \<Rightarrow> 'a list" where
  "remove_at pos xs = take pos xs @ drop (Suc pos) xs"

lemma position_None_iff [simp]: "position P xs = None \<longleftrightarrow> (\<forall>x \<in> set xs. \<not> P x)"
  by (induction xs) auto

lemma position_SomeD:
  "position P xs = Some i \<Longrightarrow> i < length xs \<and> P (xs ! i) \<and> (\<forall>j < i. \<not> P (xs ! j))"
proof (induction xs arbitrary: i)
  case Nil
  then show ?case by simp
next
  case (Cons x xs)
  show ?case
  proof (cases "P x")
    case True
    with Cons.prems show ?thesis by simp
  next
    case False
    with Cons.prems obtain k where k: "position P xs = Some k" "i = Suc k"
      by auto
    from Cons.IH [OF k(1)] False k(2) show ?thesis
      by (auto simp: less_Suc_eq_0_disj)
  qed
qed

lemma mset_remove_at:
  "i < length xs \<Longrightarrow> mset (remove_at i xs) = mset xs - {# xs ! i #}"
  using id_take_nth_drop [of i xs]
  by (metis add_mset_remove_trivial mset.simps(2) mset_append remove_at_def union_mset_add_mset_right)

lemma mset_swap_remove:
  assumes "i < length xs"
  shows "mset (swap_remove i xs) = mset xs - {# xs ! i #}"
proof (cases "Suc i = length xs")
  case True
  then have ne: "xs \<noteq> []" by auto
  from True have "i = length xs - 1" by simp
  with ne have "xs ! i = last xs" by (simp add: last_conv_nth)
  with ne have "xs = butlast xs @ [xs ! i]" by simp
  then have "mset xs = mset (butlast xs) + {# xs ! i #}"
    by (metis mset.simps(1) mset.simps(2) mset_append)
  with True show ?thesis by (simp add: swap_remove_def)
next
  case False
  with assms have ne: "xs \<noteq> []" and i: "i < length xs - 1" by auto
  let ?ys = "xs[i := last xs]"
  have "last ?ys = last xs"
    using i ne by (simp add: last_list_update)
  then have "mset ?ys = mset (butlast ?ys) + {# last xs #}"
    using ne append_butlast_last_id [of ?ys] by (metis list_update_nonempty mset.simps(1) mset.simps(2) mset_append)
  moreover have "mset ?ys = add_mset (last xs) (mset xs - {# xs ! i #})"
    using assms by (simp add: mset_update)
  ultimately show ?thesis using False by (simp add: swap_remove_def)
qed

section \<open>Generic lemmas\<close>

lemma sum_list_nonneg_filter_le:
  fixes f :: "'a \<Rightarrow> 'd::linordered_idom"
  assumes "\<forall>x \<in> set xs. 0 \<le> f x"
  shows "sum_list (map f (filter P xs)) \<le> sum_list (map f xs)"
  using assms by (induction xs) (auto intro: add_increasing)

lemma sum_list_map_nonneg:
  fixes f :: "'a \<Rightarrow> 'd::linordered_idom"
  shows "\<forall>x \<in> set xs. 0 \<le> f x \<Longrightarrow> 0 \<le> sum_list (map f xs)"
  by (induction xs) auto

lemma sum_list_map_pos:
  fixes f :: "'a \<Rightarrow> 'd::linordered_idom"
  assumes "xs \<noteq> []" and "\<forall>x \<in> set xs. 0 < f x"
  shows "0 < sum_list (map f xs)"
proof (cases xs)
  case Nil
  with assms(1) show ?thesis by simp
next
  case (Cons y ys)
  with assms(2) have "0 < f y" and "\<forall>x \<in> set ys. 0 \<le> f x"
    by (auto intro: less_imp_le)
  with Cons sum_list_map_nonneg [of ys f] show ?thesis by (simp add: add_pos_nonneg)
qed

section \<open>Trimming\<close>

text \<open>
  \<open>str::trim\<close> strips white space. Strings are ASCII in the model, where the white space is tab,
  line feed, vertical tab, form feed, carriage return and space.
\<close>

definition is_whitespace :: "char \<Rightarrow> bool" where
  "is_whitespace c \<longleftrightarrow> of_char c \<in> {9, 10, 11, 12, 13, 32 :: nat}"

definition trim :: "string \<Rightarrow> string" where
  "trim s = rev (dropWhile is_whitespace (rev (dropWhile is_whitespace s)))"

lemma trim_idem [simp]: "trim (trim s) = trim s"
proof (cases "trim s")
  case (Cons c cs)
  let ?y = "dropWhile is_whitespace s"
  obtain z where z: "?y = trim s @ z"
    unfolding trim_def by (metis rev_append rev_rev_ident takeWhile_dropWhile_id)
  with Cons have "?y = c # (cs @ z)" by simp
  then have "\<not> is_whitespace c" by (metis hd_dropWhile list.discI list.sel(1))
  with Cons have "dropWhile is_whitespace (trim s) = trim s" by simp
  then show ?thesis unfolding trim_def [of "trim s"] by (simp add: trim_def)
next
  case Nil
  moreover have "trim [] = []" by (simp add: trim_def)
  ultimately show ?thesis by simp
qed

section \<open>Integers\<close>

text \<open>Rust's \<open>/\<close> on signed integers truncates.\<close>

definition trunc_div :: "int \<Rightarrow> int \<Rightarrow> int" where
  "trunc_div a b = (if a < 0 then - (- a div b) else a div b)"

text \<open>\<open>Display\<close> for integers, and its zero-padded form.\<close>

fun nat_to_string :: "nat \<Rightarrow> string" where
  "nat_to_string n = (if n < 10 then [''0123456789'' ! n] else nat_to_string (n div 10) @ [''0123456789'' ! (n mod 10)])"

declare nat_to_string.simps [simp del]

definition int_to_string :: "int \<Rightarrow> string" where
  "int_to_string i = (if i < 0 then CHR ''-'' # nat_to_string (nat (- i)) else nat_to_string (nat i))"

definition zero_padded :: "nat \<Rightarrow> int \<Rightarrow> string" where
  "zero_padded width i =
     (let s = int_to_string (abs i); sign = (if i < 0 then ''-'' else [])
      in sign @ replicate (width - length sign - length s) (CHR ''0'') @ s)"

end
