(* ===== verification/Core_Types.thy ===== *)
theory Core_Types
  imports Prelude
begin

text \<open>
  The domain types of the matching engine (\<open>engine/crates/core/src/types.rs\<close>) and the
  event and depth types of \<open>book.rs\<close>. A struct is a record whose fields carry a short
  prefix (\<open>o_\<close> for \<open>Order\<close>, \<open>f_\<close> for \<open>Fill\<close>); the type variable \<open>'d\<close> is \<open>Decimal\<close>.
\<close>

datatype side = Buy | Sell

fun opposite :: "side \<Rightarrow> side" where
  "opposite Buy = Sell"
| "opposite Sell = Buy"

datatype order_type =
  Limit | Market | Ioc | Fok | PostOnly | StopLimit | StopMarket | Oco | Iceberg

definition is_stop :: "order_type \<Rightarrow> bool" where
  "is_stop t \<longleftrightarrow> t = StopLimit \<or> t = StopMarket"

definition cancels_remaining :: "order_type \<Rightarrow> bool" where
  "cancels_remaining t \<longleftrightarrow> t = Market \<or> t = Ioc"

datatype stp_mode = Decrement | CancelMaker | CancelTaker

definition default_stp_mode :: stp_mode where
  "default_stp_mode = Decrement"

datatype cancel_reason =
  NoLiquidity | FokUnfilled | PostOnlyCrossed | SelfTradePrevented | OcoLinked | AdminCancel

record 'd order =
  o_id :: uuid
  o_user_id :: uuid
  o_symbol :: string
  o_side :: side
  o_type :: order_type
  o_price :: "'d option"
  o_quantity :: 'd
  o_remaining :: 'd
  o_stp_mode :: stp_mode
  o_stop_price :: "'d option"
  o_oco_linked_id :: "uuid option"
  o_display_qty :: "'d option"

record 'd fill =
  f_taker_order_id :: uuid
  f_maker_order_id :: uuid
  f_price :: 'd
  f_quantity :: 'd
  f_taker_side :: side

datatype core_error = MissingStopPrice | MissingDisplayQty | MissingPrice | MissingOcoLink

text \<open>\<open>EngineEvent\<close> and \<open>BookDepth\<close> of \<open>book.rs\<close>.\<close>

datatype 'd core_event =
  Fill "'d fill"
| Rested uuid 'd
| Cancelled uuid cancel_reason
| StopTriggered uuid

record 'd book_depth =
  d_bids :: "('d \<times> 'd) list"
  d_asks :: "('d \<times> 'd) list"

lemma opposite_opposite [simp]: "opposite (opposite s) = s"
  by (cases s) simp_all

lemma opposite_neq [simp]: "opposite s \<noteq> s" "s \<noteq> opposite s"
  by (cases s; simp)+

text \<open>Readers of event lists shared by every component above the book.\<close>

fun fill_of :: "'d core_event \<Rightarrow> 'd fill option" where
  "fill_of (Fill f) = Some f"
| "fill_of _ = None"

definition fills_of :: "'d core_event list \<Rightarrow> 'd fill list" where
  "fills_of evs = List.map_filter fill_of evs"

lemma fills_of_Nil [simp]: "fills_of [] = []"
  by (simp add: fills_of_def map_filter_simps)

lemma fills_of_Cons [simp]:
  "fills_of (e # evs) = (case fill_of e of None \<Rightarrow> fills_of evs | Some f \<Rightarrow> f # fills_of evs)"
  by (simp add: fills_of_def map_filter_simps split: option.split)

lemma fills_of_append [simp]: "fills_of (xs @ ys) = fills_of xs @ fills_of ys"
  by (induction xs) (auto split: option.splits)

lemma set_fills_of: "f \<in> set (fills_of evs) \<longleftrightarrow> Fill f \<in> set evs"
proof (induction evs)
  case (Cons e evs)
  then show ?case by (cases e) auto
qed simp

end
