(* ===== verification/BTree_Map.thy ===== *)
theory BTree_Map
  imports Prelude
begin

text \<open>
  The ordered map \<open>std::collections::BTreeMap\<close> as the code uses it: an association list in
  ascending key order. The locale \<open>ordered_map\<close> is the interface the order book and the
  stop registry rely on; it is interpreted on the list model at the end of the theory.
\<close>

type_synonym ('k, 'v) btree = "('k \<times> 'v) list"

section \<open>Operations\<close>

definition bt_keys :: "('k, 'v) btree \<Rightarrow> 'k list" where
  "bt_keys m = map fst m"

definition bt_wf :: "('k::linorder, 'v) btree \<Rightarrow> bool" where
  "bt_wf m \<longleftrightarrow> sorted_wrt (<) (bt_keys m)"

definition bt_get :: "('k, 'v) btree \<Rightarrow> 'k \<Rightarrow> 'v option" where
  "bt_get m k = map_of m k"

fun bt_insert :: "'k::linorder \<Rightarrow> 'v \<Rightarrow> ('k, 'v) btree \<Rightarrow> ('k, 'v) btree" where
  "bt_insert k v [] = [(k, v)]"
| "bt_insert k v (e # m) =
     (if fst e < k then e # bt_insert k v m
      else if fst e = k then (k, v) # m
      else (k, v) # e # m)"

definition bt_remove :: "'k \<Rightarrow> ('k, 'v) btree \<Rightarrow> ('k, 'v) btree" where
  "bt_remove k m = filter (\<lambda>e. fst e \<noteq> k) m"

text \<open>\<open>get_mut(&k)\<close> followed by a write through the reference.\<close>

definition bt_modify :: "'k \<Rightarrow> ('v \<Rightarrow> 'v) \<Rightarrow> ('k, 'v) btree \<Rightarrow> ('k, 'v) btree" where
  "bt_modify k f m = map (\<lambda>e. if fst e = k then (k, f (snd e)) else e) m"

text \<open>\<open>entry(k).or_default()\<close> followed by a write through the reference.\<close>

definition bt_entry :: "'k::linorder \<Rightarrow> 'v \<Rightarrow> ('v \<Rightarrow> 'v) \<Rightarrow> ('k, 'v) btree \<Rightarrow> ('k, 'v) btree" where
  "bt_entry k d f m = bt_insert k (f (case bt_get m k of None \<Rightarrow> d | Some v \<Rightarrow> v)) m"

text \<open>\<open>keys().next()\<close> and \<open>keys().next_back()\<close>.\<close>

definition bt_first :: "('k, 'v) btree \<Rightarrow> 'k option" where
  "bt_first m = (case m of [] \<Rightarrow> None | e # _ \<Rightarrow> Some (fst e))"

definition bt_last :: "('k, 'v) btree \<Rightarrow> 'k option" where
  "bt_last m = (case m of [] \<Rightarrow> None | _ \<Rightarrow> Some (fst (last m)))"

section \<open>Laws\<close>

lemma bt_wf_Nil [simp]: "bt_wf []"
  by (simp add: bt_wf_def bt_keys_def)

lemma bt_wf_Cons: "bt_wf (e # m) \<longleftrightarrow> (\<forall>k \<in> fst ` set m. fst e < k) \<and> bt_wf m"
  by (auto simp: bt_wf_def bt_keys_def)

lemma bt_wf_distinct: "bt_wf m \<Longrightarrow> distinct (map fst m)"
  by (simp add: bt_wf_def bt_keys_def strict_sorted_iff)

lemma bt_keys_set [simp]: "set (bt_keys m) = fst ` set m"
  by (simp add: bt_keys_def)

lemma bt_get_None_iff: "bt_get m k = None \<longleftrightarrow> k \<notin> fst ` set m"
  by (simp add: bt_get_def map_of_eq_None_iff)

lemma bt_get_SomeD: "bt_get m k = Some v \<Longrightarrow> (k, v) \<in> set m"
  by (simp add: bt_get_def map_of_SomeD)

lemma bt_get_Some_iff: "bt_wf m \<Longrightarrow> bt_get m k = Some v \<longleftrightarrow> (k, v) \<in> set m"
  by (simp add: bt_get_def map_of_eq_Some_iff bt_wf_distinct)

lemma fst_set_bt_insert [simp]: "fst ` set (bt_insert k v m) = insert k (fst ` set m)"
  by (induction m) auto

lemma bt_wf_insert [wf_intros]: "bt_wf m \<Longrightarrow> bt_wf (bt_insert k v m)"
  by (induction m) (auto simp: bt_wf_Cons)

lemma bt_get_insert [level_simps]: "bt_wf m \<Longrightarrow> bt_get (bt_insert k v m) k' = (if k' = k then Some v else bt_get m k')"
proof (induction m)
  case Nil
  then show ?case by (simp add: bt_get_def)
next
  case (Cons e m)
  then show ?case by (cases e) (auto simp: bt_get_def bt_wf_Cons split: if_splits)
qed

lemma fst_set_bt_remove [simp]: "fst ` set (bt_remove k m) = fst ` set m - {k}"
  by (auto simp: bt_remove_def)

lemma bt_wf_remove [wf_intros]: "bt_wf m \<Longrightarrow> bt_wf (bt_remove k m)"
  by (induction m) (auto simp: bt_wf_Cons bt_remove_def)

lemma bt_get_remove [level_simps]: "bt_get (bt_remove k m) k' = (if k' = k then None else bt_get m k')"
  by (induction m) (auto simp: bt_remove_def bt_get_def)

lemma bt_wf_entry [wf_intros]: "bt_wf m \<Longrightarrow> bt_wf (bt_entry k d f m)"
  by (simp add: bt_entry_def bt_wf_insert)

lemma bt_get_entry [level_simps]:
  "bt_wf m \<Longrightarrow> bt_get (bt_entry k d f m) k' =
     (if k' = k then Some (f (case bt_get m k of None \<Rightarrow> d | Some v \<Rightarrow> v)) else bt_get m k')"
  by (simp add: bt_entry_def bt_get_insert)

lemma fst_bt_modify [simp]: "map fst (bt_modify k f m) = map fst m"
  by (induction m) (auto simp: bt_modify_def)

lemma fst_set_bt_modify [simp]: "fst ` set (bt_modify k f m) = fst ` set m"
  by (metis fst_bt_modify list.set_map)

lemma bt_wf_modify [simp]: "bt_wf (bt_modify k f m) = bt_wf m"
  by (simp add: bt_wf_def bt_keys_def)

lemma bt_get_modify [level_simps]:
  "bt_get (bt_modify k f m) k' = (if k' = k then map_option f (bt_get m k) else bt_get m k')"
  by (induction m) (auto simp: bt_modify_def bt_get_def)

lemma bt_first_None_iff [simp]: "bt_first m = None \<longleftrightarrow> m = []"
  by (cases m) (auto simp: bt_first_def)

lemma bt_last_None_iff [simp]: "bt_last m = None \<longleftrightarrow> m = []"
  by (cases m) (auto simp: bt_last_def)

lemma bt_first_mem: "bt_first m = Some k \<Longrightarrow> k \<in> fst ` set m"
  by (cases m) (auto simp: bt_first_def)

lemma bt_last_mem: "bt_last m = Some k \<Longrightarrow> k \<in> fst ` set m"
  by (cases m) (auto simp: bt_last_def)

lemma bt_first_le: "bt_wf m \<Longrightarrow> bt_first m = Some k \<Longrightarrow> k' \<in> fst ` set m \<Longrightarrow> k \<le> k'"
  by (cases m) (auto simp: bt_first_def bt_wf_Cons less_imp_le)

lemma bt_last_ge:
  assumes "bt_wf m" and "bt_last m = Some k" and "k' \<in> fst ` set m"
  shows "k' \<le> k"
proof -
  from assms(2) have ne: "m \<noteq> []" and k: "k = fst (last m)"
    by (auto simp: bt_last_def split: list.splits)
  have m: "m = butlast m @ [last m]" using ne by simp
  have "sorted_wrt (<) (map fst (butlast m @ [last m]))"
    using assms(1) m by (simp add: bt_wf_def bt_keys_def)
  then have "\<forall>x \<in> fst ` set (butlast m). x < k"
    by (auto simp: k sorted_wrt_append)
  moreover have "fst ` set m = insert k (fst ` set (butlast m))"
    by (subst m) (simp add: k)
  with assms(3) have "k' \<in> fst ` set (butlast m) \<or> k' = k" by blast
  ultimately show ?thesis by auto
qed

section \<open>The interface\<close>

text \<open>
  What a client of the map relies on: lookup after each update, the keys each update
  leaves, and that the two end keys bound all others. The client lemmas that follow are
  proved once from these laws.
\<close>

locale ordered_map =
  fixes mget :: "'m \<Rightarrow> 'k::linorder \<Rightarrow> 'v option"
    and mput :: "'k \<Rightarrow> 'v \<Rightarrow> 'm \<Rightarrow> 'm"
    and mdel :: "'k \<Rightarrow> 'm \<Rightarrow> 'm"
    and mkeys :: "'m \<Rightarrow> 'k set"
    and mmin :: "'m \<Rightarrow> 'k option"
    and mmax :: "'m \<Rightarrow> 'k option"
    and minv :: "'m \<Rightarrow> bool"
  assumes get_put: "minv m \<Longrightarrow> mget (mput k v m) k' = (if k' = k then Some v else mget m k')"
    and get_del: "minv m \<Longrightarrow> mget (mdel k m) k' = (if k' = k then None else mget m k')"
    and keys_get: "minv m \<Longrightarrow> k \<in> mkeys m \<longleftrightarrow> mget m k \<noteq> None"
    and min_mem: "minv m \<Longrightarrow> mmin m = Some k \<Longrightarrow> k \<in> mkeys m"
    and min_le: "minv m \<Longrightarrow> mmin m = Some k \<Longrightarrow> k' \<in> mkeys m \<Longrightarrow> k \<le> k'"
    and min_none: "minv m \<Longrightarrow> mmin m = None \<longleftrightarrow> mkeys m = {}"
    and max_mem: "minv m \<Longrightarrow> mmax m = Some k \<Longrightarrow> k \<in> mkeys m"
    and max_ge: "minv m \<Longrightarrow> mmax m = Some k \<Longrightarrow> k' \<in> mkeys m \<Longrightarrow> k' \<le> k"
    and max_none: "minv m \<Longrightarrow> mmax m = None \<longleftrightarrow> mkeys m = {}"
    and inv_put: "minv m \<Longrightarrow> minv (mput k v m)"
    and inv_del: "minv m \<Longrightarrow> minv (mdel k m)"
begin

lemma keys_put: "minv m \<Longrightarrow> mkeys (mput k v m) = insert k (mkeys m)"
  using keys_get [of "mput k v m"] keys_get [of m]
  by (auto simp: get_put inv_put split: if_splits)

lemma keys_del: "minv m \<Longrightarrow> mkeys (mdel k m) = mkeys m - {k}"
  using keys_get [of "mdel k m"] keys_get [of m]
  by (auto simp: get_del inv_del split: if_splits)

lemma min_put: "minv m \<Longrightarrow> mmin (mput k v m) = Some (case mmin m of None \<Rightarrow> k | Some k' \<Rightarrow> min k k')"
proof -
  assume m: "minv m"
  then obtain j where j: "mmin (mput k v m) = Some j"
    using min_none [of "mput k v m"] keys_put [of m k v] inv_put [of m k v] by (cases "mmin (mput k v m)") auto
  note bounds = min_le [OF inv_put [OF m] j] min_mem [OF inv_put [OF m] j]
  show ?thesis
  proof (cases "mmin m")
    case None
    with m bounds j show ?thesis using min_none [of m] by (simp add: keys_put)
  next
    case (Some k')
    with m have "k' \<in> mkeys m" "\<forall>x \<in> mkeys m. k' \<le> x" by (auto intro: min_mem min_le)
    with m bounds have "j \<le> k" "j \<le> k'" "j = k \<or> k' \<le> j" by (auto simp: keys_put)
    with Some j show ?thesis by (auto simp: min_def)
  qed
qed

lemma max_put: "minv m \<Longrightarrow> mmax (mput k v m) = Some (case mmax m of None \<Rightarrow> k | Some k' \<Rightarrow> max k k')"
proof -
  assume m: "minv m"
  then obtain j where j: "mmax (mput k v m) = Some j"
    using max_none [of "mput k v m"] keys_put [of m k v] inv_put [of m k v] by (cases "mmax (mput k v m)") auto
  note bounds = max_ge [OF inv_put [OF m] j] max_mem [OF inv_put [OF m] j]
  show ?thesis
  proof (cases "mmax m")
    case None
    with m bounds j show ?thesis using max_none [of m] by (simp add: keys_put)
  next
    case (Some k')
    with m have "k' \<in> mkeys m" "\<forall>x \<in> mkeys m. x \<le> k'" by (auto intro: max_mem max_ge)
    with m bounds have "k \<le> j" "k' \<le> j" "j = k \<or> j \<le> k'" by (auto simp: keys_put)
    with Some j show ?thesis by (auto simp: max_def)
  qed
qed

end

interpretation bt: ordered_map bt_get bt_insert bt_remove "\<lambda>m. fst ` set m" bt_first bt_last bt_wf
  by unfold_locales
    (auto simp: level_simps wf_intros bt_get_None_iff
      dest: bt_first_mem bt_last_mem intro: bt_first_le bt_last_ge)

end
