(* ===== verification/Stop_Registry.thy ===== *)
theory Stop_Registry
  imports Core_Types BTree_Map
begin

text \<open>
  The stop registry (\<open>engine/crates/core/src/stop.rs\<close>): stop orders bucketed by trigger
  price, inserted, cancelled by identifier, and drained by the last trade price. The lemmas
  show that a drain splits the registry exactly into the triggered orders (converted) and
  those it leaves, and that a cancel removes one order and nothing else.
\<close>

record 'd stop_registry =
  buy_stops :: "('d, 'd order list) btree"
  sell_stops :: "('d, 'd order list) btree"

definition stop_new :: "'d stop_registry" where
  "stop_new = \<lparr>buy_stops = [], sell_stops = []\<rparr>"

definition stop_insert :: "'d::linorder stop_registry \<Rightarrow> 'd order \<Rightarrow> core_error + 'd stop_registry" where
  "stop_insert r ord =
     (case o_stop_price ord of
        None \<Rightarrow> Inl MissingStopPrice
      | Some stop_price \<Rightarrow>
          (case o_side ord of
             Buy \<Rightarrow> Inr (r\<lparr>buy_stops := bt_entry stop_price [] (\<lambda>bucket. bucket @ [ord]) (buy_stops r)\<rparr>)
           | Sell \<Rightarrow> Inr (r\<lparr>sell_stops := bt_entry stop_price [] (\<lambda>bucket. bucket @ [ord]) (sell_stops r)\<rparr>)))"

text \<open>The loop over \<open>values_mut()\<close>: the first bucket that holds the identifier loses it.\<close>

fun cancel_in_buckets :: "uuid \<Rightarrow> ('d, 'd order list) btree \<Rightarrow> ('d, 'd order list) btree option" where
  "cancel_in_buckets i [] = None"
| "cancel_in_buckets i ((k, bucket) # m) =
     (case position (\<lambda>ord. o_id ord = i) bucket of
        Some pos \<Rightarrow> Some ((k, swap_remove pos bucket) # m)
      | None \<Rightarrow> map_option ((#) (k, bucket)) (cancel_in_buckets i m))"

definition stop_cancel :: "'d stop_registry \<Rightarrow> uuid \<Rightarrow> 'd stop_registry \<times> bool" where
  "stop_cancel r i =
     (case cancel_in_buckets i (buy_stops r) of
        Some m \<Rightarrow> (r\<lparr>buy_stops := m\<rparr>, True)
      | None \<Rightarrow>
          (case cancel_in_buckets i (sell_stops r) of
             Some m \<Rightarrow> (r\<lparr>sell_stops := m\<rparr>, True)
           | None \<Rightarrow> (r, False)))"

fun convert_stop_type :: "order_type \<Rightarrow> order_type" where
  "convert_stop_type StopLimit = Limit"
| "convert_stop_type StopMarket = Market"
| "convert_stop_type other = other"

definition convert_stop :: "'d order \<Rightarrow> 'd order" where
  "convert_stop ord = ord\<lparr>o_type := convert_stop_type (o_type ord)\<rparr>"

text \<open>\<open>for key in trigger_keys\<close>: remove the bucket and append its converted orders.\<close>

fun drain_keys ::
  "'d list \<Rightarrow> ('d, 'd order list) btree \<Rightarrow> 'd order list \<Rightarrow> ('d, 'd order list) btree \<times> 'd order list" where
  "drain_keys [] m out = (m, out)"
| "drain_keys (key # keys) m out =
     (case bt_get m key of
        Some orders \<Rightarrow> drain_keys keys (bt_remove key m) (out @ map convert_stop orders)
      | None \<Rightarrow> drain_keys keys m out)"

definition drain_buy_stops :: "'d::linorder stop_registry \<Rightarrow> 'd \<Rightarrow> 'd stop_registry \<times> 'd order list" where
  "drain_buy_stops r last_trade_price =
     (let trigger_keys = filter (\<lambda>k. k \<le> last_trade_price) (bt_keys (buy_stops r));
          (m, out) = drain_keys trigger_keys (buy_stops r) []
      in (r\<lparr>buy_stops := m\<rparr>, out))"

definition drain_sell_stops :: "'d::linorder stop_registry \<Rightarrow> 'd \<Rightarrow> 'd stop_registry \<times> 'd order list" where
  "drain_sell_stops r last_trade_price =
     (let trigger_keys = filter (\<lambda>k. last_trade_price \<le> k) (bt_keys (sell_stops r));
          (m, out) = drain_keys trigger_keys (sell_stops r) []
      in (r\<lparr>sell_stops := m\<rparr>, out))"

definition drain_triggered :: "'d::linorder stop_registry \<Rightarrow> 'd \<Rightarrow> 'd stop_registry \<times> 'd order list" where
  "drain_triggered r last_trade_price =
     (let (r1, buys) = drain_buy_stops r last_trade_price;
          (r2, sells) = drain_sell_stops r1 last_trade_price
      in (r2, buys @ sells))"

definition stop_len :: "'d stop_registry \<Rightarrow> nat" where
  "stop_len r = sum_list (map (length \<circ> snd) (buy_stops r)) + sum_list (map (length \<circ> snd) (sell_stops r))"

definition stop_is_empty :: "'d stop_registry \<Rightarrow> bool" where
  "stop_is_empty r \<longleftrightarrow> stop_len r = 0"

section \<open>Well-formedness and contents\<close>

definition bucket_orders :: "('d, 'd order list) btree \<Rightarrow> 'd order list" where
  "bucket_orders m = concat (map snd m)"

definition stop_orders :: "'d stop_registry \<Rightarrow> 'd order list" where
  "stop_orders r = bucket_orders (buy_stops r) @ bucket_orders (sell_stops r)"

text \<open>Every order sits in the bucket of its own trigger price.\<close>

definition stop_buckets_wf :: "side \<Rightarrow> ('d::linorder, 'd order list) btree \<Rightarrow> bool" where
  "stop_buckets_wf s m \<longleftrightarrow>
     bt_wf m \<and> (\<forall>(k, bucket) \<in> set m. \<forall>ord \<in> set bucket. o_side ord = s \<and> o_stop_price ord = Some k)"

definition stop_wf :: "'d::linorder stop_registry \<Rightarrow> bool" where
  "stop_wf r \<longleftrightarrow> stop_buckets_wf Buy (buy_stops r) \<and> stop_buckets_wf Sell (sell_stops r)"

text \<open>The trigger condition of the documentation, on a single order.\<close>

definition stop_triggered_by :: "'d::linorder \<Rightarrow> 'd order \<Rightarrow> bool" where
  "stop_triggered_by p ord \<longleftrightarrow>
     (case o_stop_price ord of
        None \<Rightarrow> False
      | Some sp \<Rightarrow> (case o_side ord of Buy \<Rightarrow> sp \<le> p | Sell \<Rightarrow> p \<le> sp))"

section \<open>Draining\<close>

lemma bt_remove_absent: "key \<notin> fst ` set m \<Longrightarrow> bt_remove key m = m"
  by (auto simp: bt_remove_def intro!: filter_True)

lemma drain_keys_filter:
  assumes "bt_wf m"
  shows "drain_keys (filter P (bt_keys m)) m out =
           (filter (\<lambda>e. \<not> P (fst e)) m, out @ map convert_stop (bucket_orders (filter (\<lambda>e. P (fst e)) m)))"
proof -
  have gen: "drain_keys (filter P (bt_keys m2)) (m1 @ m2) out =
      (m1 @ filter (\<lambda>e. \<not> P (fst e)) m2, out @ map convert_stop (bucket_orders (filter (\<lambda>e. P (fst e)) m2)))"
    if "bt_wf (m1 @ m2)" for m1 m2 :: "('a, 'a order list) btree" and out
    using that
  proof (induction m2 arbitrary: m1 out)
    case Nil
    then show ?case by (simp add: bt_keys_def bucket_orders_def)
  next
    case (Cons e m2)
    obtain k v where e: "e = (k, v)" by fastforce
    have dist: "distinct (map fst (m1 @ e # m2))" using bt_wf_distinct [OF Cons.prems] .
    then have notin: "k \<notin> fst ` set m1" "k \<notin> fst ` set m2" using e by auto
    have get: "bt_get (m1 @ e # m2) k = Some v"
      using notin(1) e by (simp add: bt_get_def map_add_Some_iff map_of_eq_None_iff)
    have rem: "bt_remove k (m1 @ e # m2) = m1 @ m2"
      using notin [THEN bt_remove_absent] e by (simp add: bt_remove_def)
    have wf1: "bt_wf (m1 @ m2)" using bt_wf_remove [OF Cons.prems, of k] rem by simp
    show ?case
    proof (cases "P k")
      case True
      then show ?thesis
        using Cons.IH [OF wf1] get rem e by (simp add: bt_keys_def bucket_orders_def)
    next
      case False
      then show ?thesis
        using Cons.IH [of "m1 @ [e]"] Cons.prems e by (simp add: bt_keys_def)
    qed
  qed
  from gen [of "[]" m out] assms show ?thesis by simp
qed

lemma mset_bucket_orders_filter:
  "mset (bucket_orders (filter P m)) + mset (bucket_orders (filter (\<lambda>e. \<not> P e) m)) = mset (bucket_orders m)"
  by (induction m) (auto simp: bucket_orders_def ac_simps)

lemma set_bucket_orders: "ord \<in> set (bucket_orders m) \<longleftrightarrow> (\<exists>(k, b) \<in> set m. ord \<in> set b)"
  by (auto simp: bucket_orders_def intro: rev_bexI)

lemma drain_triggered_split:
  assumes "stop_wf r"
  shows "drain_triggered r p =
    (r\<lparr>buy_stops := filter (\<lambda>e. \<not> fst e \<le> p) (buy_stops r),
       sell_stops := filter (\<lambda>e. \<not> p \<le> fst e) (sell_stops r)\<rparr>,
     map convert_stop (bucket_orders (filter (\<lambda>e. fst e \<le> p) (buy_stops r)) @
                       bucket_orders (filter (\<lambda>e. p \<le> fst e) (sell_stops r))))"
  using assms
  by (simp add: drain_triggered_def drain_buy_stops_def drain_sell_stops_def drain_keys_filter
      stop_wf_def stop_buckets_wf_def)

lemma bt_wf_filter: "bt_wf m \<Longrightarrow> bt_wf (filter P m)"
  by (induction m) (auto simp: bt_wf_Cons)

lemma stop_wf_drain: "stop_wf r \<Longrightarrow> stop_wf (fst (drain_triggered r p))"
  by (auto simp: drain_triggered_split stop_wf_def stop_buckets_wf_def bt_wf_filter)

lemma drain_triggered_mset:
  assumes "stop_wf r" and "drain_triggered r p = (r', out)"
  shows "\<exists>ts. out = map convert_stop ts \<and> mset ts + mset (stop_orders r') = mset (stop_orders r)
     \<and> (\<forall>ord \<in> set ts. stop_triggered_by p ord) \<and> (\<forall>ord \<in> set (stop_orders r'). \<not> stop_triggered_by p ord)"
proof -
  let ?ts = "bucket_orders (filter (\<lambda>e. fst e \<le> p) (buy_stops r)) @
             bucket_orders (filter (\<lambda>e. p \<le> fst e) (sell_stops r))"
  have r': "r' = r\<lparr>buy_stops := filter (\<lambda>e. \<not> fst e \<le> p) (buy_stops r),
       sell_stops := filter (\<lambda>e. \<not> p \<le> fst e) (sell_stops r)\<rparr>" and out: "out = map convert_stop ?ts"
    using assms drain_triggered_split [OF assms(1), of p] by auto
  have "mset ?ts + mset (stop_orders r') = mset (stop_orders r)"
    using mset_bucket_orders_filter [of "\<lambda>e. fst e \<le> p" "buy_stops r"]
      mset_bucket_orders_filter [of "\<lambda>e. p \<le> fst e" "sell_stops r"]
    by (simp add: stop_orders_def r' ac_simps flip: add.assoc)
  moreover have "\<forall>ord \<in> set ?ts. stop_triggered_by p ord"
    and "\<forall>ord \<in> set (stop_orders r'). \<not> stop_triggered_by p ord"
    using assms(1)
    by (fastforce simp: stop_orders_def r' set_bucket_orders stop_wf_def stop_buckets_wf_def
        stop_triggered_by_def)+
  ultimately show ?thesis using out by blast
qed

section \<open>Inserting and cancelling\<close>

lemma bucket_orders_insert_mset:
  "bt_wf m \<Longrightarrow> mset (bucket_orders (bt_entry k [] (\<lambda>b. b @ [ord]) m)) = add_mset ord (mset (bucket_orders m))"
proof (induction m)
  case Nil
  then show ?case by (simp add: bt_entry_def bt_get_def bucket_orders_def)
next
  case (Cons e m)
  obtain k' v where e: "e = (k', v)" by fastforce
  have IH: "mset (bucket_orders (bt_entry k [] (\<lambda>b. b @ [ord]) m)) = add_mset ord (mset (bucket_orders m))"
    using Cons by (simp add: bt_wf_Cons)
  consider "k' < k" | "k' = k" | "k < k'" by (metis linorder_less_linear)
  then show ?case
  proof cases
    case 1
    with IH e show ?thesis by (auto simp: bt_entry_def bt_get_def bucket_orders_def)
  next
    case 2
    with e show ?thesis by (simp add: bt_entry_def bt_get_def bucket_orders_def)
  next
    case 3
    with Cons.prems e have "k \<notin> fst ` set (e # m)" by (auto simp: bt_wf_Cons)
    then have "bt_get (e # m) k = None" by (simp add: bt_get_None_iff)
    with 3 e show ?thesis by (auto simp: bt_entry_def bucket_orders_def)
  qed
qed

lemma set_bt_insert_subset: "set (bt_insert k v m) \<subseteq> insert (k, v) (set m)"
  by (induction m) auto

lemma stop_buckets_wf_entry:
  assumes "stop_buckets_wf s m" "o_side ord = s" "o_stop_price ord = Some k"
  shows "stop_buckets_wf s (bt_entry k [] (\<lambda>b. b @ [ord]) m)"
proof -
  let ?b = "case bt_get m k of None \<Rightarrow> [] | Some v \<Rightarrow> v"
  have b: "\<forall>x \<in> set ?b. o_side x = s \<and> o_stop_price x = Some k"
  proof (cases "bt_get m k")
    case (Some v)
    with assms(1) show ?thesis by (auto simp: stop_buckets_wf_def dest!: bt_get_SomeD)
  qed simp
  have "set (bt_entry k [] (\<lambda>b. b @ [ord]) m) \<subseteq> insert (k, ?b @ [ord]) (set m)"
    unfolding bt_entry_def by (rule set_bt_insert_subset)
  moreover have "bt_wf (bt_entry k [] (\<lambda>b. b @ [ord]) m)"
    using assms(1) by (simp add: stop_buckets_wf_def wf_intros)
  moreover have "\<forall>(k', b') \<in> insert (k, ?b @ [ord]) (set m). \<forall>x \<in> set b'. o_side x = s \<and> o_stop_price x = Some k'"
    using assms b by (simp add: stop_buckets_wf_def)
  ultimately show ?thesis unfolding stop_buckets_wf_def by blast
qed

lemma stop_insert_wf: "stop_wf r \<Longrightarrow> stop_insert r ord = Inr r' \<Longrightarrow> stop_wf r'"
  by (auto simp: stop_insert_def stop_wf_def stop_buckets_wf_entry split: option.splits side.splits)

lemma stop_insert_mset:
  "stop_wf r \<Longrightarrow> stop_insert r ord = Inr r' \<Longrightarrow> mset (stop_orders r') = add_mset ord (mset (stop_orders r))"
  by (auto simp: stop_insert_def stop_wf_def stop_buckets_wf_def stop_orders_def bucket_orders_insert_mset
      split: option.splits side.splits)

lemma cancel_in_buckets_None:
  "cancel_in_buckets i m = None \<longleftrightarrow> (\<forall>ord \<in> set (bucket_orders m). o_id ord \<noteq> i)"
  by (induction m) (auto simp: bucket_orders_def split: option.splits)

lemma cancel_in_buckets_Some:
  "cancel_in_buckets i m = Some m' \<Longrightarrow>
     map fst m' = map fst m \<and>
     (\<exists>ord. o_id ord = i \<and> ord \<in># mset (bucket_orders m) \<and>
            mset (bucket_orders m') = mset (bucket_orders m) - {#ord#}) \<and>
     (\<forall>(k, b) \<in> set m'. \<exists>b0. (k, b0) \<in> set m \<and> set b \<subseteq> set b0)"
proof (induction m arbitrary: m')
  case Nil
  then show ?case by simp
next
  case (Cons e m)
  obtain k bucket where e: "e = (k, bucket)" by fastforce
  show ?case
  proof (cases "position (\<lambda>ord. o_id ord = i) bucket")
    case (Some pos)
    let ?ord = "bucket ! pos"
    from position_SomeD [OF Some] have pos: "pos < length bucket" "o_id ?ord = i" by auto
    have m': "m' = (k, swap_remove pos bucket) # m" using Cons.prems Some e by simp
    have sub: "set (swap_remove pos bucket) \<subseteq> set bucket"
      by (metis in_diffD mset_swap_remove pos(1) set_mset_mset subsetI)
    have "mset (swap_remove pos bucket) + mset (bucket_orders m)
        = mset bucket - {#?ord#} + mset (bucket_orders m)"
      by (simp add: mset_swap_remove pos)
    also have "\<dots> = (mset bucket + mset (bucket_orders m)) - {#?ord#}"
      using pos(1) by (simp add: diff_union_single_conv)
    finally have "mset (bucket_orders m') = mset (bucket_orders (e # m)) - {#?ord#}"
      by (simp add: m' e bucket_orders_def)
    then show ?thesis
      using pos m' e sub by (fastforce simp: bucket_orders_def)
  next
    case None
    with Cons.prems e obtain m1 where m1: "cancel_in_buckets i m = Some m1" "m' = e # m1" by auto
    from Cons.IH [OF m1(1)] obtain ord where ord: "o_id ord = i" "ord \<in># mset (bucket_orders m)"
      "mset (bucket_orders m1) = mset (bucket_orders m) - {#ord#}" and fst: "map fst m1 = map fst m"
      and sub: "\<forall>(k, b) \<in> set m1. \<exists>b0. (k, b0) \<in> set m \<and> set b \<subseteq> set b0" by blast
    have "mset (bucket_orders m') = mset (bucket_orders (e # m)) - {#ord#}"
      using ord(2,3) by (simp add: m1 e bucket_orders_def)
    moreover have "ord \<in># mset (bucket_orders (e # m))" using ord(2) by (simp add: bucket_orders_def)
    ultimately show ?thesis using ord(1) fst sub m1 e by fastforce
  qed
qed

lemma stop_cancel_False:
  "snd (stop_cancel r i) = False \<longleftrightarrow> (\<forall>ord \<in> set (stop_orders r). o_id ord \<noteq> i)"
  using cancel_in_buckets_None [of i "buy_stops r"] cancel_in_buckets_None [of i "sell_stops r"]
  by (auto simp: stop_cancel_def stop_orders_def split: option.splits)

lemma stop_cancel_False_same: "stop_cancel r i = (r', False) \<Longrightarrow> r' = r"
  by (auto simp: stop_cancel_def split: option.splits)

lemma stop_cancel_True_mset:
  assumes "stop_cancel r i = (r', True)"
  shows "\<exists>ord. o_id ord = i \<and> ord \<in># mset (stop_orders r) \<and> mset (stop_orders r') = mset (stop_orders r) - {#ord#}"
proof (cases "cancel_in_buckets i (buy_stops r)")
  case (Some m)
  from cancel_in_buckets_Some [OF Some] obtain ord where ord: "o_id ord = i"
    "ord \<in># mset (bucket_orders (buy_stops r))" "mset (bucket_orders m) = mset (bucket_orders (buy_stops r)) - {#ord#}"
    by blast
  have "r' = r\<lparr>buy_stops := m\<rparr>" using assms Some by (simp add: stop_cancel_def)
  with ord show ?thesis
    by (intro exI [of _ ord]) (simp add: stop_orders_def)
next
  case None
  with assms obtain m where m: "cancel_in_buckets i (sell_stops r) = Some m" "r' = r\<lparr>sell_stops := m\<rparr>"
    by (auto simp: stop_cancel_def split: option.splits)
  from cancel_in_buckets_Some [OF m(1)] obtain ord where ord: "o_id ord = i"
    "ord \<in># mset (bucket_orders (sell_stops r))" "mset (bucket_orders m) = mset (bucket_orders (sell_stops r)) - {#ord#}"
    by blast
  have "mset (stop_orders r') = mset (bucket_orders (buy_stops r)) + (mset (bucket_orders (sell_stops r)) - {#ord#})"
    using m ord(3) by (simp add: stop_orders_def)
  also have "\<dots> = mset (stop_orders r) - {#ord#}"
    using ord(2) by (simp only: diff_union_single_conv stop_orders_def mset_append)
  finally show ?thesis using ord by (auto simp: stop_orders_def)
qed

lemma stop_buckets_wf_cancel:
  "stop_buckets_wf s m \<Longrightarrow> cancel_in_buckets i m = Some m' \<Longrightarrow> stop_buckets_wf s m'"
proof -
  assume wf: "stop_buckets_wf s m" and "cancel_in_buckets i m = Some m'"
  from cancel_in_buckets_Some [OF this(2)] have fst: "map fst m' = map fst m"
    and sub: "\<forall>(k, b) \<in> set m'. \<exists>b0. (k, b0) \<in> set m \<and> set b \<subseteq> set b0" by auto
  have "o_side ord = s \<and> o_stop_price ord = Some k" if "(k, b) \<in> set m'" "ord \<in> set b" for k b ord
  proof -
    from sub that(1) obtain b0 where "(k, b0) \<in> set m" "set b \<subseteq> set b0" by blast
    with wf that(2) show ?thesis unfolding stop_buckets_wf_def by blast
  qed
  with wf fst show ?thesis by (auto simp: stop_buckets_wf_def bt_wf_def bt_keys_def)
qed

lemma stop_cancel_wf: "stop_wf r \<Longrightarrow> stop_wf (fst (stop_cancel r i))"
  by (auto simp: stop_cancel_def stop_wf_def intro: stop_buckets_wf_cancel split: option.splits)

lemma convert_stop_fields [simp]:
  "o_id (convert_stop ord) = o_id ord" "o_user_id (convert_stop ord) = o_user_id ord"
  "o_side (convert_stop ord) = o_side ord" "o_price (convert_stop ord) = o_price ord"
  "o_remaining (convert_stop ord) = o_remaining ord" "o_display_qty (convert_stop ord) = o_display_qty ord"
  "o_quantity (convert_stop ord) = o_quantity ord" "o_symbol (convert_stop ord) = o_symbol ord"
  by (simp_all add: convert_stop_def)

lemma convert_stop_active: "\<not> is_stop (o_type (convert_stop ord))"
  by (cases "o_type ord") (simp_all add: convert_stop_def is_stop_def)

end
