(* ===== verification/Order_Book.thy ===== *)
theory Order_Book
  imports Stop_Registry
begin

text \<open>
  The order book of one symbol (\<open>engine/crates/core/src/book.rs\<close>): its state and every
  operation, in the order of the source. A method that mutates \<open>self\<close> returns the new book.
  The matching loop and the work queue of \<open>match_order\<close> are \<open>partial_function (option)\<close>:
  \<open>None\<close> means that the Rust loop does not return.
\<close>

definition MAX_STOP_CHAIN_DEPTH :: nat where
  "MAX_STOP_CHAIN_DEPTH = 16"

type_synonym 'd levels = "('d, 'd order list) btree"

record 'd order_book =
  bids :: "'d levels"
  asks :: "'d levels"
  order_index :: "uuid \<rightharpoonup> side \<times> 'd"
  stops :: "'d stop_registry"
  oco_links :: "uuid \<rightharpoonup> uuid"

record 'd peeked_maker =
  pk_id :: uuid
  pk_user_id :: uuid
  pk_effective_qty :: 'd
  pk_remaining :: 'd
  pk_has_display_qty :: bool

datatype stp_outcome = TakerConsumed | StpContinue

definition book_new :: "'d order_book" where
  "book_new = \<lparr>bids = [], asks = [], order_index = Map.empty, stops = stop_new, oco_links = Map.empty\<rparr>"

definition book_clone :: "'d order_book \<Rightarrow> 'd order_book" where
  "book_clone b = b\<lparr>order_index := Map.empty\<rparr>"

text \<open>\<open>match side { Buy => self.bids, Sell => self.asks }\<close>, read and written.\<close>

fun side_levels :: "side \<Rightarrow> 'd order_book \<Rightarrow> 'd levels" where
  "side_levels Buy b = bids b"
| "side_levels Sell b = asks b"

fun set_side_levels :: "side \<Rightarrow> 'd levels \<Rightarrow> 'd order_book \<Rightarrow> 'd order_book" where
  "set_side_levels Buy m b = b\<lparr>bids := m\<rparr>"
| "set_side_levels Sell m b = b\<lparr>asks := m\<rparr>"

section \<open>Book maintenance\<close>

definition insert_maker :: "'d::linorder order_book \<Rightarrow> 'd order \<Rightarrow> 'd order_book" where
  "insert_maker b ord =
     (case o_price ord of
        None \<Rightarrow> b
      | Some price \<Rightarrow>
          set_side_levels (o_side ord)
            (bt_entry price [] (\<lambda>level. level @ [ord]) (side_levels (o_side ord) b))
            (b\<lparr>order_index := (order_index b)(o_id ord \<mapsto> (o_side ord, price))\<rparr>))"

definition best_bid :: "'d order_book \<Rightarrow> 'd option" where
  "best_bid b = bt_last (bids b)"

definition best_ask :: "'d order_book \<Rightarrow> 'd option" where
  "best_ask b = bt_first (asks b)"

fun best_opposite_price :: "'d order_book \<Rightarrow> side \<Rightarrow> 'd option" where
  "best_opposite_price b Buy = bt_first (asks b)"
| "best_opposite_price b Sell = bt_last (bids b)"

definition remove_level :: "'d order_book \<Rightarrow> side \<Rightarrow> 'd \<Rightarrow> 'd order_book" where
  "remove_level b s price = set_side_levels s (bt_remove price (side_levels s b)) b"

section \<open>Read-only queries\<close>

definition queue_qty :: "'d::linordered_idom order list \<Rightarrow> 'd" where
  "queue_qty q = sum_list (map o_remaining q)"

definition total_depth :: "'d::linordered_idom order_book \<Rightarrow> 'd \<times> 'd" where
  "total_depth b =
     (sum_list (map o_remaining (concat (map snd (bids b)))),
      sum_list (map o_remaining (concat (map snd (asks b)))))"

definition depth_levels :: "'d::linordered_idom order_book \<Rightarrow> nat \<Rightarrow> 'd book_depth" where
  "depth_levels b depth =
     \<lparr>d_bids = filter (\<lambda>(_, quantity). 0 < quantity)
                (map (\<lambda>(price, orders). (price, queue_qty orders)) (take depth (rev (bids b)))),
      d_asks = filter (\<lambda>(_, quantity). 0 < quantity)
                (map (\<lambda>(price, orders). (price, queue_qty orders)) (take depth (asks b)))\<rparr>"

definition index_queue :: "side \<Rightarrow> 'd \<Rightarrow> 'd order list \<Rightarrow> (uuid \<rightharpoonup> side \<times> 'd) \<Rightarrow> (uuid \<rightharpoonup> side \<times> 'd)" where
  "index_queue s price queue idx = fold (\<lambda>ord idx. idx(o_id ord \<mapsto> (s, price))) queue idx"

definition index_levels :: "side \<Rightarrow> 'd levels \<Rightarrow> (uuid \<rightharpoonup> side \<times> 'd) \<Rightarrow> (uuid \<rightharpoonup> side \<times> 'd)" where
  "index_levels s m idx = fold (\<lambda>(price, queue) idx. index_queue s price queue idx) m idx"

definition rebuild_index :: "'d order_book \<Rightarrow> 'd order_book" where
  "rebuild_index b = b\<lparr>order_index := index_levels Sell (asks b) (index_levels Buy (bids b) Map.empty)\<rparr>"

section \<open>Pre-matching checks\<close>

text \<open>The \<open>for\<close> loop of \<open>can_fully_fill\<close>; \<open>beyond\<close> is the price test that breaks out of it.\<close>

fun can_fill_loop :: "('d \<Rightarrow> bool) \<Rightarrow> 'd::linordered_idom \<Rightarrow> 'd \<Rightarrow> 'd levels \<Rightarrow> bool" where
  "can_fill_loop beyond wanted available [] = False"
| "can_fill_loop beyond wanted available ((price, queue) # rest) =
     (if beyond price then False
      else let available' = available + queue_qty queue
           in if wanted \<le> available' then True else can_fill_loop beyond wanted available' rest)"

definition can_fully_fill :: "'d::linordered_idom order_book \<Rightarrow> 'd order \<Rightarrow> bool" where
  "can_fully_fill b taker =
     (case o_side taker of
        Buy \<Rightarrow> can_fill_loop
                 (\<lambda>price. case o_price taker of None \<Rightarrow> False | Some limit \<Rightarrow> limit < price)
                 (o_remaining taker) 0 (asks b)
      | Sell \<Rightarrow> can_fill_loop
                 (\<lambda>price. case o_price taker of None \<Rightarrow> False | Some limit \<Rightarrow> price < limit)
                 (o_remaining taker) 0 (rev (bids b)))"

definition would_cross_post_only :: "'d::linorder order_book \<Rightarrow> 'd order \<Rightarrow> bool" where
  "would_cross_post_only b taker =
     (case o_price taker of
        None \<Rightarrow> False
      | Some taker_price \<Rightarrow>
          (case o_side taker of
             Buy \<Rightarrow> (case best_ask b of None \<Rightarrow> False | Some best \<Rightarrow> best \<le> taker_price)
           | Sell \<Rightarrow> (case best_bid b of None \<Rightarrow> False | Some best \<Rightarrow> taker_price \<le> best)))"

definition taker_price_satisfied :: "'d::linorder order \<Rightarrow> 'd \<Rightarrow> bool" where
  "taker_price_satisfied taker price =
     (case o_price taker of
        None \<Rightarrow> True
      | Some limit \<Rightarrow> (case o_side taker of Buy \<Rightarrow> price \<le> limit | Sell \<Rightarrow> limit \<le> price))"

definition pre_check :: "'d::linordered_idom order_book \<Rightarrow> 'd order \<Rightarrow> 'd core_event option" where
  "pre_check b taker =
     (case o_type taker of
        Fok \<Rightarrow> (if \<not> can_fully_fill b taker then Some (Cancelled (o_id taker) FokUnfilled) else None)
      | PostOnly \<Rightarrow> (if would_cross_post_only b taker then Some (Cancelled (o_id taker) PostOnlyCrossed) else None)
      | _ \<Rightarrow> None)"

section \<open>Stop helpers\<close>

definition register_stop_order :: "'d::linorder order_book \<Rightarrow> 'd order \<Rightarrow> 'd order_book \<times> 'd core_event list" where
  "register_stop_order b ord =
     (case stop_insert (stops b) ord of
        Inr r \<Rightarrow> (b\<lparr>stops := r\<rparr>, [Rested (o_id ord) (o_remaining ord)])
      | Inl _ \<Rightarrow> (b, [Cancelled (o_id ord) AdminCancel]))"

definition check_stop_triggers :: "'d::linorder order_book \<Rightarrow> 'd \<Rightarrow> 'd order_book \<times> 'd order list" where
  "check_stop_triggers b last_price =
     (let (r, triggered) = drain_triggered (stops b) last_price in (b\<lparr>stops := r\<rparr>, triggered))"

text \<open>\<open>last_trade_price.map_or_else(Vec::new, |p| self.check_stop_triggers(p))\<close>\<close>

definition trigger_after :: "'d::linorder order_book \<Rightarrow> 'd option \<Rightarrow> 'd order_book \<times> 'd order list" where
  "trigger_after b last_trade_price =
     (case last_trade_price of None \<Rightarrow> (b, []) | Some p \<Rightarrow> check_stop_triggers b p)"

section \<open>The front maker\<close>

definition peek_front_maker :: "'d::linorder order_book \<Rightarrow> side \<Rightarrow> 'd \<Rightarrow> 'd peeked_maker option" where
  "peek_front_maker b maker_side price =
     (case bt_get (side_levels maker_side b) price of
        None \<Rightarrow> None
      | Some [] \<Rightarrow> None
      | Some (maker # _) \<Rightarrow>
          Some \<lparr>pk_id = o_id maker, pk_user_id = o_user_id maker,
                pk_effective_qty =
                  (case o_display_qty maker of None \<Rightarrow> o_remaining maker | Some d \<Rightarrow> min d (o_remaining maker)),
                pk_remaining = o_remaining maker,
                pk_has_display_qty = (o_display_qty maker \<noteq> None)\<rparr>)"

text \<open>The writes to a level through its mutable borrow, then \<open>remove_level\<close> when it is empty.\<close>

definition put_level :: "'d order_book \<Rightarrow> side \<Rightarrow> 'd \<Rightarrow> 'd order list \<Rightarrow> 'd order_book" where
  "put_level b s price level =
     (let b' = set_side_levels s (bt_modify price (\<lambda>_. level) (side_levels s b)) b
      in if level = [] then remove_level b' s price else b')"

definition unindex :: "'d order_book \<Rightarrow> uuid \<Rightarrow> 'd order_book" where
  "unindex b i = b\<lparr>order_index := (order_index b)(i := None)\<rparr>"

definition apply_fill_to_maker ::
  "'d::linordered_idom order_book \<Rightarrow> side \<Rightarrow> 'd \<Rightarrow> 'd \<Rightarrow> 'd peeked_maker \<Rightarrow> 'd order_book \<times> bool" where
  "apply_fill_to_maker b maker_side price fill_qty peeked =
     (let peak_consumed = pk_has_display_qty peeked \<and> fill_qty = pk_effective_qty peeked
      in case bt_get (side_levels maker_side b) price of
           None \<Rightarrow> (b, False)
         | Some [] \<Rightarrow> (b, False)
         | Some (maker # rest) \<Rightarrow>
             (let maker' = maker\<lparr>o_remaining := o_remaining maker - fill_qty\<rparr>;
                  done = (o_remaining maker' = 0);
                  level = (if done then rest else if peak_consumed then rest @ [maker'] else maker' # rest);
                  b1 = (if done then unindex b (o_id maker) else b)
              in (put_level b1 maker_side price level, done)))"

section \<open>Self-trade prevention\<close>

definition pop_front_maker :: "'d order_book \<Rightarrow> side \<Rightarrow> 'd \<Rightarrow> uuid \<Rightarrow> 'd order_book" where
  "pop_front_maker b maker_side price maker_id =
     (case bt_get (side_levels maker_side b) price of
        None \<Rightarrow> b
      | Some level \<Rightarrow> put_level (unindex b maker_id) maker_side price (tl level))"

definition decrement_front_maker :: "'d::linordered_idom order_book \<Rightarrow> side \<Rightarrow> 'd \<Rightarrow> 'd \<Rightarrow> 'd order_book" where
  "decrement_front_maker b maker_side price qty =
     (case bt_get (side_levels maker_side b) price of
        None \<Rightarrow> b
      | Some [] \<Rightarrow> b
      | Some (maker # rest) \<Rightarrow>
          (let maker' = maker\<lparr>o_remaining := o_remaining maker - qty\<rparr>;
               b' = put_level b maker_side price (maker' # rest)
           in if o_remaining maker' = 0 then pop_front_maker b' maker_side price (o_id maker) else b'))"

definition apply_stp_decrement ::
  "'d::linordered_idom order_book \<Rightarrow> 'd order \<Rightarrow> 'd \<Rightarrow> 'd peeked_maker \<Rightarrow>
     'd order_book \<times> 'd order \<times> 'd core_event list \<times> stp_outcome" where
  "apply_stp_decrement b taker price peeked =
     (let maker_side = opposite (o_side taker)
      in if o_remaining taker < pk_remaining peeked then
           (decrement_front_maker b maker_side price (o_remaining taker), taker\<lparr>o_remaining := 0\<rparr>,
            [Cancelled (o_id taker) SelfTradePrevented], TakerConsumed)
         else if pk_remaining peeked < o_remaining taker then
           (pop_front_maker b maker_side price (pk_id peeked),
            taker\<lparr>o_remaining := o_remaining taker - pk_remaining peeked\<rparr>,
            [Cancelled (pk_id peeked) SelfTradePrevented], StpContinue)
         else
           (pop_front_maker b maker_side price (pk_id peeked), taker\<lparr>o_remaining := 0\<rparr>,
            [Cancelled (pk_id peeked) SelfTradePrevented, Cancelled (o_id taker) SelfTradePrevented],
            TakerConsumed))"

definition apply_stp ::
  "'d::linordered_idom order_book \<Rightarrow> 'd order \<Rightarrow> 'd \<Rightarrow> 'd peeked_maker \<Rightarrow>
     'd order_book \<times> 'd order \<times> 'd core_event list \<times> stp_outcome" where
  "apply_stp b taker price peeked =
     (case o_stp_mode taker of
        CancelTaker \<Rightarrow> (b, taker, [Cancelled (o_id taker) SelfTradePrevented], TakerConsumed)
      | CancelMaker \<Rightarrow>
          (pop_front_maker b (opposite (o_side taker)) price (pk_id peeked), taker,
           [Cancelled (pk_id peeked) SelfTradePrevented], StpContinue)
      | Decrement \<Rightarrow> apply_stp_decrement b taker price peeked)"

section \<open>Finalization, cancellation and OCO\<close>

definition cancel_order_internal ::
  "'d order_book \<Rightarrow> uuid \<Rightarrow> cancel_reason \<Rightarrow> 'd order_book \<times> 'd core_event list" where
  "cancel_order_internal b order_id reason =
     (case stop_cancel (stops b) order_id of
        (r, True) \<Rightarrow> (b\<lparr>stops := r\<rparr>, [Cancelled order_id reason])
      | (_, False) \<Rightarrow>
          (case order_index b order_id of
             None \<Rightarrow> (b, [])
           | Some (s, price) \<Rightarrow>
               (let b1 = unindex b order_id
                in case bt_get (side_levels s b1) price of
                     None \<Rightarrow> (b1, [])
                   | Some level \<Rightarrow>
                       (let level' = (case position (\<lambda>ord. o_id ord = order_id) level of
                                        Some pos \<Rightarrow> remove_at pos level
                                      | None \<Rightarrow> level)
                        in (put_level b1 s price level', [Cancelled order_id reason])))))"

definition maybe_cancel_oco :: "'d order_book \<Rightarrow> uuid \<Rightarrow> 'd order_book \<times> 'd core_event list" where
  "maybe_cancel_oco b order_id =
     (case oco_links b order_id of
        None \<Rightarrow> (b, [])
      | Some linked_id \<Rightarrow>
          cancel_order_internal
            (b\<lparr>oco_links := ((oco_links b)(order_id := None))(linked_id := None)\<rparr>) linked_id OcoLinked)"

definition finalize_taker ::
  "'d::linordered_idom order_book \<Rightarrow> 'd order \<Rightarrow> bool \<Rightarrow> 'd order_book \<times> 'd core_event list" where
  "finalize_taker b taker had_fills =
     (if o_remaining taker = 0 then (b, [])
      else case o_type taker of
             Market \<Rightarrow> (b, [Cancelled (o_id taker) NoLiquidity])
           | Ioc \<Rightarrow> (b, [Cancelled (o_id taker) NoLiquidity])
           | Fok \<Rightarrow> (b, [Cancelled (o_id taker) FokUnfilled])
           | PostOnly \<Rightarrow>
               (if had_fills then (b, [Cancelled (o_id taker) PostOnlyCrossed])
                else (insert_maker b taker, [Rested (o_id taker) (o_remaining taker)]))
           | Limit \<Rightarrow> (insert_maker b taker, [Rested (o_id taker) (o_remaining taker)])
           | Iceberg \<Rightarrow> (insert_maker b taker, [Rested (o_id taker) (o_remaining taker)])
           | Oco \<Rightarrow> (insert_maker b taker, [Rested (o_id taker) (o_remaining taker)])
           | StopLimit \<Rightarrow> (b, [Cancelled (o_id taker) AdminCancel])
           | StopMarket \<Rightarrow> (b, [Cancelled (o_id taker) AdminCancel]))"

definition cancel_order :: "'d order_book \<Rightarrow> uuid \<Rightarrow> 'd order_book \<times> 'd core_event list" where
  "cancel_order b order_id =
     (let linked = oco_links b order_id;
          links1 = (oco_links b)(order_id := None);
          links2 = (case linked of None \<Rightarrow> links1 | Some linked_id \<Rightarrow> links1(linked_id := None));
          (b1, events) = cancel_order_internal (b\<lparr>oco_links := links2\<rparr>) order_id AdminCancel
      in case linked of
           None \<Rightarrow> (b1, events)
         | Some linked_id \<Rightarrow>
             (let (b2, more) = cancel_order_internal b1 linked_id OcoLinked in (b2, events @ more)))"

definition register_oco :: "'d order_book \<Rightarrow> uuid \<Rightarrow> uuid \<Rightarrow> 'd order_book" where
  "register_oco b leg_a leg_b = b\<lparr>oco_links := (oco_links b)(leg_a \<mapsto> leg_b, leg_b \<mapsto> leg_a)\<rparr>"

section \<open>The matching loop\<close>

record 'd match_state =
  ms_book :: "'d order_book"
  ms_taker :: "'d order"
  ms_events :: "'d core_event list"
  ms_last_trade_price :: "'d option"
  ms_had_fills :: bool

text \<open>One pass through the body of the \<open>while\<close>: it breaks, continues or returns.\<close>

datatype 'd loop_step = Break | Continue "'d match_state" | Return "'d match_state"

definition fill_step :: "'d::linordered_idom match_state \<Rightarrow> 'd \<Rightarrow> 'd peeked_maker \<Rightarrow> 'd match_state" where
  "fill_step st price peeked =
     (let taker = ms_taker st;
          fill_qty = min (o_remaining taker) (pk_effective_qty peeked);
          fill_event = Fill \<lparr>f_taker_order_id = o_id taker, f_maker_order_id = pk_id peeked,
                             f_price = price, f_quantity = fill_qty, f_taker_side = o_side taker\<rparr>;
          (b1, maker_fully_filled) =
             apply_fill_to_maker (ms_book st) (opposite (o_side taker)) price fill_qty peeked;
          (b2, oco_events) = (if maker_fully_filled then maybe_cancel_oco b1 (pk_id peeked) else (b1, []))
      in \<lparr>ms_book = b2, ms_taker = taker\<lparr>o_remaining := o_remaining taker - fill_qty\<rparr>,
          ms_events = ms_events st @ [fill_event] @ oco_events,
          ms_last_trade_price = Some price, ms_had_fills = True\<rparr>)"

definition match_step :: "'d::linordered_idom match_state \<Rightarrow> 'd loop_step" where
  "match_step st =
     (let taker = ms_taker st; b = ms_book st
      in if \<not> 0 < o_remaining taker then Break
         else case best_opposite_price b (o_side taker) of
                None \<Rightarrow> Break
              | Some price \<Rightarrow>
                  if \<not> taker_price_satisfied taker price then Break
                  else case peek_front_maker b (opposite (o_side taker)) price of
                         None \<Rightarrow> Continue (st\<lparr>ms_book := remove_level b (opposite (o_side taker)) price\<rparr>)
                       | Some peeked \<Rightarrow>
                           if o_user_id taker = pk_user_id peeked then
                             (case apply_stp b taker price peeked of
                                (b', taker', evs, outcome) \<Rightarrow>
                                  let st' = st\<lparr>ms_book := b', ms_taker := taker', ms_events := ms_events st @ evs\<rparr>
                                  in case outcome of TakerConsumed \<Rightarrow> Return st' | StpContinue \<Rightarrow> Continue st')
                           else Continue (fill_step st price peeked))"

partial_function (option) match_iter :: "'d::linordered_idom match_state \<Rightarrow> (bool \<times> 'd match_state) option" where
  "match_iter st =
     (case match_step st of
        Break \<Rightarrow> Some (False, st)
      | Return st' \<Rightarrow> Some (True, st')
      | Continue st' \<Rightarrow> match_iter st')"

declare match_iter.simps [code]

text \<open>What follows the loop when it ends by its condition or by \<open>break\<close>.\<close>

definition finish_match :: "'d::linordered_idom match_state \<Rightarrow> 'd order_book \<times> 'd core_event list \<times> 'd order list" where
  "finish_match st =
     (let taker = ms_taker st;
          (b1, finalize_events) = finalize_taker (ms_book st) taker (ms_had_fills st);
          taker_terminal = (o_remaining taker = 0 \<or>
             (\<exists>e \<in> set finalize_events. case e of Cancelled _ _ \<Rightarrow> True | _ \<Rightarrow> False));
          (b2, oco_events) = (if taker_terminal then maybe_cancel_oco b1 (o_id taker) else (b1, []));
          (b3, triggered) = trigger_after b2 (ms_last_trade_price st)
      in (b3, ms_events st @ finalize_events @ oco_events, triggered))"

definition initial_match_state :: "'d order_book \<Rightarrow> 'd order \<Rightarrow> 'd match_state" where
  "initial_match_state b taker =
     \<lparr>ms_book = b, ms_taker = taker, ms_events = [], ms_last_trade_price = None, ms_had_fills = False\<rparr>"

definition run_matching_loop ::
  "'d::linordered_idom order_book \<Rightarrow> 'd order \<Rightarrow> ('d order_book \<times> 'd core_event list \<times> 'd order list) option" where
  "run_matching_loop b taker =
     (case match_iter (initial_match_state b taker) of
        None \<Rightarrow> None
      | Some (returned, st) \<Rightarrow>
          Some (if returned
                then (let (b', triggered) = trigger_after (ms_book st) (ms_last_trade_price st)
                      in (b', ms_events st, triggered))
                else finish_match st))"

section \<open>Processing an incoming order\<close>

text \<open>\<open>stop_depth.saturating_add(u8::try_from(len).unwrap_or(u8::MAX))\<close>\<close>

definition saturating_depth :: "nat \<Rightarrow> nat \<Rightarrow> nat" where
  "saturating_depth stop_depth len = min 255 (stop_depth + (if len \<le> 255 then len else 255))"

partial_function (option) work_loop ::
  "'d::linordered_idom order_book \<Rightarrow> 'd order list \<Rightarrow> nat \<Rightarrow> 'd core_event list \<Rightarrow>
     ('d order_book \<times> 'd core_event list) option" where
  "work_loop b work_queue stop_depth all_events =
     (if work_queue = [] then Some (b, all_events)
      else Option.bind (run_matching_loop b (last work_queue))
             (\<lambda>(b', events, triggered).
                if stop_depth < MAX_STOP_CHAIN_DEPTH
                then work_loop b' (butlast work_queue @ triggered)
                       (saturating_depth stop_depth (length triggered))
                       (all_events @ events @ map (StopTriggered \<circ> o_id) triggered)
                else work_loop b' (butlast work_queue) stop_depth (all_events @ events)))"

declare work_loop.simps [code]

definition match_order ::
  "'d::linordered_idom order_book \<Rightarrow> 'd order \<Rightarrow> ('d order_book \<times> 'd core_event list) option" where
  "match_order b taker =
     (case pre_check b taker of
        Some reject \<Rightarrow> Some (b, [reject])
      | None \<Rightarrow>
          if is_stop (o_type taker) then Some (register_stop_order b taker)
          else work_loop b [taker] 0 [])"

end
