(* ===== verification/Book_Invariant.thy ===== *)
theory Book_Invariant
  imports Order_Book
begin

text \<open>
  The structural invariant of the order book and its preservation by the maintenance
  operations: levels sorted and non-empty, every order filed under its own side and price,
  no bid at or above an ask, the index in agreement with the levels, identifiers unique
  across levels and stop registry.
\<close>

section \<open>The invariant\<close>

definition order_ok :: "'d::linordered_idom order \<Rightarrow> bool" where
  "order_ok ord \<longleftrightarrow> 0 < o_remaining ord \<and> (case o_display_qty ord of None \<Rightarrow> True | Some d \<Rightarrow> 0 < d)"

definition level_order_ok :: "side \<Rightarrow> 'd \<Rightarrow> 'd::linordered_idom order \<Rightarrow> bool" where
  "level_order_ok s p ord \<longleftrightarrow> o_side ord = s \<and> o_price ord = Some p \<and> order_ok ord"

definition side_wf :: "side \<Rightarrow> 'd::linordered_idom levels \<Rightarrow> bool" where
  "side_wf s m \<longleftrightarrow> bt_wf m \<and> (\<forall>(p, q) \<in> set m. q \<noteq> [] \<and> (\<forall>ord \<in> set q. level_order_ok s p ord))"

definition uncrossed :: "'d::linorder order_book \<Rightarrow> bool" where
  "uncrossed b \<longleftrightarrow> (\<forall>pb \<in> fst ` set (bids b). \<forall>pa \<in> fst ` set (asks b). pb < pa)"

definition resting :: "'d order_book \<Rightarrow> 'd order list" where
  "resting b = bucket_orders (bids b) @ bucket_orders (asks b)"

definition index_ok :: "'d order_book \<Rightarrow> bool" where
  "index_ok b \<longleftrightarrow> (\<forall>i s p. order_index b i = Some (s, p) \<longleftrightarrow>
     (\<exists>ord \<in> set (resting b). o_id ord = i \<and> o_side ord = s \<and> o_price ord = Some p))"

definition book_ids :: "'d order_book \<Rightarrow> uuid multiset" where
  "book_ids b = image_mset o_id (mset (resting b) + mset (stop_orders (stops b)))"

definition uniq :: "'a multiset \<Rightarrow> bool" where
  "uniq M \<longleftrightarrow> (\<forall>x. count M x \<le> 1)"

definition book_inv :: "'d::linordered_idom order_book \<Rightarrow> bool" where
  "book_inv b \<longleftrightarrow> (\<forall>s. side_wf s (side_levels s b)) \<and> uncrossed b \<and> index_ok b \<and> uniq (book_ids b)
     \<and> stop_wf (stops b) \<and> (\<forall>ord \<in> set (stop_orders (stops b)). order_ok ord)"

lemma uniq_mono: "uniq N \<Longrightarrow> M \<subseteq># N \<Longrightarrow> uniq M"
  by (meson mset_subset_eq_count order_trans uniq_def)

lemma uniq_union_disjoint:
  assumes "uniq (A + B)" and "x \<in># A"
  shows "x \<notin># B"
proof
  assume "x \<in># B"
  with assms(2) have "0 < count A x" "0 < count B x" by simp_all
  moreover have "count A x + count B x \<le> 1" using assms(1) by (simp add: uniq_def)
  ultimately show False by linarith
qed

lemma uniq_add_mset: "uniq (add_mset x M) \<longleftrightarrow> x \<notin># M \<and> uniq M"
proof
  assume h: "uniq (add_mset x M)"
  then have "x \<notin># M" using uniq_union_disjoint [of "{#x#}" M x] by simp
  with h show "x \<notin># M \<and> uniq M" by (auto intro: uniq_mono)
next
  assume "x \<notin># M \<and> uniq M"
  then show "uniq (add_mset x M)" by (auto simp: uniq_def not_in_iff)
qed

text \<open>With unique keys, removing a sub-multiset removes exactly the elements with its keys.\<close>

lemma uniq_diff_iff:
  assumes "uniq (image_mset f M)" and "N \<subseteq># M"
  shows "x \<in># M - N \<longleftrightarrow> x \<in># M \<and> f x \<notin> f ` set_mset N"
proof -
  from assms(2) obtain K where M: "M = K + N" by (metis subset_mset.diff_add)
  with assms(1) have u: "uniq (image_mset f K + image_mset f N)" by simp
  have "f x \<notin> f ` set_mset N" if "x \<in># K"
    using uniq_union_disjoint [OF u, of "f x"] that by auto
  then show ?thesis using M by auto
qed

lemma uniq_image_inj:
  assumes "uniq (image_mset f M)" and "x \<in># M" and "y \<in># M" and "f x = f y"
  shows "x = y"
  using uniq_diff_iff [OF assms(1), of "{#y#}" x] assms(2-4) by (auto simp: in_diff_count split: if_splits)

lemma book_inv_new [simp]: "book_inv book_new"
proof -
  have "side_levels s (book_new :: 'a order_book) = []" for s by (cases s) (simp_all add: book_new_def)
  then show ?thesis
    by (simp add: book_inv_def side_wf_def uncrossed_def index_ok_def uniq_def book_ids_def book_new_def
        resting_def bucket_orders_def stop_wf_def stop_buckets_wf_def stop_new_def stop_orders_def)
qed

section \<open>Reading and writing one side\<close>

lemma side_levels_set [simp]:
  "side_levels s' (set_side_levels s m b) = (if s' = s then m else side_levels s' b)"
  by (cases s; cases s') simp_all

lemma set_side_levels_other [simp]:
  "order_index (set_side_levels s m b) = order_index b"
  "stops (set_side_levels s m b) = stops b"
  "oco_links (set_side_levels s m b) = oco_links b"
  by (cases s; simp)+

lemma side_levels_other [simp]:
  "side_levels s (b\<lparr>order_index := idx\<rparr>) = side_levels s b"
  "side_levels s (b\<lparr>stops := r\<rparr>) = side_levels s b"
  "side_levels s (b\<lparr>oco_links := l\<rparr>) = side_levels s b"
  by (cases s; simp)+

lemma resting_other [simp]:
  "resting (b\<lparr>order_index := idx\<rparr>) = resting b"
  "resting (b\<lparr>stops := r\<rparr>) = resting b"
  "resting (b\<lparr>oco_links := l\<rparr>) = resting b"
  by (simp_all add: resting_def)

lemma unindex_other [simp]:
  "side_levels s (unindex b i) = side_levels s b" "stops (unindex b i) = stops b"
  "oco_links (unindex b i) = oco_links b" "resting (unindex b i) = resting b"
  "order_index (unindex b i) = (order_index b)(i := None)"
  by (simp_all add: unindex_def)

lemma mset_resting:
  "mset (resting b) = mset (bucket_orders (side_levels s b)) + mset (bucket_orders (side_levels (opposite s) b))"
  by (cases s) (simp_all add: resting_def)

lemma set_resting:
  "ord \<in> set (resting b) \<longleftrightarrow> (\<exists>s. ord \<in> set (bucket_orders (side_levels s b)))"
  by (auto simp: resting_def) (metis side_levels.simps side.exhaust)+

text \<open>Replacing the queue at one price; an empty queue removes the level.\<close>

definition replace_level :: "'d \<Rightarrow> 'd order list \<Rightarrow> 'd levels \<Rightarrow> 'd levels" where
  "replace_level p level m =
     (if level = [] then bt_remove p (bt_modify p (\<lambda>_. level) m) else bt_modify p (\<lambda>_. level) m)"

lemma put_level_fields [simp]:
  "side_levels s' (put_level b s p level) =
     (if s' = s then replace_level p level (side_levels s b) else side_levels s' b)"
  "order_index (put_level b s p level) = order_index b"
  "stops (put_level b s p level) = stops b"
  "oco_links (put_level b s p level) = oco_links b"
  by (simp_all add: put_level_def replace_level_def remove_level_def Let_def)

lemma level_split:
  assumes "bt_wf m" and "bt_get m p = Some old"
  obtains m1 m2 where "m = m1 @ (p, old) # m2" and "p \<notin> fst ` set m1" and "p \<notin> fst ` set m2"
proof -
  from assms(2) have "(p, old) \<in> set m" by (rule bt_get_SomeD)
  then obtain m1 m2 where m: "m = m1 @ (p, old) # m2" by (auto dest: split_list)
  with bt_wf_distinct [OF assms(1)] have "p \<notin> fst ` set m1" "p \<notin> fst ` set m2" by auto
  with m that show thesis by blast
qed

lemma bt_modify_absent: "p \<notin> fst ` set m \<Longrightarrow> bt_modify p f m = m"
  by (auto simp: bt_modify_def image_iff intro!: map_idI)

lemma replace_level_split:
  assumes "p \<notin> fst ` set m1" and "p \<notin> fst ` set m2"
  shows "replace_level p level (m1 @ (p, old) # m2) =
           (if level = [] then m1 @ m2 else m1 @ (p, level) # m2)"
proof -
  note absent = assms [THEN bt_modify_absent, of "\<lambda>_. level"] assms [THEN bt_remove_absent]
  have "bt_modify p (\<lambda>_. level) (m1 @ (p, old) # m2) = m1 @ (p, level) # m2"
    using absent(1,2) by (simp add: bt_modify_def)
  moreover have "bt_remove p (m1 @ (p, level) # m2) = m1 @ m2"
    using absent(3,4) by (simp add: bt_remove_def)
  ultimately show ?thesis by (auto simp: replace_level_def)
qed

lemma mset_replace_level:
  assumes "bt_wf m" and "bt_get m p = Some old"
  shows "mset (bucket_orders (replace_level p level m)) + mset old = mset (bucket_orders m) + mset level"
  using assms by (rule level_split) (simp add: replace_level_split bucket_orders_def ac_simps)

lemma fst_replace_level: "fst ` set (replace_level p level m) \<subseteq> fst ` set m"
  by (simp add: replace_level_def)

lemma side_wf_replace_level:
  assumes "side_wf s m" and "bt_get m p = Some old" and "\<forall>ord \<in> set level. level_order_ok s p ord"
  shows "side_wf s (replace_level p level m)"
proof -
  from assms(1) have wf: "bt_wf m" by (simp add: side_wf_def)
  then have "bt_wf (replace_level p level m)" by (simp add: replace_level_def wf_intros)
  moreover from wf assms(2) obtain m1 m2 where m: "m = m1 @ (p, old) # m2"
    "p \<notin> fst ` set m1" "p \<notin> fst ` set m2" by (rule level_split)
  ultimately show ?thesis
    using assms(1,3) by (auto simp: side_wf_def replace_level_split)
qed

lemma resting_put_level:
  assumes "side_wf s (side_levels s b)" and "bt_get (side_levels s b) p = Some old"
  shows "mset (resting (put_level b s p level)) + mset old = mset (resting b) + mset level"
proof -
  have "bt_wf (side_levels s b)" using assms(1) by (simp add: side_wf_def)
  from mset_replace_level [OF this assms(2), of level] show ?thesis
    by (simp add: mset_resting [of _ s])
qed

lemma bt_get_level_orders:
  assumes "bt_get (side_levels s b) p = Some q"
  shows "mset q \<subseteq># mset (resting b)"
proof -
  from bt_get_SomeD [OF assms] obtain m1 m2 where "side_levels s b = m1 @ (p, q) # m2"
    by (auto dest: split_list)
  then have "mset q \<subseteq># mset (bucket_orders (side_levels s b))" by (simp add: bucket_orders_def)
  then show ?thesis by (simp add: mset_resting [of b s] subset_mset.add_increasing2)
qed

lemma side_wf_level:
  assumes "side_wf s m" and "bt_get m p = Some q"
  shows "q \<noteq> []" and "\<forall>ord \<in> set q. level_order_ok s p ord"
  using assms by (auto simp: side_wf_def dest!: bt_get_SomeD)

lemma resting_side_price:
  assumes "book_inv b" and "ord \<in> set (resting b)"
  obtains p where "level_order_ok (o_side ord) p ord" and "o_price ord = Some p"
    and "p \<in> fst ` set (side_levels (o_side ord) b)"
proof -
  from assms(2) obtain s p q where "(p, q) \<in> set (side_levels s b)" "ord \<in> set q"
    by (auto simp: set_resting set_bucket_orders)
  moreover from assms(1) have "side_wf s (side_levels s b)" by (simp add: book_inv_def)
  ultimately have "level_order_ok s p ord" "p \<in> fst ` set (side_levels s b)"
    by (auto simp: side_wf_def intro: rev_image_eqI)
  then show thesis using that by (auto simp: level_order_ok_def)
qed

section \<open>Shrinking a level\<close>

text \<open>
  Every mutation of the matching loop replaces one level by a level whose identifiers are
  among the old ones and drops the lost identifiers from the index.
\<close>

lemma uncrossed_shrink:
  assumes "uncrossed b" and "\<And>s. fst ` set (side_levels s b') \<subseteq> fst ` set (side_levels s b)"
  shows "uncrossed b'"
  using assms(1) assms(2) [of Buy] assms(2) [of Sell] unfolding uncrossed_def side_levels.simps by blast

lemma uniq_resting: "uniq (book_ids b) \<Longrightarrow> uniq (image_mset o_id (mset (resting b)))"
proof -
  have "image_mset o_id (mset (resting b)) \<subseteq># book_ids b"
    unfolding book_ids_def image_mset_union by (rule mset_subset_eq_add_left)
  then show "uniq (book_ids b) \<Longrightarrow> ?thesis" by (rule uniq_mono [rotated])
qed

lemma uniq_resting_id_inj:
  assumes "uniq (book_ids b)" and "x \<in> set (resting b)" and "y \<in> set (resting b)" and "o_id x = o_id y"
  shows "x = y"
  using uniq_image_inj [OF uniq_resting [OF assms(1)]] assms(2-4) by auto

lemma put_level_ids:
  assumes inv: "book_inv b" and get: "bt_get (side_levels s b) p = Some old"
    and ids: "image_mset o_id (mset level) \<subseteq># image_mset o_id (mset old)"
  shows "mset (resting (put_level b s p level)) = (mset (resting b) - mset old) + mset level"
    and "book_ids (put_level b s p level) \<subseteq># book_ids b"
proof -
  have wf: "side_wf s (side_levels s b)" using inv by (simp add: book_inv_def)
  obtain K where K: "mset (resting b) = K + mset old"
    using bt_get_level_orders [OF get] by (metis subset_mset.diff_add)
  with resting_put_level [OF wf get, of level] have rest: "mset (resting (put_level b s p level)) = K + mset level"
    by (simp add: ac_simps)
  with K show "mset (resting (put_level b s p level)) = (mset (resting b) - mset old) + mset level" by simp
  show "book_ids (put_level b s p level) \<subseteq># book_ids b"
    using ids by (simp add: book_ids_def rest K)
qed

lemma put_level_members:
  assumes inv: "book_inv b" and get: "bt_get (side_levels s b) p = Some old"
    and ids: "image_mset o_id (mset level) \<subseteq># image_mset o_id (mset old)"
  shows "ord \<in> set (resting (put_level b s p level)) \<longleftrightarrow>
           (ord \<in> set (resting b) \<and> o_id ord \<notin> o_id ` set old) \<or> ord \<in> set level"
proof -
  have "uniq (image_mset o_id (mset (resting b)))"
    using inv by (auto simp: book_inv_def intro: uniq_resting)
  from uniq_diff_iff [OF this bt_get_level_orders [OF get], of ord]
  have "ord \<in># mset (resting b) - mset old \<longleftrightarrow> ord \<in> set (resting b) \<and> o_id ord \<notin> o_id ` set old"
    by simp
  moreover have "ord \<in> set (resting (put_level b s p level)) \<longleftrightarrow>
      ord \<in># (mset (resting b) - mset old) + mset level"
    by (simp only: put_level_ids(1) [OF assms, symmetric] set_mset_mset)
  ultimately show ?thesis by simp
qed

lemma put_level_index_ok:
  assumes inv: "book_inv b" and get: "bt_get (side_levels s b) p = Some old"
    and level: "\<forall>ord \<in> set level. level_order_ok s p ord"
    and ids: "image_mset o_id (mset level) \<subseteq># image_mset o_id (mset old)"
    and idx: "\<And>i. idx i = (if i \<in> o_id ` set old - o_id ` set level then None else order_index b i)"
  shows "index_ok ((put_level b s p level)\<lparr>order_index := idx\<rparr>)"
  unfolding index_ok_def
proof (intro allI)
  fix i s' and p' :: 'a
  let ?b = "(put_level b s p level)\<lparr>order_index := idx\<rparr>"
  let ?at = "\<lambda>xs :: 'a order list. \<exists>ord \<in> set xs. o_id ord = i \<and> o_side ord = s' \<and> o_price ord = Some p'"
  have base: "order_index b i = Some (s', p') \<longleftrightarrow> ?at (resting b)"
    using inv by (simp add: book_inv_def index_ok_def)
  have uq: "uniq (book_ids b)" and wf: "side_wf s (side_levels s b)" using inv by (auto simp: book_inv_def)
  have sub: "o_id ` set level \<subseteq> o_id ` set old" using mset_subset_eqD [OF ids] by auto
  note mem = put_level_members [OF inv get ids]
  show "order_index ?b i = Some (s', p') \<longleftrightarrow> ?at (resting ?b)"
  proof (cases "i \<in> o_id ` set old")
    case True
    then obtain x where x: "x \<in> set old" "o_id x = i" by auto
    with side_wf_level(2) [OF wf get] have xs: "o_side x = s" "o_price x = Some p" by (auto simp: level_order_ok_def)
    from x(1) have "x \<in> set (resting b)" using set_mset_mono [OF bt_get_level_orders [OF get]] by auto
    with x xs have "?at (resting b) \<longleftrightarrow> s' = s \<and> p' = p"
      using uniq_resting_id_inj [OF uq] by (metis option.inject)
    moreover have "?at (resting ?b) \<longleftrightarrow> ?at level" using True by (auto simp: mem)
    moreover have "?at level \<longleftrightarrow> i \<in> o_id ` set level \<and> s' = s \<and> p' = p"
      using level by (auto simp: level_order_ok_def)
    ultimately show ?thesis using True base by (simp add: idx)
  next
    case False
    with sub have "i \<notin> o_id ` set level" by blast
    with False have "ord \<in> set (resting ?b) \<and> o_id ord = i \<longleftrightarrow> ord \<in> set (resting b) \<and> o_id ord = i" for ord
      by (auto simp: mem)
    then have "?at (resting ?b) \<longleftrightarrow> ?at (resting b)" by blast
    with base False show ?thesis by (simp add: idx)
  qed
qed

lemma book_inv_put_level:
  assumes inv: "book_inv b" and get: "bt_get (side_levels s b) p = Some old"
    and level: "\<forall>ord \<in> set level. level_order_ok s p ord"
    and ids: "image_mset o_id (mset level) \<subseteq># image_mset o_id (mset old)"
    and idx: "\<And>i. idx i = (if i \<in> o_id ` set old - o_id ` set level then None else order_index b i)"
  shows "book_inv ((put_level b s p level)\<lparr>order_index := idx\<rparr>)"
proof -
  let ?b = "(put_level b s p level)\<lparr>order_index := idx\<rparr>"
  have wf: "\<And>s. side_wf s (side_levels s b)" using inv by (simp add: book_inv_def)
  have "side_wf s' (side_levels s' ?b)" for s'
    using side_wf_replace_level [OF wf get level] wf [of s'] by simp
  moreover have "fst ` set (side_levels s' ?b) \<subseteq> fst ` set (side_levels s' b)" for s'
    using fst_replace_level [of p level "side_levels s b"] by simp
  then have "uncrossed ?b" using inv uncrossed_shrink [of b ?b] by (simp add: book_inv_def)
  moreover have "book_ids ?b = book_ids (put_level b s p level)" by (simp add: book_ids_def)
  then have "uniq (book_ids ?b)"
    using inv put_level_ids(2) [OF inv get ids] by (auto simp: book_inv_def intro: uniq_mono)
  ultimately show ?thesis
    using inv put_level_index_ok [OF assms] by (simp add: book_inv_def)
qed

section \<open>The maintenance operations keep the invariant\<close>

lemma book_inv_oco_links [simp]: "book_inv (b\<lparr>oco_links := l\<rparr>) = book_inv b"
  and book_ids_oco_links [simp]: "book_ids (b\<lparr>oco_links := l\<rparr>) = book_ids b"
  by (simp_all add: book_inv_def uncrossed_def index_ok_def book_ids_def)

lemma level_ids_uniq:
  assumes "book_inv b" and "bt_get (side_levels s b) p = Some q"
  shows "uniq (image_mset o_id (mset q))"
proof -
  from assms(1) have "uniq (image_mset o_id (mset (resting b)))"
    by (auto simp: book_inv_def intro: uniq_resting)
  then show ?thesis using image_mset_subseteq_mono [OF bt_get_level_orders [OF assms(2)]] by (rule uniq_mono)
qed

lemma put_level_unindex:
  "put_level (unindex b i) s p level = (put_level b s p level)\<lparr>order_index := (order_index b)(i := None)\<rparr>"
  by (cases s) (simp_all add: put_level_def unindex_def remove_level_def Let_def)

lemma put_level_index_id: "(put_level b s p level)\<lparr>order_index := order_index b\<rparr> = put_level b s p level"
  by (cases s) (simp_all add: put_level_def remove_level_def Let_def)

lemma book_ids_index [simp]: "book_ids (b\<lparr>order_index := idx\<rparr>) = book_ids b"
  by (simp add: book_ids_def)

text \<open>Dropping one order from a level and from the index.\<close>

lemma book_inv_drop_order:
  assumes inv: "book_inv b" and get: "bt_get (side_levels s b) p = Some (xs @ x # ys)"
  shows "book_inv (put_level (unindex b (o_id x)) s p (xs @ ys))"
    and "book_ids (put_level (unindex b (o_id x)) s p (xs @ ys)) \<subseteq># book_ids b"
    and "mset (resting (put_level (unindex b (o_id x)) s p (xs @ ys))) + {#x#} = mset (resting b)"
proof -
  have wf: "side_wf s (side_levels s b)" using inv by (simp add: book_inv_def)
  note ok = side_wf_level(2) [OF wf get]
  from level_ids_uniq [OF inv get] have "o_id x \<notin> o_id ` set (xs @ ys)"
    by (auto simp: uniq_add_mset)
  then have idx: "((order_index b)(o_id x := None)) i =
    (if i \<in> o_id ` set (xs @ x # ys) - o_id ` set (xs @ ys) then None else order_index b i)" for i
    by auto
  have sub: "image_mset o_id (mset (xs @ ys)) \<subseteq># image_mset o_id (mset (xs @ x # ys))" by simp
  show "book_inv (put_level (unindex b (o_id x)) s p (xs @ ys))"
    unfolding put_level_unindex using ok by (intro book_inv_put_level [OF inv get _ sub idx]) auto
  show "book_ids (put_level (unindex b (o_id x)) s p (xs @ ys)) \<subseteq># book_ids b"
    using put_level_ids(2) [OF inv get sub] by (simp add: put_level_unindex)
  show "mset (resting (put_level (unindex b (o_id x)) s p (xs @ ys))) + {#x#} = mset (resting b)"
    using resting_put_level [of s "unindex b (o_id x)" p "xs @ x # ys" "xs @ ys"] wf get by simp
qed

text \<open>Rewriting a level without changing which identifiers it holds.\<close>

lemma book_inv_same_ids:
  assumes inv: "book_inv b" and get: "bt_get (side_levels s b) p = Some old"
    and ok: "\<forall>ord \<in> set level. level_order_ok s p ord"
    and ids: "image_mset o_id (mset level) = image_mset o_id (mset old)"
  shows "book_inv (put_level b s p level)" and "book_ids (put_level b s p level) \<subseteq># book_ids b"
proof -
  from ids have "o_id ` set old = o_id ` set level" by (metis set_image_mset set_mset_mset)
  then have idx: "order_index b i = (if i \<in> o_id ` set old - o_id ` set level then None else order_index b i)" for i
    by auto
  show "book_inv (put_level b s p level)" and "book_ids (put_level b s p level) \<subseteq># book_ids b"
    using book_inv_put_level [OF inv get ok _ idx] put_level_ids(2) [OF inv get, of level] ids
    by (simp_all add: put_level_index_id)
qed

lemma pop_front_maker_inv:
  assumes "book_inv b" and "bt_get (side_levels s b) p = Some (maker # rest)"
  shows "book_inv (pop_front_maker b s p (o_id maker))"
    and "book_ids (pop_front_maker b s p (o_id maker)) \<subseteq># book_ids b"
    and "mset (resting (pop_front_maker b s p (o_id maker))) + {#maker#} = mset (resting b)"
  using book_inv_drop_order [of b s p "[]" maker rest] assms by (simp_all add: pop_front_maker_def)

lemma decrement_front_maker_inv:
  assumes inv: "book_inv b" and get: "bt_get (side_levels s b) p = Some (maker # rest)"
    and qty: "qty < o_remaining maker"
  shows "book_inv (decrement_front_maker b s p qty)"
    and "book_ids (decrement_front_maker b s p qty) \<subseteq># book_ids b"
    and "mset (resting (decrement_front_maker b s p qty)) + {#maker#} =
         mset (resting b) + {#maker\<lparr>o_remaining := o_remaining maker - qty\<rparr>#}"
proof -
  have wf: "side_wf s (side_levels s b)" using inv by (simp add: book_inv_def)
  let ?level = "maker\<lparr>o_remaining := o_remaining maker - qty\<rparr> # rest"
  have eq: "decrement_front_maker b s p qty = put_level b s p ?level"
    using get qty by (simp add: decrement_front_maker_def Let_def)
  have "\<forall>ord \<in> set ?level. level_order_ok s p ord"
    using side_wf_level(2) [OF wf get] qty by (auto simp: level_order_ok_def order_ok_def)
  then show "book_inv (decrement_front_maker b s p qty)"
    and "book_ids (decrement_front_maker b s p qty) \<subseteq># book_ids b"
    using book_inv_same_ids [OF inv get, of ?level] by (simp_all add: eq)
  show "mset (resting (decrement_front_maker b s p qty)) + {#maker#} =
         mset (resting b) + {#maker\<lparr>o_remaining := o_remaining maker - qty\<rparr>#}"
    using resting_put_level [OF wf get, of ?level] by (simp add: eq)
qed

lemma apply_fill_to_maker_inv:
  assumes inv: "book_inv b" and get: "bt_get (side_levels s b) p = Some (maker # rest)"
    and qty: "qty \<le> o_remaining maker" and eq: "apply_fill_to_maker b s p qty pk = (b', fully)"
  shows "book_inv b'" and "book_ids b' \<subseteq># book_ids b" and "fully \<longleftrightarrow> qty = o_remaining maker"
    and "mset (resting b') + {#maker#} = mset (resting b) +
          (if fully then {#} else {#maker\<lparr>o_remaining := o_remaining maker - qty\<rparr>#})"
    and "oco_links b' = oco_links b" and "stops b' = stops b"
proof -
  have wf: "side_wf s (side_levels s b)" using inv by (simp add: book_inv_def)
  note ok = side_wf_level(2) [OF wf get]
  let ?m' = "maker\<lparr>o_remaining := o_remaining maker - qty\<rparr>"
  show fully: "fully \<longleftrightarrow> qty = o_remaining maker"
    using eq get by (auto simp: apply_fill_to_maker_def Let_def)
  show "oco_links b' = oco_links b" and "stops b' = stops b"
    using eq get by (auto simp: apply_fill_to_maker_def Let_def)
  show "book_inv b'" and "book_ids b' \<subseteq># book_ids b" and "mset (resting b') + {#maker#} = mset (resting b) +
          (if fully then {#} else {#?m'#})"
  proof -
    have "book_inv b' \<and> book_ids b' \<subseteq># book_ids b \<and> mset (resting b') + {#maker#} = mset (resting b) +
          (if fully then {#} else {#?m'#})"
    proof (cases "qty = o_remaining maker")
      case True
      then have "b' = put_level (unindex b (o_id maker)) s p rest"
        using eq get by (simp add: apply_fill_to_maker_def Let_def)
      with book_inv_drop_order [of b s p "[]" maker rest] inv get True fully show ?thesis by simp
    next
      case False
      with qty have lt: "qty < o_remaining maker" by simp
      let ?peak = "pk_has_display_qty pk \<and> qty = pk_effective_qty pk"
      let ?level = "if ?peak then rest @ [?m'] else ?m' # rest"
      have b': "b' = put_level b s p ?level"
        using eq get False by (simp add: apply_fill_to_maker_def Let_def)
      have ids: "image_mset o_id (mset ?level) = image_mset o_id (mset (maker # rest))" by simp
      have "\<forall>ord \<in> set ?level. level_order_ok s p ord"
        using ok lt by (auto simp: level_order_ok_def order_ok_def)
      with book_inv_same_ids [OF inv get _ ids] have "book_inv b'" "book_ids b' \<subseteq># book_ids b"
        unfolding b' by blast+
      moreover have "mset ?level = mset rest + {#?m'#}" by simp
      with resting_put_level [OF wf get, of ?level] have "mset (resting b') + {#maker#} = mset (resting b) + {#?m'#}"
        unfolding b' by (simp add: ac_simps)
      ultimately show ?thesis using False fully by simp
    qed
    then show "book_inv b'" and "book_ids b' \<subseteq># book_ids b" and "mset (resting b') + {#maker#} = mset (resting b) +
          (if fully then {#} else {#?m'#})" by blast+
  qed
qed

section \<open>Stops and cancellation\<close>

lemma book_inv_fewer_stops:
  assumes inv: "book_inv b" and "stop_wf r" and sub: "mset (stop_orders r) \<subseteq># mset (stop_orders (stops b))"
  shows "book_inv (b\<lparr>stops := r\<rparr>)" and "book_ids (b\<lparr>stops := r\<rparr>) \<subseteq># book_ids b"
proof -
  show ids: "book_ids (b\<lparr>stops := r\<rparr>) \<subseteq># book_ids b"
    using image_mset_subseteq_mono [OF sub, of o_id] by (simp add: book_ids_def)
  moreover have "set (stop_orders r) \<subseteq> set (stop_orders (stops b))"
    using set_mset_mono [OF sub] by simp
  ultimately show "book_inv (b\<lparr>stops := r\<rparr>)"
    using inv assms(2) by (auto simp: book_inv_def uncrossed_def index_ok_def intro: uniq_mono)
qed

lemma indexed_level:
  assumes inv: "book_inv b" and idx: "order_index b i = Some (s, p)"
  obtains xs x ys where "bt_get (side_levels s b) p = Some (xs @ x # ys)" and "o_id x = i"
    and "\<forall>y \<in> set xs. o_id y \<noteq> i"
proof -
  from inv idx obtain x where x: "x \<in> set (resting b)" "o_id x = i" "o_side x = s" "o_price x = Some p"
    by (auto simp: book_inv_def index_ok_def)
  then obtain s' p' q where q: "(p', q) \<in> set (side_levels s' b)" "x \<in> set q"
    by (auto simp: set_resting set_bucket_orders)
  from inv have wf: "side_wf s' (side_levels s' b)" by (simp add: book_inv_def)
  with q x have "s' = s" "p' = p" by (auto simp: side_wf_def level_order_ok_def)
  with q wf have get: "bt_get (side_levels s b) p = Some q"
    by (simp add: side_wf_def bt_get_Some_iff)
  from q(2) x(2) have "\<exists>y \<in> set q. o_id y = i" by blast
  then obtain xs y ys where "q = xs @ y # ys" "o_id y = i" "\<forall>z \<in> set xs. o_id z \<noteq> i"
    by (rule split_list_first_propE)
  with get that show thesis by blast
qed

lemma position_split:
  "P x \<Longrightarrow> \<forall>y \<in> set xs. \<not> P y \<Longrightarrow> position P (xs @ x # ys) = Some (length xs)"
  by (induction xs) auto

lemma cancel_order_internal_inv:
  assumes inv: "book_inv b" and eq: "cancel_order_internal b i reason = (b', evs)"
  shows "book_inv b'" and "book_ids b' \<subseteq># book_ids b" and "oco_links b' = oco_links b"
    and "evs = (if i \<in># book_ids b then [Cancelled i reason] else [])"
    and "mset (resting b') \<subseteq># mset (resting b)" and "mset (stop_orders (stops b')) \<subseteq># mset (stop_orders (stops b))"
    and "i \<notin># book_ids b'" and "book_ids b' = book_ids b - {#i#}"
proof -
  have wf: "stop_wf (stops b)" and uq: "uniq (book_ids b)" using inv by (auto simp: book_inv_def)
  let ?goal = "book_inv b' \<and> book_ids b' \<subseteq># book_ids b \<and> oco_links b' = oco_links b
    \<and> evs = (if i \<in># book_ids b then [Cancelled i reason] else [])
    \<and> mset (resting b') \<subseteq># mset (resting b) \<and> mset (stop_orders (stops b')) \<subseteq># mset (stop_orders (stops b))
    \<and> i \<notin># book_ids b' \<and> book_ids b' = book_ids b - {#i#}"
  obtain r found where sc: "stop_cancel (stops b) i = (r, found)" by fastforce
  have "?goal"
  proof (cases found)
    case True
    from stop_cancel_True_mset [of "stops b" i r] sc True obtain ord where ord: "o_id ord = i"
      "ord \<in># mset (stop_orders (stops b))" "mset (stop_orders r) = mset (stop_orders (stops b)) - {#ord#}" by auto
    have b': "b' = b\<lparr>stops := r\<rparr>" "evs = [Cancelled i reason]"
      using eq sc True by (auto simp: cancel_order_internal_def)
    from ord(2,3) have "mset (stop_orders (stops b)) = add_mset ord (mset (stop_orders r))"
      by simp
    then have add: "add_mset i (book_ids b') = book_ids b"
      using ord(1) by (simp add: b' book_ids_def)
    have sub: "mset (stop_orders r) \<subseteq># mset (stop_orders (stops b))" using ord(3) by simp
    have "stop_wf r" using stop_cancel_wf [OF wf, of i] sc by simp
    note less = book_inv_fewer_stops [OF inv this sub, folded b'(1)]
    from uq have "uniq (add_mset i (book_ids b'))" unfolding add .
    then have "i \<notin># book_ids b'" by (simp add: uniq_add_mset)
    moreover have "i \<in># book_ids b" "book_ids b' = book_ids b - {#i#}" unfolding add [symmetric] by simp_all
    ultimately show ?thesis using less sub b' by simp
  next
    case False
    then have same: "\<forall>ord \<in> set (stop_orders (stops b)). o_id ord \<noteq> i"
      using stop_cancel_False [of "stops b" i] sc by simp
    show ?thesis
    proof (cases "order_index b i")
      case None
      then have b': "b' = b" "evs = []" using eq sc False by (auto simp: cancel_order_internal_def)
      have "\<forall>ord \<in> set (resting b). o_id ord \<noteq> i"
      proof
        fix ord assume "ord \<in> set (resting b)"
        then show "o_id ord \<noteq> i"
          using inv None resting_side_price [OF inv] by (metis book_inv_def index_ok_def option.distinct(1))
      qed
      with same have "i \<notin># book_ids b" by (auto simp: book_ids_def)
      with b' inv show ?thesis by (simp add: diff_single_trivial)
    next
      case (Some sp)
      obtain s p where sp: "sp = (s, p)" by fastforce
      with Some inv obtain xs x ys where get: "bt_get (side_levels s b) p = Some (xs @ x # ys)"
        and x: "o_id x = i" "\<forall>y \<in> set xs. o_id y \<noteq> i" by (auto elim: indexed_level)
      have pos: "position (\<lambda>ord. o_id ord = i) (xs @ x # ys) = Some (length xs)"
        using x by (rule position_split)
      have b': "b' = put_level (unindex b (o_id x)) s p (xs @ ys)" "evs = [Cancelled i reason]"
        using eq sc False Some sp get pos x(1) by (auto simp: cancel_order_internal_def Let_def remove_at_def)
      note drop = book_inv_drop_order [OF inv get, folded b'(1)]
      have "stops b' = stops b" "oco_links b' = oco_links b" by (simp_all add: b')
      moreover have add: "add_mset i (book_ids b') = book_ids b"
        using x(1) \<open>stops b' = stops b\<close> by (simp add: book_ids_def flip: drop(3))
      moreover from uq have "uniq (add_mset i (book_ids b'))" unfolding add .
      then have "i \<notin># book_ids b'" by (simp add: uniq_add_mset)
      moreover have "i \<in># book_ids b" "book_ids b' = book_ids b - {#i#}" unfolding add [symmetric] by simp_all
      moreover have "mset (resting b') \<subseteq># mset (resting b)" unfolding drop(3) [symmetric] by simp
      ultimately show ?thesis using drop(1,2) b'(2) by simp
    qed
  qed
  then show "book_inv b'" and "book_ids b' \<subseteq># book_ids b" and "oco_links b' = oco_links b"
    and "evs = (if i \<in># book_ids b then [Cancelled i reason] else [])"
    and "mset (resting b') \<subseteq># mset (resting b)" and "mset (stop_orders (stops b')) \<subseteq># mset (stop_orders (stops b))"
    and "i \<notin># book_ids b'" and "book_ids b' = book_ids b - {#i#}" by blast+
qed

end
