(* ===== verification/Matching.thy ===== *)
theory Matching
  imports Book_Invariant
begin

text \<open>
  The matching loop as a transition system: the step relation \<open>match_trans\<close> states the three
  ways one pass of the loop continues (a trade with the front order of the best opposite
  level, and the two self-trade preventions that remove the maker), and the loop is shown to
  run exactly these steps. The book invariant is an invariant of the relation; a rank that
  counts the display slices left shows that the loop ends.
\<close>

section \<open>Transition systems\<close>

text \<open>
  The interface between a step relation and its clients: an invariant every step keeps and,
  for ranked systems, a natural number every step decreases.
\<close>

locale invariant_system =
  fixes step :: "'s \<Rightarrow> 's \<Rightarrow> bool" and inv :: "'s \<Rightarrow> bool"
  assumes inv_step: "inv s \<Longrightarrow> step s t \<Longrightarrow> inv t"
begin

lemma inv_steps: "step\<^sup>*\<^sup>* s t \<Longrightarrow> inv s \<Longrightarrow> inv t"
  by (induction rule: rtranclp_induct) (auto intro: inv_step)

text \<open>A second property may be proved along the steps with the invariant at hand.\<close>

lemma steps_induct_with_inv:
  assumes "step\<^sup>*\<^sup>* s t" and "inv s" and "P s"
    and "\<And>u v. inv u \<Longrightarrow> step u v \<Longrightarrow> P u \<Longrightarrow> P v"
  shows "P t"
  using assms(1)
proof (induction rule: rtranclp_induct)
  case base
  show ?case by (rule assms(3))
next
  case (step u v)
  from inv_steps [OF step.hyps(1) assms(2)] step.hyps(2) step.IH show ?case by (rule assms(4))
qed

end

locale ranked_system = invariant_system +
  fixes rank :: "'s \<Rightarrow> nat"
  assumes rank_step: "inv s \<Longrightarrow> step s t \<Longrightarrow> rank t < rank s"
begin

lemma reaches_end:
  assumes "inv s"
  obtains t where "step\<^sup>*\<^sup>* s t" and "\<nexists>u. step t u"
proof -
  have "\<exists>t. step\<^sup>*\<^sup>* s t \<and> (\<nexists>u. step t u)"
    using assms
  proof (induction s rule: measure_induct_rule [of rank])
    case (less s)
    show ?case
    proof (cases "\<exists>u. step s u")
      case True
      then obtain u where u: "step s u" by blast
      with less obtain t where "step\<^sup>*\<^sup>* u t" "\<nexists>v. step t v"
        using rank_step inv_step by blast
      with u show ?thesis by (meson converse_rtranclp_into_rtranclp)
    qed blast
  qed
  then show thesis using that by blast
qed

end

section \<open>The step relation of the loop\<close>

definition visible_qty :: "'d::linorder order \<Rightarrow> 'd" where
  "visible_qty maker =
     (case o_display_qty maker of None \<Rightarrow> o_remaining maker | Some d \<Rightarrow> min d (o_remaining maker))"

definition peeked_of :: "'d::linorder order \<Rightarrow> 'd peeked_maker" where
  "peeked_of maker =
     \<lparr>pk_id = o_id maker, pk_user_id = o_user_id maker, pk_effective_qty = visible_qty maker,
      pk_remaining = o_remaining maker, pk_has_display_qty = (o_display_qty maker \<noteq> None)\<rparr>"

lemma peek_front_maker_Some [simp]:
  "bt_get (side_levels s b) p = Some (maker # rest) \<Longrightarrow> peek_front_maker b s p = Some (peeked_of maker)"
  by (simp add: peek_front_maker_def peeked_of_def visible_qty_def)

lemma peeked_of_fields [simp]:
  "pk_id (peeked_of m) = o_id m" "pk_user_id (peeked_of m) = o_user_id m"
  "pk_effective_qty (peeked_of m) = visible_qty m" "pk_remaining (peeked_of m) = o_remaining m"
  "pk_has_display_qty (peeked_of m) = (o_display_qty m \<noteq> None)"
  by (simp_all add: peeked_of_def)

text \<open>The maker the loop looks at: the front of the best opposite level, at an acceptable price.\<close>

definition candidate :: "'d::linordered_idom match_state \<Rightarrow> 'd \<Rightarrow> 'd order \<Rightarrow> 'd order list \<Rightarrow> bool" where
  "candidate st p maker rest \<longleftrightarrow>
     0 < o_remaining (ms_taker st)
     \<and> best_opposite_price (ms_book st) (o_side (ms_taker st)) = Some p
     \<and> taker_price_satisfied (ms_taker st) p
     \<and> bt_get (side_levels (opposite (o_side (ms_taker st))) (ms_book st)) p = Some (maker # rest)"

definition stp_pop_step :: "'d::linordered_idom match_state \<Rightarrow> 'd \<Rightarrow> 'd order \<Rightarrow> 'd \<Rightarrow> 'd match_state" where
  "stp_pop_step st p maker rem =
     st\<lparr>ms_book := pop_front_maker (ms_book st) (opposite (o_side (ms_taker st))) p (o_id maker),
        ms_taker := (ms_taker st)\<lparr>o_remaining := rem\<rparr>,
        ms_events := ms_events st @ [Cancelled (o_id maker) SelfTradePrevented]\<rparr>"

inductive match_trans :: "'d::linordered_idom match_state \<Rightarrow> 'd match_state \<Rightarrow> bool" where
  trade:
    "candidate st p maker rest \<Longrightarrow> o_user_id (ms_taker st) \<noteq> o_user_id maker \<Longrightarrow>
       match_trans st (fill_step st p (peeked_of maker))"
| stp_cancel_maker:
    "candidate st p maker rest \<Longrightarrow> o_user_id (ms_taker st) = o_user_id maker \<Longrightarrow>
       o_stp_mode (ms_taker st) = CancelMaker \<Longrightarrow>
       match_trans st (stp_pop_step st p maker (o_remaining (ms_taker st)))"
| stp_decrement_maker:
    "candidate st p maker rest \<Longrightarrow> o_user_id (ms_taker st) = o_user_id maker \<Longrightarrow>
       o_stp_mode (ms_taker st) = Decrement \<Longrightarrow> o_remaining maker < o_remaining (ms_taker st) \<Longrightarrow>
       match_trans st (stp_pop_step st p maker (o_remaining (ms_taker st) - o_remaining maker))"

inductive_cases match_transE [consumes 1, case_names trade cancel_maker decrement_maker]: "match_trans st st'"

lemma best_opposite_mem:
  assumes "book_inv b" and "best_opposite_price b s = Some p"
  obtains maker rest where "bt_get (side_levels (opposite s) b) p = Some (maker # rest)"
proof -
  have wf: "side_wf (opposite s) (side_levels (opposite s) b)" using assms(1) by (simp add: book_inv_def)
  have "p \<in> fst ` set (side_levels (opposite s) b)"
    using assms(2) by (cases s) (auto dest: bt_first_mem bt_last_mem)
  then obtain q where q: "bt_get (side_levels (opposite s) b) p = Some q"
    using bt_get_None_iff [of "side_levels (opposite s) b" p] by fastforce
  with side_wf_level(1) [OF wf q] that show thesis by (cases q) auto
qed

text \<open>Why the loop stops without a return: nothing wanted, nothing offered, or not at this price.\<close>

definition loop_exhausted :: "'d::linordered_idom match_state \<Rightarrow> bool" where
  "loop_exhausted st \<longleftrightarrow> \<not> 0 < o_remaining (ms_taker st) \<or>
     (case best_opposite_price (ms_book st) (o_side (ms_taker st)) of
        None \<Rightarrow> True | Some p \<Rightarrow> \<not> taker_price_satisfied (ms_taker st) p)"

lemma match_step_Break:
  "book_inv (ms_book st) \<Longrightarrow> match_step st = Break \<longleftrightarrow> loop_exhausted st"
  by (auto simp: match_step_def loop_exhausted_def Let_def apply_stp_def apply_stp_decrement_def
      split: option.splits stp_mode.splits elim: best_opposite_mem)

lemma candidate_or_exhausted:
  assumes "book_inv (ms_book st)"
  obtains "loop_exhausted st" | p maker rest where "candidate st p maker rest"
proof (cases "loop_exhausted st")
  case False
  then obtain p where "best_opposite_price (ms_book st) (o_side (ms_taker st)) = Some p"
    "0 < o_remaining (ms_taker st)" "taker_price_satisfied (ms_taker st) p"
    by (auto simp: loop_exhausted_def split: option.splits)
  with assms that(2) show thesis by (auto simp: candidate_def elim: best_opposite_mem)
qed (use that in blast)

lemma match_step_candidate:
  assumes "candidate st p maker rest"
  shows "match_step st =
    (if o_user_id (ms_taker st) = o_user_id maker then
       (case apply_stp (ms_book st) (ms_taker st) p (peeked_of maker) of
          (b', taker', evs, outcome) \<Rightarrow>
            (let st' = st\<lparr>ms_book := b', ms_taker := taker', ms_events := ms_events st @ evs\<rparr>
             in case outcome of TakerConsumed \<Rightarrow> Return st' | StpContinue \<Rightarrow> Continue st'))
     else Continue (fill_step st p (peeked_of maker)))"
  using assms by (simp add: match_step_def candidate_def Let_def)

lemma stp_pop_step_same:
  "stp_pop_step st p maker (o_remaining (ms_taker st)) =
     st\<lparr>ms_book := pop_front_maker (ms_book st) (opposite (o_side (ms_taker st))) p (o_id maker),
        ms_events := ms_events st @ [Cancelled (o_id maker) SelfTradePrevented]\<rparr>"
proof -
  have "(ms_taker st)\<lparr>o_remaining := o_remaining (ms_taker st)\<rparr> = ms_taker st" by simp
  then show ?thesis unfolding stp_pop_step_def by (cases st) simp
qed

lemma match_step_refines:
  assumes "book_inv (ms_book st)"
  shows "match_step st = Continue st' \<longleftrightarrow> match_trans st st'"
proof
  assume cont: "match_step st = Continue st'"
  with assms have "\<not> loop_exhausted st" using match_step_Break by fastforce
  with assms obtain p maker rest where c: "candidate st p maker rest" by (auto elim: candidate_or_exhausted)
  show "match_trans st st'"
  proof (cases "o_user_id (ms_taker st) = o_user_id maker")
    case False
    with cont c show ?thesis by (auto simp: match_step_candidate intro: match_trans.trade)
  next
    case same: True
    show ?thesis
    proof (cases "o_stp_mode (ms_taker st)")
      case Decrement
      with same cont c have lt: "o_remaining maker < o_remaining (ms_taker st)"
        and st': "st' = stp_pop_step st p maker (o_remaining (ms_taker st) - o_remaining maker)"
        by (auto simp: match_step_candidate apply_stp_def apply_stp_decrement_def stp_pop_step_def Let_def split: if_splits)
      show ?thesis unfolding st' using c same Decrement lt by (rule match_trans.stp_decrement_maker)
    next
      case CancelMaker
      with same cont c have st': "st' = stp_pop_step st p maker (o_remaining (ms_taker st))"
        by (auto simp: match_step_candidate apply_stp_def stp_pop_step_same Let_def)
      show ?thesis unfolding st' using c same CancelMaker by (rule match_trans.stp_cancel_maker)
    next
      case CancelTaker
      with same cont c show ?thesis by (auto simp: match_step_candidate apply_stp_def Let_def)
    qed
  qed
next
  assume "match_trans st st'"
  then show "match_step st = Continue st'"
    by (elim match_transE)
      (auto simp: match_step_candidate apply_stp_def apply_stp_decrement_def stp_pop_step_same
        stp_pop_step_def [of _ _ _ "_ - _"] Let_def)
qed

lemma match_step_Return:
  assumes "book_inv (ms_book st)" and "match_step st = Return st'"
  obtains p maker rest b' taker' evs where "candidate st p maker rest"
    and "o_user_id (ms_taker st) = o_user_id maker"
    and "apply_stp (ms_book st) (ms_taker st) p (peeked_of maker) = (b', taker', evs, TakerConsumed)"
    and "st' = st\<lparr>ms_book := b', ms_taker := taker', ms_events := ms_events st @ evs\<rparr>"
proof -
  from assms have "\<not> loop_exhausted st" using match_step_Break by fastforce
  with assms(1) obtain p maker rest where c: "candidate st p maker rest" by (auto elim: candidate_or_exhausted)
  from assms(2) show thesis
    using that [OF c] by (auto simp: match_step_candidate [OF c] Let_def split: if_splits prod.splits stp_outcome.splits)
qed

section \<open>The loop runs the relation\<close>

lemma match_iter_steps:
  assumes "match_iter st = Some (r, st')"
    and step: "\<And>s t. I s \<Longrightarrow> match_step s = Continue t \<Longrightarrow> I t \<and> R s t" and "I st"
  shows "\<exists>s. R\<^sup>*\<^sup>* st s \<and> I s \<and> (if r then match_step s = Return st' else s = st' \<and> match_step st' = Break)"
proof -
  let ?P = "\<lambda>st rst. I st \<longrightarrow> (\<exists>s. R\<^sup>*\<^sup>* st s \<and> I s \<and>
    (if fst rst then match_step s = Return (snd rst) else s = snd rst \<and> match_step (snd rst) = Break))"
  have "?P st (r, st')"
  proof (rule match_iter.raw_induct [where P = ?P, OF _ assms(1)])
    fix f st rst
    assume IH: "\<And>st rst. f st = Some rst \<Longrightarrow> ?P st rst"
      and eq: "(case match_step st of Break \<Rightarrow> Some (False, st) | Continue st' \<Rightarrow> f st' | Return st' \<Rightarrow> Some (True, st')) = Some rst"
    show "?P st rst"
    proof (cases "match_step st")
      case (Continue t)
      with eq have "f t = Some rst" by simp
      from IH [OF this] show ?thesis using step [of st t] Continue by (meson converse_rtranclp_into_rtranclp)
    qed (use eq in auto)
  qed
  with assms(3) show ?thesis by (cases r) auto
qed

lemma match_iter_of_steps:
  assumes "match_trans\<^sup>*\<^sup>* st s" and "\<And>u. match_trans\<^sup>*\<^sup>* st u \<Longrightarrow> book_inv (ms_book u)"
  shows "match_iter st = match_iter s"
  using assms
proof (induction rule: rtranclp_induct)
  case (step u v)
  then have "match_step u = Continue v" using match_step_refines by blast
  with step show ?case using match_iter.simps [of u] by simp
qed simp

section \<open>The loop invariant\<close>

definition display_ok :: "'d::linordered_idom order \<Rightarrow> bool" where
  "display_ok ord \<longleftrightarrow> (case o_display_qty ord of None \<Rightarrow> True | Some d \<Rightarrow> 0 < d)"

definition loop_inv :: "'d::linordered_idom match_state \<Rightarrow> bool" where
  "loop_inv st \<longleftrightarrow> book_inv (ms_book st) \<and> 0 \<le> o_remaining (ms_taker st) \<and> display_ok (ms_taker st)
     \<and> o_id (ms_taker st) \<notin># book_ids (ms_book st)"

lemma order_ok_alt: "order_ok ord \<longleftrightarrow> 0 < o_remaining ord \<and> display_ok ord"
  by (simp add: order_ok_def display_ok_def)

lemma visible_qty_bounds:
  assumes "order_ok maker"
  shows "0 < visible_qty maker" and "visible_qty maker \<le> o_remaining maker"
  using assms by (auto simp: visible_qty_def order_ok_def split: option.splits)

lemma maybe_cancel_oco_inv:
  assumes "book_inv b" and "maybe_cancel_oco b i = (b', evs)"
  shows "book_inv b'" and "book_ids b' \<subseteq># book_ids b" and "fills_of evs = []"
    and "mset (resting b') \<subseteq># mset (resting b)" and "mset (stop_orders (stops b')) \<subseteq># mset (stop_orders (stops b))"
    and "oco_links b i = None \<Longrightarrow> b' = b \<and> evs = []"
proof -
  have "book_inv b' \<and> book_ids b' \<subseteq># book_ids b \<and> fills_of evs = [] \<and> mset (resting b') \<subseteq># mset (resting b)
    \<and> mset (stop_orders (stops b')) \<subseteq># mset (stop_orders (stops b))"
  proof (cases "oco_links b i")
    case None
    with assms show ?thesis by (simp add: maybe_cancel_oco_def)
  next
    case (Some j)
    let ?b = "b\<lparr>oco_links := ((oco_links b)(i := None))(j := None)\<rparr>"
    from Some assms(2) have "cancel_order_internal ?b j OcoLinked = (b', evs)" by (simp add: maybe_cancel_oco_def)
    from cancel_order_internal_inv [OF _ this] assms(1) show ?thesis by simp
  qed
  then show "book_inv b'" and "book_ids b' \<subseteq># book_ids b" and "fills_of evs = []"
    and "mset (resting b') \<subseteq># mset (resting b)" and "mset (stop_orders (stops b')) \<subseteq># mset (stop_orders (stops b))"
    by blast+
  show "oco_links b i = None \<Longrightarrow> b' = b \<and> evs = []" using assms(2) by (simp add: maybe_cancel_oco_def)
qed

lemma candidate_maker_ok:
  assumes "book_inv (ms_book st)" and "candidate st p maker rest"
  shows "order_ok maker" and "o_side maker = opposite (o_side (ms_taker st))" and "o_price maker = Some p"
    and "maker \<in> set (resting (ms_book st))"
proof -
  let ?s = "opposite (o_side (ms_taker st))"
  from assms(1) have wf: "side_wf ?s (side_levels ?s (ms_book st))" by (simp add: book_inv_def)
  from assms(2) have get: "bt_get (side_levels ?s (ms_book st)) p = Some (maker # rest)"
    by (simp add: candidate_def)
  from side_wf_level(2) [OF wf get] show "order_ok maker" "o_side maker = ?s" "o_price maker = Some p"
    by (auto simp: level_order_ok_def)
  show "maker \<in> set (resting (ms_book st))"
    using set_mset_mono [OF bt_get_level_orders [OF get]] by auto
qed

text \<open>Everything a trade does, in one place: the quantity, the book after the fill, the OCO cancel.\<close>

definition trade_qty :: "'d::linordered_idom match_state \<Rightarrow> 'd order \<Rightarrow> 'd" where
  "trade_qty st maker = min (o_remaining (ms_taker st)) (visible_qty maker)"

definition filled_book :: "'d::linordered_idom match_state \<Rightarrow> 'd \<Rightarrow> 'd order \<Rightarrow> 'd order_book" where
  "filled_book st p maker =
     fst (apply_fill_to_maker (ms_book st) (opposite (o_side (ms_taker st))) p (trade_qty st maker) (peeked_of maker))"

definition oco_after_fill ::
  "'d::linordered_idom match_state \<Rightarrow> 'd \<Rightarrow> 'd order \<Rightarrow> 'd order_book \<times> 'd core_event list" where
  "oco_after_fill st p maker =
     (if trade_qty st maker = o_remaining maker then maybe_cancel_oco (filled_book st p maker) (o_id maker)
      else (filled_book st p maker, []))"

definition trade_fill :: "'d::linordered_idom match_state \<Rightarrow> 'd \<Rightarrow> 'd order \<Rightarrow> 'd fill" where
  "trade_fill st p maker =
     \<lparr>f_taker_order_id = o_id (ms_taker st), f_maker_order_id = o_id maker, f_price = p,
      f_quantity = trade_qty st maker, f_taker_side = o_side (ms_taker st)\<rparr>"

lemma trade_qty_bounds:
  assumes "book_inv (ms_book st)" and "candidate st p maker rest"
  shows "0 < trade_qty st maker" and "trade_qty st maker \<le> o_remaining maker"
    and "trade_qty st maker \<le> o_remaining (ms_taker st)" and "trade_qty st maker \<le> visible_qty maker"
  using visible_qty_bounds [OF candidate_maker_ok(1) [OF assms]] assms(2)
  by (auto simp: trade_qty_def candidate_def min.coboundedI2)

lemma filled_book_effect:
  assumes inv: "book_inv (ms_book st)" and c: "candidate st p maker rest"
  shows "book_inv (filled_book st p maker)" and "book_ids (filled_book st p maker) \<subseteq># book_ids (ms_book st)"
    and "snd (apply_fill_to_maker (ms_book st) (opposite (o_side (ms_taker st))) p (trade_qty st maker) (peeked_of maker))
          \<longleftrightarrow> trade_qty st maker = o_remaining maker"
    and "mset (resting (filled_book st p maker)) + {#maker#} = mset (resting (ms_book st)) +
       (if trade_qty st maker = o_remaining maker then {#}
        else {#maker\<lparr>o_remaining := o_remaining maker - trade_qty st maker\<rparr>#})"
    and "oco_links (filled_book st p maker) = oco_links (ms_book st)"
    and "stops (filled_book st p maker) = stops (ms_book st)"
proof -
  have get: "bt_get (side_levels (opposite (o_side (ms_taker st))) (ms_book st)) p = Some (maker # rest)"
    using c by (simp add: candidate_def)
  obtain b1 fully where eq: "apply_fill_to_maker (ms_book st) (opposite (o_side (ms_taker st))) p (trade_qty st maker)
      (peeked_of maker) = (b1, fully)" by (cases "apply_fill_to_maker (ms_book st) (opposite (o_side (ms_taker st))) p
      (trade_qty st maker) (peeked_of maker)")
  note fill = apply_fill_to_maker_inv [OF inv get trade_qty_bounds(2) [OF inv c] eq]
  have b1: "filled_book st p maker = b1" by (simp add: filled_book_def eq)
  show "snd (apply_fill_to_maker (ms_book st) (opposite (o_side (ms_taker st))) p (trade_qty st maker) (peeked_of maker))
          \<longleftrightarrow> trade_qty st maker = o_remaining maker" using fill(3) by (simp add: eq)
  show "book_inv (filled_book st p maker)" unfolding b1 by (rule fill(1))
  show "book_ids (filled_book st p maker) \<subseteq># book_ids (ms_book st)" unfolding b1 by (rule fill(2))
  show "mset (resting (filled_book st p maker)) + {#maker#} = mset (resting (ms_book st)) +
       (if trade_qty st maker = o_remaining maker then {#}
        else {#maker\<lparr>o_remaining := o_remaining maker - trade_qty st maker\<rparr>#})"
    unfolding b1 using fill(4) by (simp add: fill(3))
  show "oco_links (filled_book st p maker) = oco_links (ms_book st)" unfolding b1 by (rule fill(5))
  show "stops (filled_book st p maker) = stops (ms_book st)" unfolding b1 by (rule fill(6))
qed

lemma oco_after_fill_effect:
  assumes inv: "book_inv (ms_book st)" and c: "candidate st p maker rest"
  defines "b1 \<equiv> filled_book st p maker" and "b2 \<equiv> fst (oco_after_fill st p maker)"
  shows "book_inv b2" and "book_ids b2 \<subseteq># book_ids b1" and "fills_of (snd (oco_after_fill st p maker)) = []"
    and "mset (resting b2) \<subseteq># mset (resting b1)" and "mset (stop_orders (stops b2)) \<subseteq># mset (stop_orders (stops b1))"
    and "oco_links (ms_book st) (o_id maker) = None \<Longrightarrow> b2 = b1 \<and> snd (oco_after_fill st p maker) = []"
  using maybe_cancel_oco_inv [OF filled_book_effect(1) [OF inv c] prod.collapse [symmetric], of "o_id maker"]
    filled_book_effect(1,5) [OF inv c]
  by (auto simp: b1_def b2_def oco_after_fill_def)

lemma fill_step_eq:
  assumes inv: "book_inv (ms_book st)" and c: "candidate st p maker rest"
  shows "fill_step st p (peeked_of maker) =
    \<lparr>ms_book = fst (oco_after_fill st p maker),
     ms_taker = (ms_taker st)\<lparr>o_remaining := o_remaining (ms_taker st) - trade_qty st maker\<rparr>,
     ms_events = ms_events st @ [Fill (trade_fill st p maker)] @ snd (oco_after_fill st p maker),
     ms_last_trade_price = Some p, ms_had_fills = True\<rparr>"
  using filled_book_effect(3) [OF inv c]
  by (auto simp: fill_step_def Let_def trade_fill_def oco_after_fill_def filled_book_def trade_qty_def
      split: prod.splits)

lemma stp_pop_step_effect:
  assumes inv: "book_inv (ms_book st)" and c: "candidate st p maker rest" and st': "st' = stp_pop_step st p maker rem"
  shows "book_inv (ms_book st')" and "book_ids (ms_book st') \<subseteq># book_ids (ms_book st)"
    and "mset (resting (ms_book st')) + {#maker#} = mset (resting (ms_book st))"
    and "stops (ms_book st') = stops (ms_book st)" and "oco_links (ms_book st') = oco_links (ms_book st)"
    and "fills_of (ms_events st') = fills_of (ms_events st)" and "ms_taker st' = (ms_taker st)\<lparr>o_remaining := rem\<rparr>"
proof -
  have get: "bt_get (side_levels (opposite (o_side (ms_taker st))) (ms_book st)) p = Some (maker # rest)"
    using c by (simp add: candidate_def)
  note pop = pop_front_maker_inv [OF inv get]
  show "book_inv (ms_book st')" "book_ids (ms_book st') \<subseteq># book_ids (ms_book st)"
    "mset (resting (ms_book st')) + {#maker#} = mset (resting (ms_book st))"
    using pop by (simp_all add: st' stp_pop_step_def)
  show "stops (ms_book st') = stops (ms_book st)" "oco_links (ms_book st') = oco_links (ms_book st)"
    using get by (simp_all add: st' stp_pop_step_def pop_front_maker_def)
  show "fills_of (ms_events st') = fills_of (ms_events st)" "ms_taker st' = (ms_taker st)\<lparr>o_remaining := rem\<rparr>"
    by (simp_all add: st' stp_pop_step_def)
qed

lemma match_trans_book:
  assumes "book_inv (ms_book st)" and "match_trans st st'"
  shows "book_inv (ms_book st') \<and> book_ids (ms_book st') \<subseteq># book_ids (ms_book st)
    \<and> (\<exists>r. ms_taker st' = (ms_taker st)\<lparr>o_remaining := r\<rparr> \<and> 0 \<le> r \<and> r \<le> o_remaining (ms_taker st))"
  using assms(2)
proof (cases rule: match_transE)
  case (trade p maker rest)
  note eff = trade_qty_bounds [OF assms(1) trade(2)] filled_book_effect(2) [OF assms(1) trade(2)]
    oco_after_fill_effect(1,2) [OF assms(1) trade(2)]
  show ?thesis
    using eff unfolding trade(1) fill_step_eq [OF assms(1) trade(2)]
    by (intro conjI exI [of _ "o_remaining (ms_taker st) - trade_qty st maker"])
      (auto intro: subset_mset.order_trans)
next
  case (cancel_maker p maker rest)
  from stp_pop_step_effect [OF assms(1) cancel_maker(2,1)] cancel_maker(2) show ?thesis
    by (intro conjI exI [of _ "o_remaining (ms_taker st)"]) (auto simp: candidate_def)
next
  case (decrement_maker p maker rest)
  from candidate_maker_ok(1) [OF assms(1) decrement_maker(2)] have "0 < o_remaining maker" by (simp add: order_ok_def)
  with stp_pop_step_effect [OF assms(1) decrement_maker(2,1)] decrement_maker(5) show ?thesis
    by (intro conjI exI [of _ "o_remaining (ms_taker st) - o_remaining maker"]) auto
qed

lemma loop_inv_step: "loop_inv st \<Longrightarrow> match_trans st st' \<Longrightarrow> loop_inv st'"
  using match_trans_book [of st st'] by (auto simp: loop_inv_def display_ok_def dest: mset_subset_eqD)

interpretation loop: invariant_system match_trans loop_inv
  by unfold_locales (rule loop_inv_step)

text \<open>A completed run is a path of the relation followed by an exhausted state or a self-trade return.\<close>

lemma match_iter_path:
  assumes "match_iter st = Some (r, st')" and "loop_inv st"
  obtains s where "match_trans\<^sup>*\<^sup>* st s" and "loop_inv s"
    and "if r then match_step s = Return st' else s = st' \<and> loop_exhausted st'"
proof -
  have "\<exists>s. match_trans\<^sup>*\<^sup>* st s \<and> loop_inv s \<and> (if r then match_step s = Return st' else s = st' \<and> match_step st' = Break)"
    using assms by (intro match_iter_steps) (auto simp: match_step_refines loop_inv_def [THEN iffD1] intro: loop_inv_step,
        (auto simp: loop_inv_def match_step_refines)?)
  then show thesis using that by (auto simp: loop_inv_def match_step_Break split: if_splits)
qed

section \<open>Termination\<close>

text \<open>
  The number of trades a resting order can still take part in: one for an ordinary order, one
  per display slice for an iceberg. Archimedean arithmetic makes this number finite.
\<close>

definition slices :: "'d::floor_ceiling order \<Rightarrow> nat" where
  "slices ord = (case o_display_qty ord of None \<Rightarrow> 1 | Some d \<Rightarrow> nat \<lceil>o_remaining ord / d\<rceil>)"

definition loop_rank :: "'d::floor_ceiling match_state \<Rightarrow> nat" where
  "loop_rank st = sum_mset (image_mset slices (mset (resting (ms_book st)))) +
     (if 0 < o_remaining (ms_taker st) then 1 else 0)"

lemma slices_pos: "order_ok ord \<Longrightarrow> 0 < slices ord"
  by (auto simp: slices_def order_ok_def split: option.splits)

lemma slices_mono:
  assumes "order_ok ord" and "0 \<le> q"
  shows "slices (ord\<lparr>o_remaining := o_remaining ord - q\<rparr>) \<le> slices ord"
  using assms
  by (auto simp: slices_def order_ok_def divide_right_mono split: option.splits intro!: nat_mono ceiling_mono)

lemma slices_consume:
  assumes "order_ok ord" and "visible_qty ord \<noteq> o_remaining ord"
  shows "slices (ord\<lparr>o_remaining := o_remaining ord - visible_qty ord\<rparr>) < slices ord"
proof -
  from assms(2) obtain d where d: "o_display_qty ord = Some d" "d < o_remaining ord" "visible_qty ord = d"
    by (auto simp: visible_qty_def min_def split: option.splits if_splits)
  with assms(1) have "0 < d" by (simp add: order_ok_def)
  then have "(o_remaining ord - d) / d = o_remaining ord / d - 1" by (simp add: diff_divide_distrib)
  then have "\<lceil>(o_remaining ord - d) / d\<rceil> = \<lceil>o_remaining ord / d\<rceil> - 1" by (metis ceiling_diff_one)
  moreover have "0 < \<lceil>o_remaining ord / d\<rceil>" using \<open>0 < d\<close> d(2) by simp
  ultimately show ?thesis using d by (simp add: slices_def)
qed

lemma sum_slices_mono:
  "M \<subseteq># N \<Longrightarrow> sum_mset (image_mset slices M) \<le> sum_mset (image_mset slices N)"
  by (metis image_mset_union le_add1 subset_mset.le_iff_add sum_mset.union)

lemma loop_rank_step:
  assumes "loop_inv st" and "match_trans st st'"
  shows "loop_rank st' < loop_rank st"
proof -
  have inv: "book_inv (ms_book st)" using assms(1) by (simp add: loop_inv_def)
  let ?S = "\<lambda>b. sum_mset (image_mset slices (mset (resting b)))"
  from assms(2) show ?thesis
  proof (cases rule: match_transE)
    case (trade p maker rest)
    let ?q = "trade_qty st maker"
    let ?m = "maker\<lparr>o_remaining := o_remaining maker - ?q\<rparr>"
    let ?b1 = "filled_book st p maker"
    note ok = candidate_maker_ok(1) [OF inv trade(2)]
    note q = trade_qty_bounds(1) [OF inv trade(2)]
    have taker: "o_remaining (ms_taker st') = o_remaining (ms_taker st) - ?q"
      and book: "ms_book st' = fst (oco_after_fill st p maker)"
      by (simp_all add: trade(1) fill_step_eq [OF inv trade(2)])
    note rest = filled_book_effect(4) [OF inv trade(2)]
    note sub = oco_after_fill_effect(4) [OF inv trade(2), folded book]
    have S: "?S ?b1 + slices maker = ?S (ms_book st) + (if ?q = o_remaining maker then 0 else slices ?m)"
      using arg_cong [OF rest, of "\<lambda>M. sum_mset (image_mset slices M)"] by (simp split: if_splits)
    have rem: "0 < o_remaining (ms_taker st)" using trade(2) by (simp add: candidate_def)
    have le: "slices ?m \<le> slices maker" using slices_mono [OF ok, of ?q] q by simp
    have "?S ?b1 + (if 0 < o_remaining (ms_taker st') then 1 else 0) < ?S (ms_book st) + 1"
    proof (cases "?q = o_remaining (ms_taker st)")
      case True
      then show ?thesis using S le slices_pos [OF ok] taker by (auto split: if_splits)
    next
      case False
      then have "?q = visible_qty maker" by (simp add: trade_qty_def min_def split: if_splits)
      with slices_consume [OF ok] have "?q \<noteq> o_remaining maker \<Longrightarrow> slices ?m < slices maker" by simp
      with S slices_pos [OF ok] show ?thesis by (auto split: if_splits)
    qed
    with sum_slices_mono [OF sub] rem show ?thesis by (simp add: loop_rank_def)
  next
    case (cancel_maker p maker rest)
    have "?S (ms_book st) = ?S (ms_book st') + slices maker"
      by (simp flip: stp_pop_step_effect(3) [OF inv cancel_maker(2,1)])
    with slices_pos [OF candidate_maker_ok(1) [OF inv cancel_maker(2)]] cancel_maker(1,2) show ?thesis
      by (simp add: loop_rank_def candidate_def)
  next
    case (decrement_maker p maker rest)
    have "?S (ms_book st) = ?S (ms_book st') + slices maker"
      by (simp flip: stp_pop_step_effect(3) [OF inv decrement_maker(2,1)])
    with slices_pos [OF candidate_maker_ok(1) [OF inv decrement_maker(2)]] decrement_maker(2) show ?thesis
      by (simp add: loop_rank_def candidate_def)
  qed
qed

interpretation ranked_loop: ranked_system "match_trans :: 'd::floor_ceiling match_state \<Rightarrow> _" loop_inv loop_rank
  by unfold_locales (rule loop_rank_step)

lemma match_iter_terminates:
  fixes st :: "'d::floor_ceiling match_state"
  assumes "loop_inv st"
  shows "\<exists>r st'. match_iter st = Some (r, st')"
proof -
  from assms obtain s where s: "match_trans\<^sup>*\<^sup>* st s" "\<nexists>u. match_trans s u" by (rule ranked_loop.reaches_end)
  have inv: "book_inv (ms_book u)" if "match_trans\<^sup>*\<^sup>* st u" for u
    using loop.inv_steps [OF that assms] by (simp add: loop_inv_def)
  have "match_iter st = match_iter s" by (rule match_iter_of_steps [OF s(1)]) (rule inv)
  moreover have "match_step s \<noteq> Continue u" for u using s inv match_step_refines by blast
  then have "\<exists>r st'. match_iter s = Some (r, st')"
    by (cases "match_step s") (auto simp: match_iter.simps [of s])
  ultimately show ?thesis by simp
qed

end
