(* ===== verification/Match_Order.thy ===== *)
theory Match_Order
  imports Matching
begin

text \<open>
  \<open>run_matching_loop\<close> and \<open>match_order\<close> as a whole: resting the remainder, triggering stops and
  working through the queue of triggered orders. The invariant of the book is carried through
  every order of the queue, and the queue is shown to run empty.
\<close>

section \<open>Resting an order\<close>

lemma exhausted_uncrossed:
  assumes inv: "book_inv (ms_book st)" and ex: "loop_exhausted st" and rem: "0 < o_remaining (ms_taker st)"
    and q: "q \<in> fst ` set (side_levels (opposite (o_side (ms_taker st))) (ms_book st))"
  shows "\<not> taker_price_satisfied (ms_taker st) q"
proof -
  let ?s = "o_side (ms_taker st)"
  have wf: "bt_wf (side_levels (opposite ?s) (ms_book st))" using inv by (simp add: book_inv_def side_wf_def)
  from q have "best_opposite_price (ms_book st) ?s \<noteq> None" by (cases ?s) auto
  then obtain p where p: "best_opposite_price (ms_book st) ?s = Some p" by blast
  with ex rem have "\<not> taker_price_satisfied (ms_taker st) p" by (simp add: loop_exhausted_def)
  moreover from p q wf have "if ?s = Buy then p \<le> q else q \<le> p"
    by (cases ?s) (auto intro: bt_first_le bt_last_ge)
  ultimately show ?thesis
    by (auto simp: taker_price_satisfied_def split: option.splits side.splits if_splits)
qed

lemma set_bt_entry_subset:
  "set (bt_entry k d f m) \<subseteq> insert (k, f (case bt_get m k of None \<Rightarrow> d | Some v \<Rightarrow> v)) (set m)"
  using set_bt_insert_subset [of k _ m] by (auto simp: bt_entry_def split: option.splits)

lemma fst_set_bt_entry: "fst ` set (bt_entry k d f m) = insert k (fst ` set m)"
  by (auto simp: bt_entry_def split: option.splits)

lemma side_wf_entry:
  assumes wf: "side_wf s m" and ok: "level_order_ok s p ord"
  shows "side_wf s (bt_entry p [] (\<lambda>level. level @ [ord]) m)"
proof -
  define level where "level = (case bt_get m p of None \<Rightarrow> [] | Some v \<Rightarrow> v) @ [ord]"
  have level: "level \<noteq> []" "\<forall>x \<in> set level. level_order_ok s p x"
    using side_wf_level(2) [OF wf, of p] ok by (cases "bt_get m p"; auto simp: level_def)+
  have sub: "set (bt_entry p [] (\<lambda>level. level @ [ord]) m) \<subseteq> insert (p, level) (set m)"
    unfolding level_def by (rule set_bt_entry_subset)
  have "\<forall>(p, q) \<in> insert (p, level) (set m). q \<noteq> [] \<and> (\<forall>ord \<in> set q. level_order_ok s p ord)"
    using level wf by (simp add: side_wf_def)
  with sub wf show ?thesis unfolding side_wf_def by (meson bt_wf_entry subsetD)
qed

lemma insert_maker_effect:
  assumes inv: "book_inv b" and ok: "order_ok ord" and fresh: "o_id ord \<notin># book_ids b"
    and unc: "\<And>q. q \<in> fst ` set (side_levels (opposite (o_side ord)) b) \<Longrightarrow> \<not> taker_price_satisfied ord q"
    and price: "o_price ord = Some p"
  shows "book_inv (insert_maker b ord)" and "mset (resting (insert_maker b ord)) = add_mset ord (mset (resting b))"
    and "stops (insert_maker b ord) = stops b"
proof -
  let ?s = "o_side ord"
  let ?m = "bt_entry p [] (\<lambda>level. level @ [ord]) (side_levels ?s b)"
  have b': "insert_maker b ord = set_side_levels ?s ?m (b\<lparr>order_index := (order_index b)(o_id ord \<mapsto> (?s, p))\<rparr>)"
    by (simp add: insert_maker_def price)
  let ?b = "insert_maker b ord"
  have wf: "side_wf s (side_levels s b)" for s using inv by (simp add: book_inv_def)
  have wf': "side_wf s (side_levels s ?b)" for s
    using wf side_wf_entry [of ?s "side_levels ?s b" p ord] ok price by (simp add: b' level_order_ok_def)
  show stops: "stops ?b = stops b" by (simp add: b')
  have "mset (bucket_orders ?m) = add_mset ord (mset (bucket_orders (side_levels ?s b)))"
    using wf [of ?s] by (intro bucket_orders_insert_mset) (simp add: side_wf_def)
  then show rest: "mset (resting ?b) = add_mset ord (mset (resting b))"
    by (simp add: mset_resting [of _ ?s] b')
  have keys: "fst ` set (side_levels s ?b) = (if s = ?s then insert p (fst ` set (side_levels s b)) else fst ` set (side_levels s b))" for s
    by (simp add: b' fst_set_bt_entry)
  have "uncrossed ?b"
    using inv keys [of Buy] keys [of Sell] unc price
    by (cases ?s) (auto simp: book_inv_def uncrossed_def taker_price_satisfied_def not_le)
  moreover have "uniq (book_ids ?b)"
    using inv fresh by (simp add: book_ids_def rest stops book_inv_def uniq_add_mset)
  moreover have "index_ok ?b"
  proof -
    have set: "set (resting ?b) = insert ord (set (resting b))" using arg_cong [OF rest, of set_mset] by simp
    from fresh have "o_id ord \<notin> o_id ` set (resting b)" by (simp add: book_ids_def)
    then have "\<And>x. x \<in> set (resting b) \<Longrightarrow> o_id x \<noteq> o_id ord" by (metis imageI)
    with inv show ?thesis unfolding index_ok_def set by (auto simp: b' price book_inv_def index_ok_def)
  qed
  ultimately show "book_inv ?b" using inv wf' by (simp add: book_inv_def stops)
qed

lemma insert_maker_no_price: "o_price ord = None \<Longrightarrow> insert_maker b ord = b"
  by (simp add: insert_maker_def)

lemma finalize_taker_effect:
  assumes inv: "loop_inv st" and ex: "loop_exhausted st"
    and eq: "finalize_taker (ms_book st) (ms_taker st) hf = (b', evs)"
  shows "book_inv b'" and "book_ids b' \<subseteq># add_mset (o_id (ms_taker st)) (book_ids (ms_book st))"
    and "stops b' = stops (ms_book st)" and "fills_of evs = []"
proof -
  let ?t = "ms_taker st"
  let ?b = "ms_book st"
  have bi: "book_inv ?b" using inv by (simp add: loop_inv_def)
  have cases: "b' = ?b \<or> b' = insert_maker ?b ?t \<and> 0 < o_remaining ?t \<and> (\<exists>p. o_price ?t = Some p)"
    using eq inv insert_maker_no_price [of ?t ?b]
    by (cases "o_price ?t"; cases "o_type ?t") (auto simp: finalize_taker_def loop_inv_def split: if_splits)
  have "book_inv b' \<and> book_ids b' \<subseteq># add_mset (o_id ?t) (book_ids ?b) \<and> stops b' = stops ?b"
  proof (cases "b' = ?b")
    case True
    with bi show ?thesis by simp
  next
    case False
    with cases obtain p where b': "b' = insert_maker ?b ?t" and pos: "0 < o_remaining ?t" and p: "o_price ?t = Some p"
      by blast
    have "order_ok ?t" "o_id ?t \<notin># book_ids ?b" using inv pos by (simp_all add: loop_inv_def order_ok_alt)
    note ins = insert_maker_effect [OF bi this exhausted_uncrossed [OF bi ex pos] p, folded b']
    then show ?thesis by (simp add: book_ids_def)
  qed
  then show "book_inv b'" and "book_ids b' \<subseteq># add_mset (o_id (ms_taker st)) (book_ids (ms_book st))"
    and "stops b' = stops (ms_book st)" by blast+
  show "fills_of evs = []" using eq by (cases "o_type ?t") (auto simp: finalize_taker_def split: if_splits)
qed

section \<open>Triggering stops\<close>

text \<open>Identifiers and orders that are still to be processed, beside those in the book.\<close>

definition queue_ids :: "'d order list \<Rightarrow> uuid multiset" where
  "queue_ids q = image_mset o_id (mset q)"

lemma queue_ids_simps [simp]:
  "queue_ids [] = {#}" "queue_ids (x # q) = add_mset (o_id x) (queue_ids q)" "queue_ids (p @ q) = queue_ids p + queue_ids q"
  by (simp_all add: queue_ids_def)

lemma trigger_after_effect:
  assumes inv: "book_inv b" and eq: "trigger_after b lp = (b', trig)"
  shows "book_inv b'" and "queue_ids trig + book_ids b' = book_ids b"
    and "\<forall>t \<in> set trig. order_ok t \<and> \<not> is_stop (o_type t)"
    and "length trig + length (stop_orders (stops b')) = length (stop_orders (stops b))"
    and "\<And>p t. lp = Some p \<Longrightarrow> t \<in> set (stop_orders (stops b')) \<Longrightarrow> \<not> stop_triggered_by p t"
    and "resting b' = resting b" and "oco_links b' = oco_links b"
proof -
  have "book_inv b' \<and> queue_ids trig + book_ids b' = book_ids b \<and> (\<forall>t \<in> set trig. order_ok t \<and> \<not> is_stop (o_type t))
    \<and> length trig + length (stop_orders (stops b')) = length (stop_orders (stops b))
    \<and> (\<forall>p t. lp = Some p \<longrightarrow> t \<in> set (stop_orders (stops b')) \<longrightarrow> \<not> stop_triggered_by p t)
    \<and> resting b' = resting b \<and> oco_links b' = oco_links b"
  proof (cases lp)
    case None
    with eq inv show ?thesis by (simp add: trigger_after_def)
  next
    case (Some p)
    obtain r out where dr: "drain_triggered (stops b) p = (r, out)" by fastforce
    with eq Some have b': "b' = b\<lparr>stops := r\<rparr>" "trig = out" by (auto simp: trigger_after_def check_stop_triggers_def)
    have wf: "stop_wf (stops b)" using inv by (simp add: book_inv_def)
    from drain_triggered_mset [OF wf dr] obtain ts where ts: "out = map convert_stop ts"
      "mset ts + mset (stop_orders r) = mset (stop_orders (stops b))"
      "\<forall>t \<in> set (stop_orders r). \<not> stop_triggered_by p t" by blast
    have sub: "mset (stop_orders r) \<subseteq># mset (stop_orders (stops b))" by (simp flip: ts(2))
    have ts_in: "set ts \<subseteq> set (stop_orders (stops b))" using arg_cong [OF ts(2), of set_mset] by auto
    have "book_inv b'" using book_inv_fewer_stops(1) [OF inv _ sub] stop_wf_drain [OF wf, of p] dr by (simp add: b')
    moreover have "queue_ids trig = image_mset o_id (mset ts)"
      by (simp add: b' ts(1) queue_ids_def image_mset.compositionality comp_def)
    then have "queue_ids trig + book_ids b' = book_ids b"
      by (simp add: b' book_ids_def ac_simps flip: ts(2))
    moreover have "\<forall>t \<in> set trig. order_ok t \<and> \<not> is_stop (o_type t)"
      using inv ts_in by (auto simp: b' ts(1) convert_stop_active book_inv_def order_ok_def)
    moreover have "length trig + length (stop_orders (stops b')) = length (stop_orders (stops b))"
      using arg_cong [OF ts(2), of size] by (simp add: b' ts(1))
    ultimately show ?thesis using ts(3) Some by (simp add: b')
  qed
  then show "book_inv b'" and "queue_ids trig + book_ids b' = book_ids b"
    and "\<forall>t \<in> set trig. order_ok t \<and> \<not> is_stop (o_type t)"
    and "length trig + length (stop_orders (stops b')) = length (stop_orders (stops b))"
    and "\<And>p t. lp = Some p \<Longrightarrow> t \<in> set (stop_orders (stops b')) \<Longrightarrow> \<not> stop_triggered_by p t"
    and "resting b' = resting b" and "oco_links b' = oco_links b"
    by blast+
qed

section \<open>One order through the loop\<close>

lemma match_trans_stops:
  assumes "book_inv (ms_book st)" and "match_trans st st'"
  shows "mset (stop_orders (stops (ms_book st'))) \<subseteq># mset (stop_orders (stops (ms_book st)))"
  using assms(2)
proof (cases rule: match_transE)
  case (trade p maker rest)
  from oco_after_fill_effect(5) [OF assms(1) trade(2)] filled_book_effect(6) [OF assms(1) trade(2)] show ?thesis
    by (simp add: trade(1) fill_step_eq [OF assms(1) trade(2)])
next
  case (cancel_maker p maker rest)
  from stp_pop_step_effect(4) [OF assms(1) cancel_maker(2,1)] show ?thesis by simp
next
  case (decrement_maker p maker rest)
  from stp_pop_step_effect(4) [OF assms(1) decrement_maker(2,1)] show ?thesis by simp
qed

lemma match_path_effect:
  assumes "match_trans\<^sup>*\<^sup>* st st'" and "loop_inv st"
  shows "loop_inv st'" and "book_ids (ms_book st') \<subseteq># book_ids (ms_book st)"
    and "mset (stop_orders (stops (ms_book st'))) \<subseteq># mset (stop_orders (stops (ms_book st)))"
    and "\<exists>r. ms_taker st' = (ms_taker st)\<lparr>o_remaining := r\<rparr> \<and> 0 \<le> r \<and> r \<le> o_remaining (ms_taker st)"
proof -
  show "loop_inv st'" using loop.inv_steps [OF assms] .
  have "book_ids (ms_book st') \<subseteq># book_ids (ms_book st)
    \<and> mset (stop_orders (stops (ms_book st'))) \<subseteq># mset (stop_orders (stops (ms_book st)))
    \<and> (\<exists>r. ms_taker st' = (ms_taker st)\<lparr>o_remaining := r\<rparr> \<and> 0 \<le> r \<and> r \<le> o_remaining (ms_taker st))"
  proof (rule loop.steps_induct_with_inv [OF assms], goal_cases)
    case 1
    show ?case using assms(2) by (intro conjI exI [of _ "o_remaining (ms_taker st)"]) (auto simp: loop_inv_def)
  next
    case (2 u v)
    have u: "book_inv (ms_book u)" using 2(1) by (simp add: loop_inv_def)
    from match_trans_book [OF u 2(2)] obtain r' where r': "book_ids (ms_book v) \<subseteq># book_ids (ms_book u)"
      "ms_taker v = (ms_taker u)\<lparr>o_remaining := r'\<rparr>" "0 \<le> r'" "r' \<le> o_remaining (ms_taker u)" by blast
    from 2(3) obtain r where "ms_taker u = (ms_taker st)\<lparr>o_remaining := r\<rparr>" "r \<le> o_remaining (ms_taker st)" by blast
    with r' have "ms_taker v = (ms_taker st)\<lparr>o_remaining := r'\<rparr>" "r' \<le> o_remaining (ms_taker st)" by simp_all
    with r' 2(3) match_trans_stops [OF u 2(2)] show ?case by (meson subset_mset.order_trans)
  qed
  then show "book_ids (ms_book st') \<subseteq># book_ids (ms_book st)"
    and "mset (stop_orders (stops (ms_book st'))) \<subseteq># mset (stop_orders (stops (ms_book st)))"
    and "\<exists>r. ms_taker st' = (ms_taker st)\<lparr>o_remaining := r\<rparr> \<and> 0 \<le> r \<and> r \<le> o_remaining (ms_taker st)" by blast+
qed

text \<open>The state after a self-trade return.\<close>

lemma match_step_Return_effect:
  assumes inv: "book_inv (ms_book st)" and ret: "match_step st = Return st'"
  shows "book_inv (ms_book st')" and "book_ids (ms_book st') \<subseteq># book_ids (ms_book st)"
    and "stops (ms_book st') = stops (ms_book st)" and "fills_of (ms_events st') = fills_of (ms_events st)"
    and "ms_last_trade_price st' = ms_last_trade_price st" and "oco_links (ms_book st') = oco_links (ms_book st)"
proof -
  from inv ret obtain p maker rest b' taker' evs where c: "candidate st p maker rest"
    and "o_user_id (ms_taker st) = o_user_id maker"
    and stp: "apply_stp (ms_book st) (ms_taker st) p (peeked_of maker) = (b', taker', evs, TakerConsumed)"
    and st': "st' = st\<lparr>ms_book := b', ms_taker := taker', ms_events := ms_events st @ evs\<rparr>"
    by (rule match_step_Return)
  let ?s = "opposite (o_side (ms_taker st))"
  have get: "bt_get (side_levels ?s (ms_book st)) p = Some (maker # rest)" and rem: "0 < o_remaining (ms_taker st)"
    using c by (simp_all add: candidate_def)
  have cases: "b' = ms_book st \<or> b' = pop_front_maker (ms_book st) ?s p (o_id maker) \<or>
      o_remaining (ms_taker st) < o_remaining maker \<and> b' = decrement_front_maker (ms_book st) ?s p (o_remaining (ms_taker st))"
    and evs: "fills_of evs = []"
    using stp by (auto simp: apply_stp_def apply_stp_decrement_def Let_def split: stp_mode.splits if_splits)
  note pop = pop_front_maker_inv [OF inv get]
  note dec = decrement_front_maker_inv [OF inv get]
  have "stops (pop_front_maker (ms_book st) ?s p (o_id maker)) = stops (ms_book st)"
    "oco_links (pop_front_maker (ms_book st) ?s p (o_id maker)) = oco_links (ms_book st)"
    using get by (simp_all add: pop_front_maker_def)
  moreover have "stops (decrement_front_maker (ms_book st) ?s p q) = stops (ms_book st)"
     "oco_links (decrement_front_maker (ms_book st) ?s p q) = oco_links (ms_book st)" for q
    using get by (auto simp: decrement_front_maker_def pop_front_maker_def Let_def split: option.splits)
  ultimately show "book_inv (ms_book st')" and "book_ids (ms_book st') \<subseteq># book_ids (ms_book st)"
    and "stops (ms_book st') = stops (ms_book st)" and "oco_links (ms_book st') = oco_links (ms_book st)"
    using cases inv pop dec [of "o_remaining (ms_taker st)"] rem by (auto simp: st')
  show "fills_of (ms_events st') = fills_of (ms_events st)" "ms_last_trade_price st' = ms_last_trade_price st"
    using evs by (simp_all add: st')
qed

lemma finish_match_effect:
  assumes inv: "loop_inv st" and ex: "loop_exhausted st" and eq: "finish_match st = (b', evs, trig)"
  shows "book_inv b'" and "queue_ids trig + book_ids b' \<subseteq># add_mset (o_id (ms_taker st)) (book_ids (ms_book st))"
    and "\<forall>t \<in> set trig. order_ok t \<and> \<not> is_stop (o_type t)"
    and "length trig + length (stop_orders (stops b')) \<le> length (stop_orders (stops (ms_book st)))"
    and "fills_of evs = fills_of (ms_events st)"
    and "\<And>p t. ms_last_trade_price st = Some p \<Longrightarrow> t \<in> set (stop_orders (stops b')) \<Longrightarrow> \<not> stop_triggered_by p t"
proof -
  obtain b1 fe where fin: "finalize_taker (ms_book st) (ms_taker st) (ms_had_fills st) = (b1, fe)" by fastforce
  define tterm where "tterm \<longleftrightarrow> o_remaining (ms_taker st) = 0 \<or> (\<exists>e \<in> set fe. case e of Cancelled _ _ \<Rightarrow> True | _ \<Rightarrow> False)"
  obtain b2 oe where oco: "(if tterm then maybe_cancel_oco b1 (o_id (ms_taker st)) else (b1, [])) = (b2, oe)" by fastforce
  obtain b3 tr where trg: "trigger_after b2 (ms_last_trade_price st) = (b3, tr)" by fastforce
  have res: "b' = b3" "evs = ms_events st @ fe @ oe" "trig = tr"
    using eq fin oco trg by (auto simp: finish_match_def tterm_def Let_def)
  note f = finalize_taker_effect [OF inv ex fin]
  have o: "book_inv b2" "book_ids b2 \<subseteq># book_ids b1" "fills_of oe = []"
    "mset (stop_orders (stops b2)) \<subseteq># mset (stop_orders (stops b1))"
    using oco f(1) maybe_cancel_oco_inv [OF f(1)] by (auto split: if_splits)
  note t = trigger_after_effect [OF o(1) trg]
  show "book_inv b'" "\<forall>t \<in> set trig. order_ok t \<and> \<not> is_stop (o_type t)" using t(1,3) by (simp_all add: res)
  show "queue_ids trig + book_ids b' \<subseteq># add_mset (o_id (ms_taker st)) (book_ids (ms_book st))"
    unfolding res t(2) using o(2) f(2) by (rule subset_mset.order_trans)
  show "length trig + length (stop_orders (stops b')) \<le> length (stop_orders (stops (ms_book st)))"
    unfolding res t(4) using size_mset_mono [OF o(4)] f(3) by simp
  show "fills_of evs = fills_of (ms_events st)" using f(4) o(3) by (simp add: res)
  show "\<And>p t. ms_last_trade_price st = Some p \<Longrightarrow> t \<in> set (stop_orders (stops b')) \<Longrightarrow> \<not> stop_triggered_by p t"
    using t(5) by (simp add: res)
qed

lemma loop_inv_initial:
  "book_inv b \<Longrightarrow> order_ok t \<Longrightarrow> o_id t \<notin># book_ids b \<Longrightarrow> loop_inv (initial_match_state b t)"
  by (simp add: loop_inv_def initial_match_state_def order_ok_alt)

lemma initial_match_state_sel [simp]:
  "ms_book (initial_match_state b t) = b" "ms_taker (initial_match_state b t) = t"
  "ms_events (initial_match_state b t) = []" "ms_last_trade_price (initial_match_state b t) = None"
  by (simp_all add: initial_match_state_def)

text \<open>How a call ends: the path taken, then either a self-trade return or \<open>finish_match\<close>.\<close>

lemma run_matching_loop_cases:
  assumes inv: "loop_inv (initial_match_state b t)" and run: "run_matching_loop b t = Some (b', evs, trig)"
  obtains (finished) st where "match_trans\<^sup>*\<^sup>* (initial_match_state b t) st" "loop_inv st" "loop_exhausted st"
      "finish_match st = (b', evs, trig)"
  | (stp) st st' where "match_trans\<^sup>*\<^sup>* (initial_match_state b t) st" "loop_inv st" "match_step st = Return st'"
      "trigger_after (ms_book st') (ms_last_trade_price st') = (b', trig)" "evs = ms_events st'"
proof -
  from run obtain r st' where it: "match_iter (initial_match_state b t) = Some (r, st')"
    by (auto simp: run_matching_loop_def split: option.splits)
  from it inv obtain s where s: "match_trans\<^sup>*\<^sup>* (initial_match_state b t) s" "loop_inv s"
    "if r then match_step s = Return st' else s = st' \<and> loop_exhausted st'" by (rule match_iter_path)
  from run it s that show thesis
    by (cases r) (auto simp: run_matching_loop_def split: prod.splits)
qed

lemma run_matching_loop_effect:
  assumes inv: "book_inv b" "order_ok t" "o_id t \<notin># book_ids b" and run: "run_matching_loop b t = Some (b', evs, trig)"
  shows "book_inv b'" and "queue_ids trig + book_ids b' \<subseteq># add_mset (o_id t) (book_ids b)"
    and "\<forall>t \<in> set trig. order_ok t \<and> \<not> is_stop (o_type t)"
    and "length trig + length (stop_orders (stops b')) \<le> length (stop_orders (stops b))"
proof -
  have li: "loop_inv (initial_match_state b t)" using inv by (rule loop_inv_initial)
  have "book_inv b' \<and> queue_ids trig + book_ids b' \<subseteq># add_mset (o_id t) (book_ids b)
    \<and> (\<forall>t \<in> set trig. order_ok t \<and> \<not> is_stop (o_type t))
    \<and> length trig + length (stop_orders (stops b')) \<le> length (stop_orders (stops b))"
    using li run
  proof (cases rule: run_matching_loop_cases)
    case (finished st)
    note p = match_path_effect [OF finished(1) li]
    note f = finish_match_effect [OF finished(2-4)]
    have "o_id (ms_taker st) = o_id t" using p(4) by auto
    with p(2) have sub: "add_mset (o_id (ms_taker st)) (book_ids (ms_book st)) \<subseteq># add_mset (o_id t) (book_ids b)" by simp
    from f(4) size_mset_mono [OF p(3)] have "length trig + length (stop_orders (stops b')) \<le> length (stop_orders (stops b))"
      by simp
    with f(1,3) subset_mset.order_trans [OF f(2) sub] show ?thesis by blast
  next
    case (stp st st')
    note p = match_path_effect [OF stp(1) li]
    have "book_inv (ms_book st)" using stp(2) by (simp add: loop_inv_def)
    note r = match_step_Return_effect [OF this stp(3)]
    note g = trigger_after_effect [OF r(1) stp(4)]
    have sub: "book_ids (ms_book st') \<subseteq># book_ids b"
      using subset_mset.order_trans [OF r(2) p(2)] by simp
    then have "queue_ids trig + book_ids b' \<subseteq># add_mset (o_id t) (book_ids b)"
      unfolding g(2) by (simp add: subset_mset.order_trans)
    moreover have "length trig + length (stop_orders (stops b')) \<le> length (stop_orders (stops b))"
      unfolding g(4) r(3) using size_mset_mono [OF p(3)] by simp
    ultimately show ?thesis using g(1,3) by blast
  qed
  then show "book_inv b'" and "queue_ids trig + book_ids b' \<subseteq># add_mset (o_id t) (book_ids b)"
    and "\<forall>t \<in> set trig. order_ok t \<and> \<not> is_stop (o_type t)"
    and "length trig + length (stop_orders (stops b')) \<le> length (stop_orders (stops b))" by blast+
qed

section \<open>The work queue\<close>

type_synonym 'd work_state = "'d order_book \<times> 'd order list \<times> nat \<times> 'd core_event list"

inductive work_trans :: "'d::linordered_idom work_state \<Rightarrow> 'd work_state \<Rightarrow> bool" where
  chained:
    "run_matching_loop b t = Some (b', evs, trig) \<Longrightarrow> depth < MAX_STOP_CHAIN_DEPTH \<Longrightarrow>
       work_trans (b, q @ [t], depth, out)
         (b', q @ trig, saturating_depth depth (length trig), out @ evs @ map (StopTriggered \<circ> o_id) trig)"
| too_deep:
    "run_matching_loop b t = Some (b', evs, trig) \<Longrightarrow> MAX_STOP_CHAIN_DEPTH \<le> depth \<Longrightarrow>
       work_trans (b, q @ [t], depth, out) (b', q, depth, out @ evs)"

inductive_cases work_transE [consumes 1, case_names chained too_deep]: "work_trans ws ws'"

definition work_inv :: "'d::linordered_idom work_state \<Rightarrow> bool" where
  "work_inv ws \<longleftrightarrow> (case ws of (b, q, _, _) \<Rightarrow>
     book_inv b \<and> (\<forall>t \<in> set q. order_ok t) \<and> uniq (queue_ids q + book_ids b))"

definition work_rank :: "'d work_state \<Rightarrow> nat" where
  "work_rank ws = (case ws of (b, q, _, _) \<Rightarrow> length q + length (stop_orders (stops b)))"

definition work_ids :: "'d work_state \<Rightarrow> uuid multiset" where
  "work_ids ws = (case ws of (b, q, _, _) \<Rightarrow> queue_ids q + book_ids b)"

lemma work_trans_effect:
  assumes "work_inv ws" and "work_trans ws ws'"
  shows "work_inv ws'" and "work_rank ws' < work_rank ws" and "work_ids ws' \<subseteq># work_ids ws"
proof -
  from assms(2) obtain b q t d out b' evs trig d' out' q' where ws: "ws = (b, q @ [t], d, out)" and ws': "ws' = (b', q', d', out')"
    and run: "run_matching_loop b t = Some (b', evs, trig)" and q': "q' = q @ trig \<or> q' = q"
    by (elim work_transE) blast+
  have fresh: "o_id t \<notin># book_ids b" and uq: "uniq (queue_ids q + add_mset (o_id t) (book_ids b))"
    and ok: "book_inv b" "order_ok t" "\<forall>t \<in> set q. order_ok t"
    using assms(1) by (auto simp: work_inv_def ws uniq_add_mset)
  note r = run_matching_loop_effect [OF ok(1,2) fresh run]
  have "queue_ids q' + book_ids b' \<subseteq># queue_ids q + (queue_ids trig + book_ids b')"
    using q' by (auto simp: ac_simps)
  also have "\<dots> \<subseteq># queue_ids q + add_mset (o_id t) (book_ids b)"
    using r(2) by (intro subset_mset.add_left_mono)
  finally have sub: "queue_ids q' + book_ids b' \<subseteq># queue_ids q + add_mset (o_id t) (book_ids b)" .
  then show "work_ids ws' \<subseteq># work_ids ws" by (simp add: work_ids_def ws ws')
  from sub show "work_inv ws'" using uq r(1,3) ok(3) q' by (auto simp: work_inv_def ws' intro: uniq_mono)
  show "work_rank ws' < work_rank ws" using r(4) q' by (auto simp: work_rank_def ws ws')
qed

interpretation work: ranked_system work_trans work_inv work_rank
  by unfold_locales (rule work_trans_effect; assumption)+

lemma work_path_ids:
  assumes "work_trans\<^sup>*\<^sup>* ws ws'" and "work_inv ws"
  shows "work_ids ws' \<subseteq># work_ids ws"
  by (rule work.steps_induct_with_inv [OF assms]) (auto dest: work_trans_effect(3) intro: subset_mset.order_trans)

lemma work_loop_step:
  assumes "q \<noteq> []" and "run_matching_loop b (last q) = Some (b', evs, trig)"
  obtains q' d' out' where "work_trans (b, q, d, out) (b', q', d', out')"
    and "work_loop b q d out = work_loop b' q' d' out'"
proof (cases "d < MAX_STOP_CHAIN_DEPTH")
  case True
  from work_trans.chained [OF assms(2) True, of "butlast q" out] assms True show ?thesis
    by (intro that) (simp_all add: work_loop.simps [of b q] append_butlast_last_id)
next
  case False
  from work_trans.too_deep [OF assms(2), of d "butlast q" out] assms False show ?thesis
    by (intro that) (simp_all add: work_loop.simps [of b q] append_butlast_last_id)
qed

lemma work_loop_path:
  assumes "work_loop b q d out = Some (b', evs)"
  shows "\<exists>d'. work_trans\<^sup>*\<^sup>* (b, q, d, out) (b', [], d', evs)"
proof -
  let ?P = "\<lambda>b q d out r. \<exists>d'. work_trans\<^sup>*\<^sup>* (b, q, d, out) (fst r, [], d', snd r)"
  have "?P b q d out (b', evs)"
  proof (rule work_loop.raw_induct [where P = ?P, OF _ assms])
    fix f b q d out r
    assume IH: "\<And>b q d out r. f b q d out = Some r \<Longrightarrow> ?P b q d out r"
      and eq: "(if q = [] then Some (b, out) else Option.bind (run_matching_loop b (last q)) (\<lambda>(b', events, triggered).
        if d < MAX_STOP_CHAIN_DEPTH
        then f b' (butlast q @ triggered) (saturating_depth d (length triggered)) (out @ events @ map (StopTriggered \<circ> o_id) triggered)
        else f b' (butlast q) d (out @ events))) = Some r"
    show "?P b q d out r"
    proof (cases "q = []")
      case True
      with eq show ?thesis by auto
    next
      case False
      with eq obtain b1 ev tr where run: "run_matching_loop b (last q) = Some (b1, ev, tr)"
        by (auto simp: bind_eq_Some_conv)
      note split = append_butlast_last_id [OF False]
      show ?thesis
      proof (cases "d < MAX_STOP_CHAIN_DEPTH")
        case True
        note step = work_trans.chained [OF run True, of "butlast q" out, unfolded split]
        from True False eq run IH have "?P b1 (butlast q @ tr) (saturating_depth d (length tr))
          (out @ ev @ map (StopTriggered \<circ> o_id) tr) r" by simp
        with step show ?thesis by (meson converse_rtranclp_into_rtranclp)
      next
        case False
        note step = work_trans.too_deep [OF run, of d "butlast q" out, unfolded split]
        from False \<open>q \<noteq> []\<close> eq run IH have "?P b1 (butlast q) d (out @ ev) r" by simp
        with step False show ?thesis by (meson converse_rtranclp_into_rtranclp not_le)
      qed
    qed
  qed
  then show ?thesis by simp
qed

section \<open>\<open>match_order\<close>\<close>

lemma register_stop_order_effect:
  assumes inv: "book_inv b" "order_ok t" "o_id t \<notin># book_ids b" and eq: "register_stop_order b t = (b', evs)"
  shows "book_inv b'" and "book_ids b' \<subseteq># add_mset (o_id t) (book_ids b)" and "fills_of evs = []"
proof -
  have "book_inv b' \<and> book_ids b' \<subseteq># add_mset (o_id t) (book_ids b) \<and> fills_of evs = []"
  proof (cases "stop_insert (stops b) t")
    case (Inl e)
    with eq inv show ?thesis by (auto simp: register_stop_order_def)
  next
    case (Inr r)
    have wf: "stop_wf (stops b)" using inv(1) by (simp add: book_inv_def)
    have b': "b' = b\<lparr>stops := r\<rparr>" "fills_of evs = []" using eq Inr by (auto simp: register_stop_order_def)
    have ms: "mset (stop_orders r) = add_mset t (mset (stop_orders (stops b)))" using stop_insert_mset [OF wf Inr] .
    then have "set (stop_orders r) = insert t (set (stop_orders (stops b)))"
      by (metis set_mset_add_mset_insert set_mset_mset)
    moreover have ids: "book_ids b' = add_mset (o_id t) (book_ids b)" by (simp add: b' book_ids_def ms)
    ultimately show ?thesis using inv stop_insert_wf [OF wf Inr] b'(2)
      by (auto simp: book_inv_def uncrossed_def index_ok_def uniq_add_mset b'(1))
  qed
  then show "book_inv b'" and "book_ids b' \<subseteq># add_mset (o_id t) (book_ids b)" and "fills_of evs = []" by blast+
qed

lemma work_inv_initial:
  "book_inv b \<Longrightarrow> order_ok t \<Longrightarrow> o_id t \<notin># book_ids b \<Longrightarrow> work_inv (b, [t], 0, [])"
  by (auto simp: work_inv_def uniq_add_mset book_inv_def)

lemma match_order_cases:
  assumes "match_order b t = Some (b', evs)"
  obtains (rejected) reason where "pre_check b t = Some (Cancelled (o_id t) reason)" "b' = b" "evs = [Cancelled (o_id t) reason]"
  | (stop) "pre_check b t = None" "is_stop (o_type t)" "register_stop_order b t = (b', evs)"
  | (worked) d where "pre_check b t = None" "\<not> is_stop (o_type t)" "work_loop b [t] 0 [] = Some (b', evs)"
      "work_trans\<^sup>*\<^sup>* (b, [t], 0, []) (b', [], d, evs)"
proof (cases "pre_check b t")
  case (Some e)
  then have "\<exists>reason. e = Cancelled (o_id t) reason" by (auto simp: pre_check_def split: order_type.splits if_splits)
  with Some assms show ?thesis by (auto simp: match_order_def intro: rejected)
next
  case None
  with assms that(2,3) work_loop_path [of b "[t]" 0 "[]"] show ?thesis
    by (auto simp: match_order_def split: if_splits)
qed

lemma match_order_inv:
  assumes "book_inv b" and "order_ok t" and "o_id t \<notin># book_ids b" and "match_order b t = Some (b', evs)"
  shows "book_inv b'"
  using assms(4)
proof (cases rule: match_order_cases)
  case rejected
  with assms(1) show ?thesis by simp
next
  case stop
  from register_stop_order_effect(1) [OF assms(1-3) stop(3)] show ?thesis .
next
  case (worked d)
  from work.inv_steps [OF worked(4) work_inv_initial [OF assms(1-3)]] show ?thesis by (simp add: work_inv_def)
qed

lemma book_inv_best_prices:
  "book_inv b \<Longrightarrow> best_bid b = Some x \<Longrightarrow> best_ask b = Some y \<Longrightarrow> x < y"
  by (auto simp: book_inv_def uncrossed_def best_bid_def best_ask_def dest!: bt_first_mem bt_last_mem)

text \<open>
  C1. \<open>OrderBook::match_order\<close> keeps the book invariant: levels sorted by price, non-empty and
  holding only live orders of that side and price, no bid at or above an ask, the index
  listing exactly the resting orders, identifiers unique across levels and stops. In
  particular the best bid stays below the best ask. It holds for every order type, through
  every chain of triggered stops.
\<close>

theorem match_order_preserves_inv:
  assumes "book_inv b" and "order_ok t" and "o_id t \<notin># book_ids b" and "match_order b t = Some (b', evs)"
  shows "book_inv b' \<and> (\<forall>x y. best_bid b' = Some x \<longrightarrow> best_ask b' = Some y \<longrightarrow> x < y)"
  using match_order_inv [OF assms] book_inv_best_prices by blast

lemma run_matching_loop_terminates:
  fixes b :: "'d::floor_ceiling order_book"
  assumes "book_inv b" and "order_ok t" and "o_id t \<notin># book_ids b"
  obtains b' evs trig where "run_matching_loop b t = Some (b', evs, trig)"
proof -
  from match_iter_terminates [OF loop_inv_initial [OF assms]] obtain r st' where
    it: "match_iter (initial_match_state b t) = Some (r, st')" by blast
  from it have "run_matching_loop b t \<noteq> None" by (simp add: run_matching_loop_def)
  then show thesis using that by auto
qed

lemma work_loop_terminates:
  fixes b :: "'d::floor_ceiling order_book"
  assumes "work_inv (b, q, d, out)"
  shows "\<exists>r. work_loop b q d out = Some r"
  using assms
proof (induction "work_rank (b, q, d, out)" arbitrary: b q d out rule: less_induct)
  case less
  show ?case
  proof (cases "q = []")
    case True
    then show ?thesis by (simp add: work_loop.simps)
  next
    case False
    then obtain q0 t where q: "q = q0 @ [t]" by (metis append_butlast_last_id)
    with less.prems have "book_inv b" "order_ok t" "o_id t \<notin># book_ids b"
      by (auto simp: work_inv_def uniq_add_mset)
    then obtain b' evs trig where "run_matching_loop b (last q) = Some (b', evs, trig)"
      unfolding q last_snoc by (rule run_matching_loop_terminates)
    with False obtain q' d' out' where step: "work_trans (b, q, d, out) (b', q', d', out')"
      and eq: "work_loop b q d out = work_loop b' q' d' out'" by (rule work_loop_step)
    show ?thesis unfolding eq
      by (rule less.hyps [OF work.rank_step [OF less.prems step] work.inv_step [OF less.prems step]])
  qed
qed

text \<open>
  C2. \<open>OrderBook::match_order\<close> returns: on a well-formed book and an order with a positive
  quantity (and a positive display quantity when it has one), neither the matching loop nor
  the queue of triggered stops runs forever.
\<close>

theorem match_order_terminates:
  fixes b :: "'d::floor_ceiling order_book"
  assumes "book_inv b" and "order_ok t" and "o_id t \<notin># book_ids b"
  shows "\<exists>b' evs. match_order b t = Some (b', evs)"
  using work_loop_terminates [OF work_inv_initial [OF assms]]
  by (auto simp: match_order_def split: option.splits)

section \<open>A concrete book\<close>

definition sample_order :: "uuid \<Rightarrow> uuid \<Rightarrow> side \<Rightarrow> order_type \<Rightarrow> 'd option \<Rightarrow> 'd \<Rightarrow> 'd order" where
  "sample_order i u s t p q =
     \<lparr>o_id = i, o_user_id = u, o_symbol = ''BTC-USDT'', o_side = s, o_type = t, o_price = p,
      o_quantity = q, o_remaining = q, o_stp_mode = default_stp_mode, o_stop_price = None,
      o_oco_linked_id = None, o_display_qty = None\<rparr>"

definition sample_book :: "'d::linordered_idom order_book" where
  "sample_book = insert_maker book_new (sample_order 1 10 Sell Limit (Some 100) 5)"

lemma sample_order_sel [simp]:
  "o_id (sample_order i u s t p q) = i" "o_user_id (sample_order i u s t p q) = u" "o_side (sample_order i u s t p q) = s"
  "o_type (sample_order i u s t p q) = t" "o_price (sample_order i u s t p q) = p"
  "o_remaining (sample_order i u s t p q) = q" "o_display_qty (sample_order i u s t p q) = None"
  "o_stp_mode (sample_order i u s t p q) = Decrement"
  by (simp_all add: sample_order_def default_stp_mode_def)

lemma sample_order_ok [simp]: "order_ok (sample_order i u s t p q) \<longleftrightarrow> 0 < q"
  by (simp add: order_ok_def)

lemma book_ids_new [simp]: "book_ids book_new = {#}"
  by (simp add: book_ids_def resting_def book_new_def bucket_orders_def stop_orders_def stop_new_def)

lemma sample_book_inv [simp]: "book_inv (sample_book :: 'a::linordered_idom order_book)"
  and sample_book_ids [simp]: "book_ids (sample_book :: 'a::linordered_idom order_book) = {#1#}"
proof -
  let ?o = "sample_order 1 10 Sell Limit (Some 100) 5 :: 'a order"
  have empty: "\<not> taker_price_satisfied ?o q" if "q \<in> fst ` set (side_levels (opposite (o_side ?o)) book_new)" for q
    using that by (simp add: book_new_def)
  have "order_ok ?o" "o_id ?o \<notin># book_ids book_new" "o_price ?o = Some 100" by simp_all
  note ins = insert_maker_effect [OF book_inv_new this(1,2) empty this(3)]
  show "book_inv (sample_book :: 'a order_book)" using ins(1) by (simp add: sample_book_def)
  have "book_ids (sample_book :: 'a order_book) = add_mset 1 (book_ids (book_new :: 'a order_book))"
    unfolding sample_book_def book_ids_def using ins(2,3) by simp
  then show "book_ids (sample_book :: 'a order_book) = {#1#}" by simp
qed

theorem match_order_preserves_inv_witness:
  "\<exists>b'. match_order sample_book (sample_order 2 20 Buy Limit (Some 101) (8 :: int)) =
      Some (b', [Fill \<lparr>f_taker_order_id = 2, f_maker_order_id = 1, f_price = 100, f_quantity = 5, f_taker_side = Buy\<rparr>,
                 Rested 2 3])
    \<and> book_inv b'"
proof -
  have "map_option snd (match_order sample_book (sample_order 2 20 Buy Limit (Some 101) (8 :: int))) =
      Some [Fill \<lparr>f_taker_order_id = 2, f_maker_order_id = 1, f_price = 100, f_quantity = 5, f_taker_side = Buy\<rparr>,
            Rested 2 3]" by code_simp
  then obtain b' where run: "match_order sample_book (sample_order 2 20 Buy Limit (Some 101) (8 :: int)) =
      Some (b', [Fill \<lparr>f_taker_order_id = 2, f_maker_order_id = 1, f_price = 100, f_quantity = 5, f_taker_side = Buy\<rparr>,
            Rested 2 3])" by auto
  with match_order_preserves_inv [OF _ _ _ run] show ?thesis by simp
qed

theorem match_order_terminates_witness:
  "\<exists>b' evs. match_order sample_book (sample_order 2 20 Buy Limit (Some 101) (8 :: rat)) = Some (b', evs)"
  by (rule match_order_terminates) simp_all

text \<open>One order of another user trading with the sample book.\<close>

lemma sample_run:
  obtains b' where "run_matching_loop sample_book (sample_order 2 20 Buy Limit (Some 101) (8 :: int)) =
      Some (b', [Fill \<lparr>f_taker_order_id = 2, f_maker_order_id = 1, f_price = 100, f_quantity = 5, f_taker_side = Buy\<rparr>,
                 Rested 2 3], [])"
proof -
  have "map_option snd (run_matching_loop sample_book (sample_order 2 20 Buy Limit (Some 101) (8 :: int))) =
      Some ([Fill \<lparr>f_taker_order_id = 2, f_maker_order_id = 1, f_price = 100, f_quantity = 5, f_taker_side = Buy\<rparr>,
            Rested 2 3], [])" by code_simp
  then show thesis using that by auto
qed

end
