(* ===== verification/Trading.thy ===== *)
theory Trading
  imports Match_Order
begin

text \<open>
  What the trades of one pass through the matching loop may be: which maker, at which price,
  how much. The facts are carried along the step relation of \<open>Matching\<close>, relative to the book
  and the order the pass started from.
\<close>

section \<open>Sound fills\<close>

text \<open>\<open>p\<close> is at least as good as \<open>k\<close> for a taker on side \<open>s\<close>.\<close>

fun as_good :: "side \<Rightarrow> 'd::linorder \<Rightarrow> 'd \<Rightarrow> bool" where
  "as_good Buy p k \<longleftrightarrow> p \<le> k"
| "as_good Sell p k \<longleftrightarrow> k \<le> p"

text \<open>
  A fill is sound for taker \<open>t\<close> against the resting orders \<open>ms\<close>: the maker rested on the other
  side under the fill's price, belongs to another user, and the price is within \<open>t\<close>'s limit.
\<close>

definition fill_sound :: "'d::linordered_idom order list \<Rightarrow> 'd order \<Rightarrow> 'd fill \<Rightarrow> bool" where
  "fill_sound ms t f \<longleftrightarrow>
     f_taker_order_id f = o_id t \<and> f_taker_side f = o_side t \<and> 0 < f_quantity f \<and> taker_price_satisfied t (f_price f)
     \<and> (\<exists>m \<in> set ms. o_id m = f_maker_order_id f \<and> o_side m = opposite (o_side t) \<and> o_price m = Some (f_price f)
          \<and> o_user_id m \<noteq> o_user_id t)"

definition maker_fills :: "uuid \<Rightarrow> 'd::linordered_idom fill list \<Rightarrow> 'd" where
  "maker_fills i fs = sum_list (map f_quantity (filter (\<lambda>f. f_maker_order_id f = i) fs))"

definition fill_volume :: "'d::linordered_idom fill list \<Rightarrow> 'd" where
  "fill_volume fs = sum_list (map f_quantity fs)"

lemma maker_fills_simps [simp]:
  "maker_fills i [] = 0"
  "maker_fills i (fs @ gs) = maker_fills i fs + maker_fills i gs"
  "maker_fills i [f] = (if f_maker_order_id f = i then f_quantity f else 0)"
  by (simp_all add: maker_fills_def)

lemma fill_volume_simps [simp]:
  "fill_volume [] = 0" "fill_volume (fs @ gs) = fill_volume fs + fill_volume gs" "fill_volume [f] = f_quantity f"
  by (simp_all add: fill_volume_def)

definition own_free :: "'d order list \<Rightarrow> 'd order \<Rightarrow> bool" where
  "own_free ms t \<longleftrightarrow> (\<forall>m \<in> set ms. o_side m = opposite (o_side t) \<longrightarrow> o_user_id m \<noteq> o_user_id t)"

text \<open>Two snapshots of one order: everything but the open quantity agrees.\<close>

definition same_terms :: "'d::zero order \<Rightarrow> 'd order \<Rightarrow> bool" where
  "same_terms m m' \<longleftrightarrow> m\<lparr>o_remaining := 0\<rparr> = m'\<lparr>o_remaining := 0\<rparr>"

lemma same_terms_refl [simp]: "same_terms m m"
  by (simp add: same_terms_def)

lemma same_terms_update [simp]: "same_terms m (m'\<lparr>o_remaining := r\<rparr>) \<longleftrightarrow> same_terms m m'"
  by (simp add: same_terms_def)

lemma same_terms_fields:
  assumes "same_terms m m'"
  shows "o_id m' = o_id m" "o_user_id m' = o_user_id m" "o_side m' = o_side m" "o_price m' = o_price m" "o_type m' = o_type m"
    "o_display_qty m' = o_display_qty m" "o_stp_mode m' = o_stp_mode m"
  using assms by (cases m; cases m'; simp add: same_terms_def)+

text \<open>The facts carried along a run that started with the resting orders \<open>ms\<close> and the taker \<open>t\<close>.\<close>

definition survivors_ok :: "'d::linordered_idom order list \<Rightarrow> 'd match_state \<Rightarrow> bool" where
  "survivors_ok ms st \<longleftrightarrow> (\<forall>m' \<in> set (resting (ms_book st)). \<exists>m \<in> set ms.
     same_terms m m'
     \<and> o_remaining m' + maker_fills (o_id m) (fills_of (ms_events st)) = o_remaining m)"

definition makers_bounded :: "'d::linordered_idom order list \<Rightarrow> 'd match_state \<Rightarrow> bool" where
  "makers_bounded ms st \<longleftrightarrow> (\<forall>m \<in> set ms. maker_fills (o_id m) (fills_of (ms_events st)) \<le> o_remaining m)"

definition taker_accounted :: "'d::linordered_idom order list \<Rightarrow> 'd order \<Rightarrow> 'd match_state \<Rightarrow> bool" where
  "taker_accounted ms t st \<longleftrightarrow> (\<exists>r. ms_taker st = t\<lparr>o_remaining := r\<rparr> \<and> 0 \<le> r
     \<and> r + fill_volume (fills_of (ms_events st)) \<le> o_remaining t
     \<and> (own_free ms t \<longrightarrow> r + fill_volume (fills_of (ms_events st)) = o_remaining t))"

definition prices_ordered :: "'d::linordered_idom order \<Rightarrow> 'd match_state \<Rightarrow> bool" where
  "prices_ordered t st \<longleftrightarrow>
     sorted_wrt (as_good (o_side t)) (map f_price (fills_of (ms_events st)))
     \<and> (\<forall>f \<in> set (fills_of (ms_events st)). \<forall>k \<in> fst ` set (side_levels (opposite (o_side t)) (ms_book st)).
          as_good (o_side t) (f_price f) k)"

definition trading_inv :: "'d::linordered_idom order list \<Rightarrow> 'd order \<Rightarrow> 'd match_state \<Rightarrow> bool" where
  "trading_inv ms t st \<longleftrightarrow> loop_inv st \<and> uniq (image_mset o_id (mset ms)) \<and> survivors_ok ms st \<and> makers_bounded ms st
     \<and> taker_accounted ms t st \<and> prices_ordered t st \<and> (\<forall>f \<in> set (fills_of (ms_events st)). fill_sound ms t f)"

lemmas trading_defs = survivors_ok_def makers_bounded_def taker_accounted_def prices_ordered_def

lemma level_keys:
  assumes "book_inv b"
  shows "fst ` set (side_levels s b) = {p. \<exists>m \<in> set (resting b). o_side m = s \<and> o_price m = Some p}"
proof (intro set_eqI iffI)
  fix p assume "p \<in> fst ` set (side_levels s b)"
  then obtain q where q: "(p, q) \<in> set (side_levels s b)" by force
  have wf: "side_wf s (side_levels s b)" using assms by (simp add: book_inv_def)
  with q have "q \<noteq> []" "\<forall>m \<in> set q. level_order_ok s p m" by (auto simp: side_wf_def)
  then obtain m where m: "m \<in> set q" "level_order_ok s p m" by (meson last_in_set)
  with q have "m \<in> set (resting b)" by (auto simp: set_resting set_bucket_orders)
  with m(2) show "p \<in> {p. \<exists>m \<in> set (resting b). o_side m = s \<and> o_price m = Some p}" by (auto simp: level_order_ok_def)
next
  fix p assume "p \<in> {p. \<exists>m \<in> set (resting b). o_side m = s \<and> o_price m = Some p}"
  then obtain m where "m \<in> set (resting b)" "o_side m = s" "o_price m = Some p" by blast
  with assms show "p \<in> fst ` set (side_levels s b)" using resting_side_price [of b m] by force
qed

lemma best_opposite_as_good:
  assumes "book_inv b" and "best_opposite_price b s = Some p" and "k \<in> fst ` set (side_levels (opposite s) b)"
  shows "as_good s p k"
proof -
  have "bt_wf (side_levels (opposite s) b)" using assms(1) by (simp add: book_inv_def side_wf_def)
  with assms(2,3) show ?thesis by (cases s) (auto intro: bt_first_le bt_last_ge)
qed

lemma trading_inv_initial:
  assumes "book_inv b" and "order_ok t" and "o_id t \<notin># book_ids b"
  shows "trading_inv (resting b) t (initial_match_state b t)"
proof -
  have pos: "0 \<le> o_remaining m" if "m \<in> set (resting b)" for m
    by (rule resting_side_price [OF assms(1) that]) (simp add: level_order_ok_def order_ok_def)
  have "survivors_ok (resting b) (initial_match_state b t)"
    unfolding survivors_ok_def by (simp) (metis same_terms_refl)
  moreover have "makers_bounded (resting b) (initial_match_state b t)" using pos by (simp add: makers_bounded_def)
  moreover have "taker_accounted (resting b) t (initial_match_state b t)"
    using assms(2) unfolding taker_accounted_def by (intro exI [of _ "o_remaining t"]) (simp add: order_ok_def)
  moreover have "prices_ordered t (initial_match_state b t)" by (simp add: prices_ordered_def)
  moreover have "uniq (image_mset o_id (mset (resting b)))" using assms(1) uniq_resting by (auto simp: book_inv_def)
  ultimately show ?thesis using loop_inv_initial [OF assms] by (simp add: trading_inv_def)
qed

section \<open>The steps keep the trading facts\<close>

text \<open>A step that removes orders and fills nothing.\<close>

lemma survivors_shrink:
  assumes "survivors_ok ms st" and "set (resting (ms_book st')) \<subseteq> set (resting (ms_book st))"
    and "fills_of (ms_events st') = fills_of (ms_events st)"
  shows "survivors_ok ms st'"
  using assms unfolding survivors_ok_def by auto

lemma prices_shrink:
  assumes "prices_ordered t st" and "book_inv (ms_book st)" and "book_inv (ms_book st')"
    and "set (resting (ms_book st')) \<subseteq> set (resting (ms_book st))" and "fills_of (ms_events st') = fills_of (ms_events st)"
  shows "prices_ordered t st'"
proof -
  have "fst ` set (side_levels s (ms_book st')) \<subseteq> fst ` set (side_levels s (ms_book st))" for s
    using assms(4) by (auto simp: level_keys assms(2,3))
  from this [of "opposite (o_side t)"] assms(1) show ?thesis unfolding prices_ordered_def assms(5) by blast
qed

lemma candidate_origin:
  assumes "trading_inv ms t st" and "candidate st p maker rest"
  obtains m where "m \<in> set ms" and "same_terms m maker"
    and "o_remaining maker + maker_fills (o_id m) (fills_of (ms_events st)) = o_remaining m"
    and "o_id m = o_id maker" and "o_side m = opposite (o_side t)" and "o_price m = Some p" and "o_user_id m = o_user_id maker"
proof -
  have inv: "book_inv (ms_book st)" and s: "survivors_ok ms st" and tk: "o_side (ms_taker st) = o_side t"
    using assms(1) by (auto simp: trading_inv_def loop_inv_def taker_accounted_def)
  note mk = candidate_maker_ok [OF inv assms(2)]
  from s mk(4) obtain m where m: "m \<in> set ms" "same_terms m maker"
    "o_remaining maker + maker_fills (o_id m) (fills_of (ms_events st)) = o_remaining m" unfolding survivors_ok_def by blast
  with same_terms_fields [OF m(2)] mk tk that show thesis by simp
qed

lemma stp_step_trading:
  assumes inv: "trading_inv ms t st" and c: "candidate st p maker rest" and own: "o_user_id (ms_taker st) = o_user_id maker"
    and st': "st' = stp_pop_step st p maker rem" and rem: "0 \<le> rem" "rem \<le> o_remaining (ms_taker st)"
    and li: "loop_inv st'"
  shows "trading_inv ms t st'"
proof -
  have bi: "book_inv (ms_book st)" using inv by (simp add: trading_inv_def loop_inv_def)
  note e = stp_pop_step_effect [OF bi c st']
  have sub: "set (resting (ms_book st')) \<subseteq> set (resting (ms_book st))"
    using arg_cong [OF e(3), of set_mset] by auto
  from inv c obtain m where "m \<in> set ms" "o_side m = opposite (o_side t)" "o_user_id m = o_user_id maker"
    by (rule candidate_origin)
  moreover obtain r where r: "ms_taker st = t\<lparr>o_remaining := r\<rparr>" "r + fill_volume (fills_of (ms_events st)) \<le> o_remaining t"
    using inv by (auto simp: trading_inv_def taker_accounted_def)
  ultimately have "\<not> own_free ms t" using own by (auto simp: own_free_def)
  moreover have "rem + fill_volume (fills_of (ms_events st)) \<le> o_remaining t" using r rem(2) by simp
  moreover have "ms_taker st' = t\<lparr>o_remaining := rem\<rparr>" by (simp add: e(7) r(1))
  ultimately have "taker_accounted ms t st'" using rem(1) e(6) unfolding taker_accounted_def by (intro exI [of _ rem]) simp
  moreover have "prices_ordered t st" "survivors_ok ms st" using inv by (simp_all add: trading_inv_def)
  note prices_shrink [OF this(1) bi e(1) sub e(6)] survivors_shrink [OF this(2) sub e(6)]
  ultimately show ?thesis using inv e(6) li by (simp add: trading_inv_def makers_bounded_def)
qed

text \<open>Who still rests after a trade: the maker with less left, or an untouched order.\<close>

lemma trade_survivor:
  assumes inv: "book_inv (ms_book st)" and c: "candidate st p maker rest"
    and x: "x \<in> set (resting (fst (oco_after_fill st p maker)))"
  shows "x = maker\<lparr>o_remaining := o_remaining maker - trade_qty st maker\<rparr>
    \<or> x \<in> set (resting (ms_book st)) \<and> o_id x \<noteq> o_id maker"
proof -
  have in_fb: "x \<in># mset (resting (filled_book st p maker))"
    using mset_subset_eqD [OF oco_after_fill_effect(4) [OF inv c]] x by simp
  obtain K where K: "mset (resting (ms_book st)) = add_mset maker K"
    using candidate_maker_ok(4) [OF inv c] by (metis insert_DiffM set_mset_mset)
  have "uniq (image_mset o_id (mset (resting (ms_book st))))" using inv uniq_resting by (auto simp: book_inv_def)
  then have fresh: "o_id maker \<notin># image_mset o_id K" by (simp add: K uniq_add_mset)
  have "mset (resting (filled_book st p maker)) \<subseteq># add_mset (maker\<lparr>o_remaining := o_remaining maker - trade_qty st maker\<rparr>) K"
    using filled_book_effect(4) [OF inv c] by (simp add: K split: if_splits)
  from mset_subset_eqD [OF this in_fb] show ?thesis
  proof (simp, elim disjE)
    assume "x \<in># K"
    moreover from this fresh have "o_id x \<noteq> o_id maker" by (metis image_eqI set_image_mset)
    moreover have "x \<in># mset (resting (ms_book st))" using \<open>x \<in># K\<close> by (simp add: K)
    ultimately show ?thesis by simp
  qed simp
qed

lemma candidate_price_key:
  "book_inv (ms_book st) \<Longrightarrow> candidate st p maker rest \<Longrightarrow>
     p \<in> fst ` set (side_levels (opposite (o_side (ms_taker st))) (ms_book st))"
  unfolding candidate_def by (metis bt_get_None_iff option.distinct(1))

text \<open>The five facts after a trade, one at a time.\<close>

lemma trade_state:
  assumes "book_inv (ms_book st)" and "candidate st p maker rest" and "st' = fill_step st p (peeked_of maker)"
  shows "fills_of (ms_events st') = fills_of (ms_events st) @ [trade_fill st p maker]"
    and "ms_book st' = fst (oco_after_fill st p maker)"
    and "ms_taker st' = (ms_taker st)\<lparr>o_remaining := o_remaining (ms_taker st) - trade_qty st maker\<rparr>"
  using oco_after_fill_effect(3) [OF assms(1,2)] by (simp_all add: assms(3) fill_step_eq [OF assms(1,2)])

lemma trade_fill_sel [simp]:
  "f_maker_order_id (trade_fill st p maker) = o_id maker" "f_quantity (trade_fill st p maker) = trade_qty st maker"
  "f_price (trade_fill st p maker) = p" "f_taker_order_id (trade_fill st p maker) = o_id (ms_taker st)"
  "f_taker_side (trade_fill st p maker) = o_side (ms_taker st)"
  by (simp_all add: trade_fill_def)

lemma trading_inv_book: "trading_inv ms t st \<Longrightarrow> book_inv (ms_book st)"
  by (simp add: trading_inv_def loop_inv_def)

lemma trade_taker_accounted:
  assumes inv: "trading_inv ms t st" and c: "candidate st p maker rest" and st': "st' = fill_step st p (peeked_of maker)"
  shows "taker_accounted ms t st'"
proof -
  note bi = trading_inv_book [OF inv]
  obtain r where r: "ms_taker st = t\<lparr>o_remaining := r\<rparr>" "r + fill_volume (fills_of (ms_events st)) \<le> o_remaining t"
      "own_free ms t \<longrightarrow> r + fill_volume (fills_of (ms_events st)) = o_remaining t"
    using inv by (auto simp: trading_inv_def taker_accounted_def)
  with trade_qty_bounds(3) [OF bi c] show ?thesis
    unfolding taker_accounted_def trade_state [OF bi c st'] by (intro exI [of _ "r - trade_qty st maker"]) simp
qed

lemma trade_makers_bounded:
  assumes inv: "trading_inv ms t st" and c: "candidate st p maker rest" and st': "st' = fill_step st p (peeked_of maker)"
  shows "makers_bounded ms st'"
  unfolding makers_bounded_def
proof
  fix x assume x: "x \<in> set ms"
  note bi = trading_inv_book [OF inv]
  let ?fs = "fills_of (ms_events st)"
  note fs = trade_state(1) [OF bi c st']
  from inv c obtain m where m: "m \<in> set ms" "o_remaining maker + maker_fills (o_id m) ?fs = o_remaining m" "o_id m = o_id maker"
    by (rule candidate_origin)
  have uq: "uniq (image_mset o_id (mset ms))" using inv by (simp add: trading_inv_def)
  show "maker_fills (o_id x) (fills_of (ms_events st')) \<le> o_remaining x"
  proof (cases "o_id m = o_id x")
    case True
    then have mx: "m = x" using uniq_image_inj [OF uq, of m x] x m(1) by simp
    from m(2,3) trade_qty_bounds(2) [OF bi c] show ?thesis unfolding fs maker_fills_simps mx by (simp add: algebra_simps)
  next
    case False
    then have "maker_fills (o_id x) (fills_of (ms_events st')) = maker_fills (o_id x) ?fs" by (simp add: fs m(3))
    with inv x show ?thesis by (simp add: trading_inv_def makers_bounded_def)
  qed
qed

lemma trade_survivors_ok:
  assumes inv: "trading_inv ms t st" and c: "candidate st p maker rest" and st': "st' = fill_step st p (peeked_of maker)"
  shows "survivors_ok ms st'"
  unfolding survivors_ok_def
proof
  fix x assume x: "x \<in> set (resting (ms_book st'))"
  note bi = trading_inv_book [OF inv]
  let ?fs = "fills_of (ms_events st)"
  let ?m' = "maker\<lparr>o_remaining := o_remaining maker - trade_qty st maker\<rparr>"
  note fs = trade_state(1) [OF bi c st']
  from inv c obtain m where m: "m \<in> set ms" "same_terms m maker" "o_remaining maker + maker_fills (o_id m) ?fs = o_remaining m"
    "o_id m = o_id maker" by (rule candidate_origin)
  consider "x = ?m'" | "x \<in> set (resting (ms_book st))" "o_id x \<noteq> o_id maker"
    using trade_survivor [OF bi c, of x] x by (auto simp: trade_state(2) [OF bi c st'])
  then show "\<exists>m \<in> set ms. same_terms m x \<and> o_remaining x + maker_fills (o_id m) (fills_of (ms_events st')) = o_remaining m"
  proof cases
    case 1
    have "o_remaining x + maker_fills (o_id m) (fills_of (ms_events st')) = o_remaining m"
      using m(3,4) by (simp add: 1 fs algebra_simps)
    moreover have "same_terms m x" using m(2) by (simp add: 1)
    ultimately show ?thesis using m(1) by blast
  next
    case 2
    then obtain y where y: "y \<in> set ms" "same_terms y x" "o_remaining x + maker_fills (o_id y) ?fs = o_remaining y"
      using inv unfolding trading_inv_def survivors_ok_def by blast
    from 2(2) same_terms_fields(1) [OF y(2)] have "o_id maker \<noteq> o_id y" by auto
    then have "maker_fills (o_id y) (fills_of (ms_events st')) = maker_fills (o_id y) ?fs" by (simp add: fs)
    with y show ?thesis by auto
  qed
qed

lemma trade_prices_ordered:
  assumes inv: "trading_inv ms t st" and c: "candidate st p maker rest" and st': "st' = fill_step st p (peeked_of maker)"
    and li: "loop_inv st'"
  shows "prices_ordered t st'"
proof -
  note bi = trading_inv_book [OF inv]
  let ?fs = "fills_of (ms_events st)"
  let ?keys = "\<lambda>st. fst ` set (side_levels (opposite (o_side t)) (ms_book st))"
  have bi': "book_inv (ms_book st')" using li by (simp add: loop_inv_def)
  have side: "o_side (ms_taker st) = o_side t" using inv by (auto simp: trading_inv_def taker_accounted_def)
  have keys: "k \<in> ?keys st" if k: "k \<in> ?keys st'" for k
  proof -
    from k obtain x where x: "x \<in> set (resting (ms_book st'))" "o_side x = opposite (o_side t)" "o_price x = Some k"
      by (auto simp: level_keys [OF bi'])
    from trade_survivor [OF bi c, of x] x candidate_maker_ok(4) [OF bi c] show ?thesis
      unfolding level_keys [OF bi] trade_state(2) [OF bi c st'] by auto
  qed
  have old: "as_good (o_side t) (f_price f) k" if "f \<in> set ?fs" "k \<in> ?keys st" for f k
    using inv that unfolding trading_inv_def prices_ordered_def by blast
  have best: "as_good (o_side t) p k" if "k \<in> ?keys st" for k
    using best_opposite_as_good [OF bi _ that] c side by (simp add: candidate_def)
  have "sorted_wrt (as_good (o_side t)) (map f_price ?fs)" using inv by (simp add: trading_inv_def prices_ordered_def)
  moreover have "\<forall>f \<in> set ?fs. as_good (o_side t) (f_price f) p"
    using old candidate_price_key [OF bi c] side by simp
  ultimately have "sorted_wrt (as_good (o_side t)) (map f_price (?fs @ [trade_fill st p maker]))"
    by (simp add: sorted_wrt_append)
  moreover have "as_good (o_side t) (f_price f) k" if "f \<in> set (?fs @ [trade_fill st p maker])" "k \<in> ?keys st'" for f k
    using keys [OF that(2)] that(1) old best by (metis trade_fill_sel(3) Un_iff empty_iff empty_set list.set(2) set_append insertE)
  ultimately show ?thesis unfolding prices_ordered_def trade_state(1) [OF bi c st'] by blast
qed

lemma taker_price_satisfied_remaining [simp]:
  "taker_price_satisfied (t\<lparr>o_remaining := r\<rparr>) p = taker_price_satisfied t p"
  by (cases "o_price t"; cases "o_side t") (simp_all add: taker_price_satisfied_def)

lemma trade_fill_sound:
  assumes inv: "trading_inv ms t st" and c: "candidate st p maker rest" and other: "o_user_id (ms_taker st) \<noteq> o_user_id maker"
  shows "fill_sound ms t (trade_fill st p maker)"
proof -
  obtain r where r: "ms_taker st = t\<lparr>o_remaining := r\<rparr>" using inv by (auto simp: trading_inv_def taker_accounted_def)
  have "taker_price_satisfied t p" using c r by (simp add: candidate_def)
  moreover from inv c obtain m where "m \<in> set ms" "o_id m = o_id maker" "o_side m = opposite (o_side t)" "o_price m = Some p"
    "o_user_id m = o_user_id maker" by (rule candidate_origin)
  ultimately show ?thesis
    using other trade_qty_bounds(1) [OF trading_inv_book [OF inv] c] unfolding fill_sound_def by (auto simp: r)
qed

lemma trading_inv_step:
  assumes inv: "trading_inv ms t st" and step: "match_trans st st'"
  shows "trading_inv ms t st'"
proof -
  have li: "loop_inv st'" using inv step by (auto simp: trading_inv_def intro: loop_inv_step)
  from step show ?thesis
  proof (cases rule: match_transE)
    case (trade p maker rest)
    note new = trade_taker_accounted [OF inv trade(2,1)] trade_makers_bounded [OF inv trade(2,1)]
      trade_survivors_ok [OF inv trade(2,1)] trade_prices_ordered [OF inv trade(2,1) li] trade_fill_sound [OF inv trade(2,3)]
    with inv li show ?thesis
      by (simp add: trading_inv_def trade_state(1) [OF trading_inv_book [OF inv] trade(2,1)])
  next
    case (cancel_maker p maker rest)
    show ?thesis
      by (rule stp_step_trading [OF inv cancel_maker(2,3,1) _ _ li]) (use cancel_maker(2) in \<open>simp_all add: candidate_def\<close>)
  next
    case (decrement_maker p maker rest)
    have "0 < o_remaining maker"
      using candidate_maker_ok(1) [OF trading_inv_book [OF inv] decrement_maker(2)] by (simp add: order_ok_def)
    with decrement_maker(5) show ?thesis by (intro stp_step_trading [OF inv decrement_maker(2,3,1) _ _ li]) simp_all
  qed
qed

interpretation trading: invariant_system match_trans "trading_inv ms t"
  by unfold_locales (rule trading_inv_step)

section \<open>What one call of the loop trades\<close>

lemma run_matching_loop_trading:
  assumes inv: "book_inv b" "order_ok t" "o_id t \<notin># book_ids b" and run: "run_matching_loop b t = Some (b', evs, trig)"
  obtains st where "match_trans\<^sup>*\<^sup>* (initial_match_state b t) st" and "trading_inv (resting b) t st"
    and "fills_of evs = fills_of (ms_events st)"
proof -
  have li: "loop_inv (initial_match_state b t)" using inv by (rule loop_inv_initial)
  note start = trading_inv_initial [OF inv]
  from li run show thesis
  proof (cases rule: run_matching_loop_cases)
    case (finished st)
    from that [OF finished(1) trading.inv_steps [OF finished(1) start]] finish_match_effect(5) [OF finished(2-4)]
    show ?thesis by simp
  next
    case (stp st st')
    have bi: "book_inv (ms_book st)" using stp(2) by (simp add: loop_inv_def)
    from that [OF stp(1) trading.inv_steps [OF stp(1) start]] match_step_Return_effect(4) [OF bi stp(3)] stp(5)
    show ?thesis by simp
  qed
qed

text \<open>
  C3. Every fill of a pass through the matching loop is sound: its maker rested in the book on
  the opposite side at exactly the fill's price, the price is within the taker's limit, the
  quantity is positive, and maker and taker belong to different users.
\<close>

theorem run_matching_loop_fills_sound:
  assumes "book_inv b" and "order_ok t" and "o_id t \<notin># book_ids b" and "run_matching_loop b t = Some (b', evs, trig)"
  shows "\<forall>f \<in> set (fills_of evs). fill_sound (resting b) t f"
  using assms by (rule run_matching_loop_trading) (simp add: trading_inv_def)

text \<open>
  C4. No overfill: over one pass, the fills of a maker never exceed the quantity it had open,
  and the fills of the taker never exceed its own remaining quantity.
\<close>

theorem run_matching_loop_no_overfill:
  assumes "book_inv b" and "order_ok t" and "o_id t \<notin># book_ids b" and "run_matching_loop b t = Some (b', evs, trig)"
  shows "fill_volume (fills_of evs) \<le> o_remaining t
    \<and> (\<forall>m \<in> set (resting b). maker_fills (o_id m) (fills_of evs) \<le> o_remaining m)"
  using assms
  by (rule run_matching_loop_trading) (auto simp: trading_inv_def makers_bounded_def taker_accounted_def
      intro: order_trans [rotated] dest: add_increasing)


section \<open>The theorems on a concrete book\<close>

lemma sample_resting: "resting (sample_book :: 'd::linordered_idom order_book) = [sample_order 1 10 Sell Limit (Some 100) 5]"
  by (simp add: sample_book_def insert_maker_def resting_def book_new_def bucket_orders_def bt_entry_def bt_get_def)

theorem run_matching_loop_fills_sound_witness:
  "fill_sound (resting (sample_book :: int order_book)) (sample_order 2 20 Buy Limit (Some 101) 8)
     \<lparr>f_taker_order_id = 2, f_maker_order_id = 1, f_price = 100, f_quantity = 5, f_taker_side = Buy\<rparr>"
  by (rule sample_run) (drule run_matching_loop_fills_sound [rotated 3]; simp)

theorem run_matching_loop_no_overfill_witness:
  "\<exists>b' evs. run_matching_loop sample_book (sample_order 2 20 Buy Limit (Some 101) (8 :: int)) = Some (b', evs, [])
     \<and> fill_volume (fills_of evs) = 5 \<and> fill_volume (fills_of evs) \<le> 8 \<and> maker_fills 1 (fills_of evs) \<le> 5"
proof (rule sample_run)
  fix b' assume run: "run_matching_loop sample_book (sample_order 2 20 Buy Limit (Some 101) (8 :: int)) =
      Some (b', [Fill \<lparr>f_taker_order_id = 2, f_maker_order_id = 1, f_price = 100, f_quantity = 5, f_taker_side = Buy\<rparr>,
                 Rested 2 3], [])"
  from run_matching_loop_no_overfill [OF _ _ _ run] show ?thesis
    using run by (auto simp: sample_resting fill_volume_def)
qed


end
