(* ===== verification/Order_Types.thy ===== *)
theory Order_Types
  imports Trading
begin

text \<open>
  What the individual order types promise: post-only orders never take liquidity, market, IOC
  and FOK orders never rest, a fill-or-kill order fills completely or leaves the book alone,
  a cancel removes exactly the order and its linked leg. It also holds the read-only views of
  the book (depth, index).
\<close>

section \<open>Post-only\<close>

lemma would_cross_iff:
  assumes "book_inv b" and "o_price t = Some p"
  shows "would_cross_post_only b t \<longleftrightarrow>
    (\<exists>k. best_opposite_price b (o_side t) = Some k \<and> taker_price_satisfied t k)"
  using assms(2)
  by (cases "o_side t") (auto simp: would_cross_post_only_def best_ask_def best_bid_def taker_price_satisfied_def
      bt_first_def bt_last_def split: option.splits)

lemma run_matching_loop_exhausted:
  assumes "book_inv b" and "loop_exhausted (initial_match_state b t)"
  shows "run_matching_loop b t = Some (finish_match (initial_match_state b t))"
proof -
  have "match_step (initial_match_state b t) = Break" using match_step_Break [of "initial_match_state b t"] assms by simp
  then show ?thesis by (simp add: run_matching_loop_def match_iter.simps)
qed

lemma run_matching_loop_rests:
  assumes "book_inv b" and "loop_exhausted (initial_match_state b t)" and "0 < o_remaining t"
    and "o_type t \<in> {Limit, PostOnly, Iceberg, Oco}"
  shows "run_matching_loop b t = Some (insert_maker b t, [Rested (o_id t) (o_remaining t)], [])"
  unfolding run_matching_loop_exhausted [OF assms(1,2)] using assms(3,4)
  by (auto simp: finish_match_def finalize_taker_def Let_def trigger_after_def initial_match_state_def)

text \<open>
  C6. A post-only order never takes liquidity: when it would cross it is cancelled and the book
  is untouched, otherwise it rests in full and nothing else happens.
\<close>

theorem post_only_never_takes:
  assumes "book_inv b" and "order_ok t" and "o_type t = PostOnly" and "o_price t = Some p"
  shows "match_order b t = Some
    (if would_cross_post_only b t then (b, [Cancelled (o_id t) PostOnlyCrossed])
     else (insert_maker b t, [Rested (o_id t) (o_remaining t)]))"
proof (cases "would_cross_post_only b t")
  case True
  with assms(3) show ?thesis by (simp add: match_order_def pre_check_def)
next
  case False
  then have "loop_exhausted (initial_match_state b t)"
    using would_cross_iff [OF assms(1,4)] by (auto simp: loop_exhausted_def split: option.splits)
  with assms have run: "run_matching_loop b t = Some (insert_maker b t, [Rested (o_id t) (o_remaining t)], [])"
    by (intro run_matching_loop_rests) (auto simp: order_ok_def)
  from False assms(3) show ?thesis
    by (simp add: match_order_def pre_check_def is_stop_def work_loop.simps [of b] work_loop.simps [of _ "[]"] run
        MAX_STOP_CHAIN_DEPTH_def)
qed

section \<open>Orders that never rest\<close>

lemma finalize_immediate:
  "o_type t \<in> {Market, Ioc, Fok} \<Longrightarrow> fst (finalize_taker b t hf) = b"
  by (auto simp: finalize_taker_def)

lemma run_matching_loop_immediate:
  assumes inv: "book_inv b" "order_ok t" "o_id t \<notin># book_ids b" and ty: "o_type t \<in> {Market, Ioc, Fok}"
    and run: "run_matching_loop b t = Some (b', evs, trig)"
  shows "queue_ids trig + book_ids b' \<subseteq># book_ids b"
proof -
  have li: "loop_inv (initial_match_state b t)" using inv by (rule loop_inv_initial)
  from li run show ?thesis
  proof (cases rule: run_matching_loop_cases)
    case (finished st)
    note p = match_path_effect [OF finished(1) li]
    have bi: "book_inv (ms_book st)" using finished(2) by (simp add: loop_inv_def)
    have "o_type (ms_taker st) = o_type t" using p(4) by auto
    then have fin: "fst (finalize_taker (ms_book st) (ms_taker st) (ms_had_fills st)) = ms_book st"
      using ty by (intro finalize_immediate) simp
    obtain b2 oe where b2: "book_inv b2" "book_ids b2 \<subseteq># book_ids (ms_book st)"
      and trg: "trigger_after b2 (ms_last_trade_price st) = (b', trig)"
    proof -
      obtain c b2 oe where o: "(if c then maybe_cancel_oco (ms_book st) (o_id (ms_taker st)) else (ms_book st, [])) = (b2, oe)"
        and trg: "trigger_after b2 (ms_last_trade_price st) = (b', trig)"
        using finished(4) fin by (auto simp: finish_match_def Let_def split: prod.splits)
      from o maybe_cancel_oco_inv [OF bi] bi have "book_inv b2" "book_ids b2 \<subseteq># book_ids (ms_book st)"
        by (auto split: if_splits)
      with trg that show thesis by blast
    qed
    from b2(2) p(2) show ?thesis unfolding trigger_after_effect(2) [OF b2(1) trg] by (simp add: subset_mset.order_trans)
  next
    case (stp st st')
    have "book_inv (ms_book st)" using stp(2) by (simp add: loop_inv_def)
    note r = match_step_Return_effect [OF this stp(3)]
    from r(2) match_path_effect(2) [OF stp(1) li] show ?thesis
      unfolding trigger_after_effect(2) [OF r(1) stp(4)] by (simp add: subset_mset.order_trans)
  qed
qed

text \<open>The first pass of \<open>match_order\<close> is the incoming order's; triggered orders follow it.\<close>

lemma work_trans_out:
  "work_trans\<^sup>*\<^sup>* ws ws' \<Longrightarrow> \<exists>ext. snd (snd (snd ws')) = snd (snd (snd ws)) @ ext"
proof (induction rule: rtranclp_induct)
  case (step u v)
  from step.hyps(2) have "\<exists>ext. snd (snd (snd v)) = snd (snd (snd u)) @ ext" by (elim work_transE) auto
  with step.IH show ?case by auto
qed simp

lemma work_loop_first:
  assumes "work_loop b [t] 0 [] = Some (b', evs)"
  obtains b1 evs1 trig d d' more where "run_matching_loop b t = Some (b1, evs1, trig)"
    and "work_trans (b, [t], 0, []) (b1, trig, d, evs1 @ map (StopTriggered \<circ> o_id) trig)"
    and "work_trans\<^sup>*\<^sup>* (b1, trig, d, evs1 @ map (StopTriggered \<circ> o_id) trig) (b', [], d', evs)"
    and "evs = evs1 @ map (StopTriggered \<circ> o_id) trig @ more"
proof -
  from assms obtain b1 evs1 trig where run: "run_matching_loop b t = Some (b1, evs1, trig)"
    by (auto simp: work_loop.simps [of b "[t]"] bind_eq_Some_conv)
  let ?out = "evs1 @ map (StopTriggered \<circ> o_id) trig"
  let ?d = "saturating_depth 0 (length trig)"
  have deep: "0 < MAX_STOP_CHAIN_DEPTH" by (simp add: MAX_STOP_CHAIN_DEPTH_def)
  with assms run have "work_loop b1 trig ?d ?out = Some (b', evs)" by (simp add: work_loop.simps [of b "[t]"])
  then obtain d' where path: "work_trans\<^sup>*\<^sup>* (b1, trig, ?d, ?out) (b', [], d', evs)" using work_loop_path by blast
  from work_trans_out [OF path] obtain more where "evs = ?out @ more" by auto
  then show thesis using that [OF run _ path] work_trans.chained [OF run deep, of "[]" "[]"] by simp
qed

lemma immediate_ids:
  assumes inv: "book_inv b" "order_ok t" "o_id t \<notin># book_ids b" and ty: "o_type t \<in> {Market, Ioc, Fok}"
    and m: "match_order b t = Some (b', evs)"
  shows "book_ids b' \<subseteq># book_ids b"
  using m
proof (cases rule: match_order_cases)
  case (worked d)
  from worked(3) obtain b1 evs1 trig d d' where run: "run_matching_loop b t = Some (b1, evs1, trig)"
    and step: "work_trans (b, [t], 0, []) (b1, trig, d, evs1 @ map (StopTriggered \<circ> o_id) trig)"
    and path: "work_trans\<^sup>*\<^sup>* (b1, trig, d, evs1 @ map (StopTriggered \<circ> o_id) trig) (b', [], d', evs)"
    by (rule work_loop_first)
  have "work_inv (b1, trig, d, evs1 @ map (StopTriggered \<circ> o_id) trig)"
    using work_trans_effect(1) [OF work_inv_initial [OF inv] step] .
  from work_path_ids [OF path this] have "book_ids b' \<subseteq># queue_ids trig + book_ids b1" by (simp add: work_ids_def)
  then show ?thesis using run_matching_loop_immediate [OF inv ty run] by (rule subset_mset.order_trans)
qed (use ty in \<open>auto simp: is_stop_def\<close>)

text \<open>
  C7. Market, IOC and FOK orders never rest: whatever they trade and whatever stops they
  trigger, the order itself is not in the book afterwards.
\<close>

theorem immediate_orders_never_rest:
  assumes "book_inv b" and "order_ok t" and "o_id t \<notin># book_ids b" and "o_type t \<in> {Market, Ioc, Fok}"
    and "match_order b t = Some (b', evs)"
  shows "o_id t \<notin># book_ids b'"
  using immediate_ids [OF assms] assms(3) by (meson mset_subset_eqD)

text \<open>
  C8. No order appears from nowhere: after \<open>match_order\<close> the identifiers in the book are among
  those it held and the incoming one, each at most as often as before.
\<close>

theorem match_order_no_new_ids:
  assumes "book_inv b" and "order_ok t" and "o_id t \<notin># book_ids b" and "match_order b t = Some (b', evs)"
  shows "book_ids b' \<subseteq># add_mset (o_id t) (book_ids b)"
  using assms(4)
proof (cases rule: match_order_cases)
  case stop
  from register_stop_order_effect(2) [OF assms(1-3) stop(3)] show ?thesis .
next
  case (worked d)
  from work_path_ids [OF worked(4) work_inv_initial [OF assms(1-3)]] show ?thesis by (simp add: work_ids_def)
qed simp

section \<open>Fill-or-kill\<close>

text \<open>The quantity offered to \<open>t\<close> at prices it accepts.\<close>

definition offers :: "'d::linordered_idom order \<Rightarrow> 'd order \<Rightarrow> bool" where
  "offers t m \<longleftrightarrow> o_side m = opposite (o_side t)
     \<and> (case o_price m of None \<Rightarrow> False | Some p \<Rightarrow> taker_price_satisfied t p)"

definition available :: "'d::linordered_idom order list \<Rightarrow> 'd order \<Rightarrow> 'd" where
  "available ms t = sum_list (map o_remaining (filter (offers t) ms))"

lemma can_fill_loop_iff:
  assumes "sorted_wrt (\<lambda>e e'. \<not> sat (fst e) \<longrightarrow> \<not> sat (fst e')) m" and "\<forall>(p, q) \<in> set m. 0 \<le> queue_qty q" and "a < w"
  shows "can_fill_loop (\<lambda>p. \<not> sat p) w a m \<longleftrightarrow> w \<le> a + sum_list (map (\<lambda>(p, q). if sat p then queue_qty q else 0) m)"
  using assms
proof (induction m arbitrary: a)
  case (Cons e rest)
  obtain p q where e: "e = (p, q)" by fastforce
  let ?sum = "sum_list (map (\<lambda>(p, q). if sat p then queue_qty q else 0) rest)"
  have nonneg: "0 \<le> ?sum" using Cons.prems(2) by (intro sum_list_nonneg) auto
  show ?case
  proof (cases "sat p")
    case False
    with Cons.prems(1) have "?sum = sum_list (map (\<lambda>_. 0) rest)"
      by (intro arg_cong [where f = sum_list] map_cong) (auto simp: e)
    with False Cons.prems(3) show ?thesis by (simp add: e)
  next
    case True
    with Cons.prems Cons.IH [of "a + queue_qty q"] nonneg show ?thesis
      by (cases "w \<le> a + queue_qty q") (auto simp: e Let_def add.assoc intro: order_trans)
  qed
qed simp

lemma can_fully_fill_loop:
  "can_fully_fill b t = can_fill_loop (\<lambda>p. \<not> taker_price_satisfied t p) (o_remaining t) 0
     (if o_side t = Buy then asks b else rev (bids b))"
  by (cases "o_side t"; cases "o_price t") (simp_all add: can_fully_fill_def taker_price_satisfied_def not_le)

lemma sum_offers_levels:
  assumes "side_wf s m"
  shows "sum_list (map o_remaining (filter (\<lambda>x. o_side x = s' \<and> (case o_price x of None \<Rightarrow> False | Some p \<Rightarrow> P p)) (bucket_orders m)))
    = (if s' = s then sum_list (map (\<lambda>(p, q). if P p then queue_qty q else 0) m) else 0)"
  using assms
proof (induction m)
  case (Cons e m)
  obtain p q where e: "e = (p, q)" by fastforce
  have q: "\<forall>x \<in> set q. o_side x = s \<and> o_price x = Some p" and m: "side_wf s m"
    using Cons.prems by (auto simp: e side_wf_def level_order_ok_def bt_wf_Cons)
  then have "filter (\<lambda>x. o_side x = s' \<and> (case o_price x of None \<Rightarrow> False | Some p \<Rightarrow> P p)) q = (if s' = s \<and> P p then q else [])"
    by (auto simp: filter_empty_conv intro!: filter_True)
  with Cons.IH [OF m] show ?case by (auto simp: e bucket_orders_def queue_qty_def)
qed (simp add: bucket_orders_def)

lemma available_levels:
  assumes "book_inv b"
  shows "available (resting b) t =
    sum_list (map (\<lambda>(p, q). if taker_price_satisfied t p then queue_qty q else 0) (side_levels (opposite (o_side t)) b))"
proof -
  have wf: "side_wf s (side_levels s b)" for s using assms by (simp add: book_inv_def)
  note sums = sum_offers_levels [OF wf [of Buy], where s' = "opposite (o_side t)"]
    sum_offers_levels [OF wf [of Sell], where s' = "opposite (o_side t)"]
  show ?thesis
    unfolding available_def resting_def offers_def by (cases "o_side t") (use sums in \<open>simp_all\<close>)
qed

lemma can_fully_fill_iff:
  assumes "book_inv b" and "0 < o_remaining t"
  shows "can_fully_fill b t \<longleftrightarrow> o_remaining t \<le> available (resting b) t"
proof -
  let ?m = "side_levels (opposite (o_side t)) b"
  have wf: "side_wf (opposite (o_side t)) ?m" using assms(1) by (simp add: book_inv_def)
  have srt: "sorted_wrt (\<lambda>e e'. fst e < fst e') ?m"
    using wf by (simp add: side_wf_def bt_wf_def bt_keys_def strict_sorted_iff sorted_wrt_map)
  have "0 \<le> queue_qty q" if "(p, q) \<in> set ?m" for p q
  proof -
    have "\<forall>x \<in> set q. 0 \<le> o_remaining x"
      using wf that unfolding side_wf_def level_order_ok_def order_ok_def by (fastforce intro: less_imp_le)
    then show ?thesis by (auto simp: queue_qty_def intro!: sum_list_nonneg)
  qed
  then have nonneg: "\<forall>(p, q) \<in> set ?m. 0 \<le> queue_qty q" by blast
  show ?thesis
  proof (cases "o_side t")
    case Buy
    have "sorted_wrt (\<lambda>e e'. \<not> taker_price_satisfied t (fst e) \<longrightarrow> \<not> taker_price_satisfied t (fst e')) ?m"
      by (rule sorted_wrt_mono_rel [OF _ srt]) (auto simp: taker_price_satisfied_def Buy split: option.splits)
    from can_fill_loop_iff [OF this nonneg assms(2)] show ?thesis
      by (simp add: can_fully_fill_loop Buy available_levels [OF assms(1)])
  next
    case Sell
    have "sorted_wrt (\<lambda>e e'. \<not> taker_price_satisfied t (fst e) \<longrightarrow> \<not> taker_price_satisfied t (fst e')) (rev ?m)"
      unfolding sorted_wrt_rev
      by (rule sorted_wrt_mono_rel [OF _ srt]) (auto simp: taker_price_satisfied_def Sell split: option.splits)
    moreover have "\<forall>(p, q) \<in> set (rev ?m). 0 \<le> queue_qty q" using nonneg by simp
    ultimately have "can_fill_loop (\<lambda>p. \<not> taker_price_satisfied t p) (o_remaining t) 0 (rev ?m) \<longleftrightarrow>
      o_remaining t \<le> 0 + sum_list (map (\<lambda>(p, q). if taker_price_satisfied t p then queue_qty q else 0) (rev ?m))"
      using assms(2) by (rule can_fill_loop_iff)
    then show ?thesis by (simp add: can_fully_fill_loop Sell available_levels [OF assms(1)] rev_map [symmetric])
  qed
qed

text \<open>
  The pre-check of a fill-or-kill order is exact: it rejects if and only if the resting
  orders of the opposite side at acceptable prices sum to less than the wanted quantity.
\<close>

theorem fok_pre_check_exact:
  assumes "book_inv b" and "order_ok t" and "o_type t = Fok"
  shows "pre_check b t = (if available (resting b) t < o_remaining t then Some (Cancelled (o_id t) FokUnfilled) else None)"
  using can_fully_fill_iff [OF assms(1), of t] assms(2,3) by (auto simp: pre_check_def order_ok_def)

lemma available_mset: "available ms t = sum_mset (image_mset o_remaining (filter_mset (offers t) (mset ms)))"
  unfolding available_def by (metis mset_filter mset_map sum_mset_sum_list)

lemma offers_remaining [simp]: "offers t (m\<lparr>o_remaining := r\<rparr>) = offers t m"
  by (simp add: offers_def)

lemma offers_taker_remaining [simp]: "offers (t\<lparr>o_remaining := r\<rparr>) = offers t"
  by (auto simp: offers_def fun_eq_iff split: option.splits)

definition unlinked :: "'d::linordered_idom order \<Rightarrow> 'd order_book \<Rightarrow> bool" where
  "unlinked t b \<longleftrightarrow> (\<forall>m \<in> set (resting b). o_side m = opposite (o_side t) \<longrightarrow> oco_links b (o_id m) = None)"

definition fok_inv :: "'d::linordered_idom order list \<Rightarrow> 'd order \<Rightarrow> 'd match_state \<Rightarrow> bool" where
  "fok_inv ms t st \<longleftrightarrow> trading_inv ms t st \<and> own_free ms t \<and> unlinked t (ms_book st)
     \<and> available (resting (ms_book st)) t + fill_volume (fills_of (ms_events st)) = available ms t"

lemma own_free_candidate:
  assumes "trading_inv ms t st" and "own_free ms t" and "candidate st p maker rest"
  shows "o_user_id (ms_taker st) \<noteq> o_user_id maker"
proof -
  from assms(1,3) obtain m where "m \<in> set ms" "o_side m = opposite (o_side t)" "o_user_id m = o_user_id maker"
    by (rule candidate_origin)
  moreover have "o_user_id (ms_taker st) = o_user_id t" using assms(1) by (auto simp: trading_inv_def taker_accounted_def)
  ultimately show ?thesis using assms(2) by (auto simp: own_free_def)
qed

lemma fok_trade:
  assumes inv: "fok_inv ms t st" and c: "candidate st p maker rest" and st': "st' = fill_step st p (peeked_of maker)"
  shows "unlinked t (ms_book st')"
    and "available (resting (ms_book st')) t + fill_volume (fills_of (ms_events st')) = available ms t"
proof -
  have tr: "trading_inv ms t st" using inv by (simp add: fok_inv_def)
  note bi = trading_inv_book [OF tr]
  have tk: "o_side (ms_taker st) = o_side t" "taker_price_satisfied t p"
    using tr c by (auto simp: trading_inv_def taker_accounted_def candidate_def)
  note mk = candidate_maker_ok [OF bi c]
  let ?q = "trade_qty st maker"
  have off: "offers t maker" using mk tk by (simp add: offers_def)
  have "oco_links (ms_book st) (o_id maker) = None" using inv mk(2,4) tk(1) by (simp add: fok_inv_def unlinked_def)
  then have b': "ms_book st' = filled_book st p maker"
    using oco_after_fill_effect(6) [OF bi c] trade_state(2) [OF bi c st'] by simp
  note f = filled_book_effect [OF bi c]
  have "x \<in> set (resting (ms_book st')) \<Longrightarrow> \<exists>y \<in> set (resting (ms_book st)). o_id y = o_id x \<and> o_side y = o_side x" for x
    using trade_survivor [OF bi c, of x] trade_state(2) [OF bi c st'] mk(4) by auto
  then show "unlinked t (ms_book st')" using inv f(5) unfolding fok_inv_def unlinked_def b' by metis
  have "available (resting (ms_book st')) t + o_remaining maker = available (resting (ms_book st)) t + (o_remaining maker - ?q)"
    using arg_cong [OF f(4), of "\<lambda>M. sum_mset (image_mset o_remaining (filter_mset (offers t) M))"] off
    by (simp add: b' available_mset split: if_splits)
  moreover have "available (resting (ms_book st)) t + fill_volume (fills_of (ms_events st)) = available ms t"
    using inv by (simp add: fok_inv_def)
  ultimately show "available (resting (ms_book st')) t + fill_volume (fills_of (ms_events st')) = available ms t"
    by (simp add: trade_state(1) [OF bi c st'] algebra_simps)
qed

lemma fok_inv_step:
  assumes "fok_inv ms t st" and step: "match_trans st st'"
  shows "fok_inv ms t st'"
proof -
  have tr: "trading_inv ms t st" and own: "own_free ms t" using assms(1) by (auto simp: fok_inv_def)
  note tr' = trading_inv_step [OF tr step]
  from step show ?thesis
  proof (cases rule: match_transE)
    case (trade p maker rest)
    from fok_trade [OF assms(1) trade(2,1)] tr' own show ?thesis by (simp add: fok_inv_def)
  qed (use own_free_candidate [OF tr own] in blast)+
qed

interpretation fok: invariant_system match_trans "fok_inv ms t"
  by unfold_locales (rule fok_inv_step)

lemma exhausted_available:
  assumes "book_inv (ms_book st)" and "loop_exhausted st" and "0 < o_remaining (ms_taker st)"
  shows "available (resting (ms_book st)) (ms_taker st) = 0"
proof -
  have "\<not> offers (ms_taker st) m" if "m \<in> set (resting (ms_book st))" for m
  proof
    assume "offers (ms_taker st) m"
    then obtain p where p: "o_side m = opposite (o_side (ms_taker st))" "o_price m = Some p"
      "taker_price_satisfied (ms_taker st) p" by (auto simp: offers_def split: option.splits)
    with that have "p \<in> fst ` set (side_levels (opposite (o_side (ms_taker st))) (ms_book st))"
      unfolding level_keys [OF assms(1)] by blast
    with exhausted_uncrossed [OF assms] p(3) show False by blast
  qed
  then show ?thesis by (simp add: available_def)
qed

text \<open>
  C8. A fill-or-kill order that passes the pre-check fills completely, provided the opposite
  side holds no order of the same user and no leg of an OCO pair (the two things the
  pre-check does not look at).
\<close>

theorem fok_fills_completely:
  assumes inv: "book_inv b" "order_ok t" "o_id t \<notin># book_ids b" and fits: "can_fully_fill b t"
    and own: "own_free (resting b) t" and links: "unlinked t b"
    and run: "run_matching_loop b t = Some (b', evs, trig)"
  shows "fill_volume (fills_of evs) = o_remaining t"
proof -
  have li: "loop_inv (initial_match_state b t)" using inv by (rule loop_inv_initial)
  have start: "fok_inv (resting b) t (initial_match_state b t)"
    using trading_inv_initial [OF inv] own links by (simp add: fok_inv_def)
  from li run show ?thesis
  proof (cases rule: run_matching_loop_cases)
    case (finished st)
    have fi: "fok_inv (resting b) t st" by (rule fok.inv_steps [OF finished(1) start])
    then obtain r where r: "ms_taker st = t\<lparr>o_remaining := r\<rparr>" "0 \<le> r" "r + fill_volume (fills_of (ms_events st)) = o_remaining t"
      by (auto simp: fok_inv_def trading_inv_def taker_accounted_def)
    have "r = 0"
    proof (rule ccontr)
      assume "r \<noteq> 0"
      with r(1,2) have pos: "0 < o_remaining (ms_taker st)" by simp
      have "book_inv (ms_book st)" using finished(2) by (simp add: loop_inv_def)
      from exhausted_available [OF this finished(3) pos] have "available (resting (ms_book st)) t = 0"
        by (simp add: r(1) available_def)
      with fi have "fill_volume (fills_of (ms_events st)) = available (resting b) t" by (simp add: fok_inv_def)
      moreover have "o_remaining t \<le> available (resting b) t"
        using can_fully_fill_iff [OF inv(1)] fits inv(2) by (simp add: order_ok_def)
      ultimately show False using r(2,3) \<open>r \<noteq> 0\<close> by simp
    qed
    with r(3) finish_match_effect(5) [OF finished(2-4)] show ?thesis by simp
  next
    case (stp st st')
    have fi: "fok_inv (resting b) t st" by (rule fok.inv_steps [OF stp(1) start])
    have bi: "book_inv (ms_book st)" using stp(2) by (simp add: loop_inv_def)
    from bi stp(3) obtain p maker rest where "candidate st p maker rest" "o_user_id (ms_taker st) = o_user_id maker"
      by (rule match_step_Return)
    with fi own_free_candidate [of "resting b" t st] show ?thesis by (auto simp: fok_inv_def)
  qed
qed

section \<open>Stops after a trade\<close>

definition last_price_ok :: "'d::linordered_idom match_state \<Rightarrow> bool" where
  "last_price_ok st \<longleftrightarrow> loop_inv st \<and> ms_last_trade_price st =
     (if fills_of (ms_events st) = [] then None else Some (f_price (last (fills_of (ms_events st)))))"

lemma last_price_step:
  assumes "last_price_ok st" and "match_trans st st'"
  shows "last_price_ok st'"
proof -
  have li: "loop_inv st'" using assms loop_inv_step by (auto simp: last_price_ok_def)
  have bi: "book_inv (ms_book st)" using assms(1) by (simp add: last_price_ok_def loop_inv_def)
  from assms(2) show ?thesis
  proof (cases rule: match_transE)
    case (trade p maker rest)
    have "ms_last_trade_price st' = Some p" by (simp add: trade(1) fill_step_eq [OF bi trade(2)])
    with li show ?thesis by (simp add: last_price_ok_def trade_state(1) [OF bi trade(2,1)])
  qed (use assms(1) li in \<open>simp_all add: last_price_ok_def stp_pop_step_def\<close>)
qed

interpretation last_price: invariant_system match_trans last_price_ok
  by unfold_locales (rule last_price_step)

text \<open>
  Stop triggering is complete and exact: after a pass that traded, every stop left in the
  registry is on the untriggered side of the last trade price, and every order handed back
  is the active form (never again a stop) of a well-formed order.
\<close>

theorem run_matching_loop_settles_stops:
  assumes inv: "book_inv b" "order_ok t" "o_id t \<notin># book_ids b" and run: "run_matching_loop b t = Some (b', evs, trig)"
    and traded: "fills_of evs \<noteq> []"
  shows "(\<forall>s \<in> set (stop_orders (stops b')). \<not> stop_triggered_by (f_price (last (fills_of evs))) s)
    \<and> (\<forall>s \<in> set trig. order_ok s \<and> \<not> is_stop (o_type s))"
proof -
  have li: "loop_inv (initial_match_state b t)" using inv by (rule loop_inv_initial)
  have start: "last_price_ok (initial_match_state b t)" using li by (simp add: last_price_ok_def)
  have "\<forall>s \<in> set (stop_orders (stops b')). \<not> stop_triggered_by (f_price (last (fills_of evs))) s"
    using li run
  proof (cases rule: run_matching_loop_cases)
    case (finished st)
    note f = finish_match_effect [OF finished(2-4)]
    from last_price.inv_steps [OF finished(1) start] traded f(5)
    have "ms_last_trade_price st = Some (f_price (last (fills_of evs)))" by (simp add: last_price_ok_def)
    with f(6) show ?thesis by blast
  next
    case (stp st st')
    have "book_inv (ms_book st)" using stp(2) by (simp add: loop_inv_def)
    note r = match_step_Return_effect [OF this stp(3)]
    from last_price.inv_steps [OF stp(1) start] traded r(4,5) stp(5)
    have "ms_last_trade_price st' = Some (f_price (last (fills_of evs)))" by (simp add: last_price_ok_def)
    with trigger_after_effect(5) [OF r(1) stp(4)] show ?thesis by blast
  qed
  with run_matching_loop_effect(3) [OF inv run] show ?thesis by blast
qed

section \<open>What the checks do not cover\<close>

text \<open>An order at the front of the best level whose displayed slice is zero.\<close>

definition zero_slice :: "'d::linordered_idom match_state \<Rightarrow> bool" where
  "zero_slice st \<longleftrightarrow> (\<exists>p maker. candidate st p maker [] \<and> o_display_qty maker = Some 0 \<and> 0 < o_remaining maker
     \<and> o_user_id (ms_taker st) \<noteq> o_user_id maker)"

lemma bt_ends_keys:
  assumes "map fst m = map fst m'"
  shows "bt_first m = bt_first m'" and "bt_last m = bt_last m'"
proof -
  have "bt_first m = (if map fst m = [] then None else Some (hd (map fst m)))"
    "bt_last m = (if map fst m = [] then None else Some (last (map fst m)))" for m :: "('a \<times> 'c) list"
    by (cases m; simp add: bt_first_def bt_last_def last_map)+
  moreover have "bt_first m = (if map fst m = [] then None else Some (hd (map fst m)))"
    "bt_last m = (if map fst m = [] then None else Some (last (map fst m)))" for m :: "('a \<times> 'b) list"
    by (cases m; simp add: bt_first_def bt_last_def last_map)+
  ultimately show "bt_first m = bt_first m'" "bt_last m = bt_last m'" using assms by presburger+
qed

lemma zero_slice_step:
  assumes "zero_slice st"
  shows "\<exists>st'. match_step st = Continue st' \<and> zero_slice st'"
proof -
  from assms obtain p maker where c: "candidate st p maker []" and z: "o_display_qty maker = Some 0" "0 < o_remaining maker"
    "o_user_id (ms_taker st) \<noteq> o_user_id maker" by (auto simp: zero_slice_def)
  let ?s = "opposite (o_side (ms_taker st))"
  let ?st = "fill_step st p (peeked_of maker)"
  have get: "bt_get (side_levels ?s (ms_book st)) p = Some [maker]" and rem: "0 < o_remaining (ms_taker st)"
    using c by (simp_all add: candidate_def)
  have vis: "visible_qty maker = 0" using z by (simp add: visible_qty_def)
  have book: "ms_book ?st = put_level (ms_book st) ?s p [maker]" and tk: "ms_taker ?st = ms_taker st"
    using get z rem by (simp_all add: fill_step_def Let_def vis apply_fill_to_maker_def)
  have keys: "map fst (side_levels s (ms_book ?st)) = map fst (side_levels s (ms_book st))" for s
    by (simp add: book replace_level_def)
  have "best_opposite_price (ms_book ?st) (o_side (ms_taker st)) = best_opposite_price (ms_book st) (o_side (ms_taker st))"
    using keys [of ?s] bt_ends_keys by (cases "o_side (ms_taker st)") auto
  moreover have "bt_get (side_levels ?s (ms_book ?st)) p = Some [maker]"
    using get by (simp add: book replace_level_def level_simps)
  ultimately have "candidate ?st p maker []" using c by (simp add: candidate_def tk)
  with z tk have "zero_slice ?st" unfolding zero_slice_def by metis
  moreover have "match_step st = Continue ?st" using z(3) by (simp add: match_step_candidate [OF c])
  ultimately show ?thesis by blast
qed

text \<open>
  A resting order whose display quantity is zero, alone at the best price of its side, makes
  the matching loop run forever: an incoming order of another user that accepts the price is
  filled with quantity zero again and again, and \<open>match_order\<close> does not return.
\<close>

theorem zero_display_never_returns:
  assumes "candidate (initial_match_state b t) p maker []" and "o_display_qty maker = Some 0" and "0 < o_remaining maker"
    and "o_user_id t \<noteq> o_user_id maker" and "o_type t \<in> {Limit, Market, Ioc, Iceberg, Oco}"
  shows "match_order b t = None"
proof -
  have start: "zero_slice (initial_match_state b t)" using assms(1-4) by (auto simp: zero_slice_def)
  have "match_iter (initial_match_state b t) = None"
  proof (rule ccontr)
    assume "match_iter (initial_match_state b t) \<noteq> None"
    then obtain r st' where it: "match_iter (initial_match_state b t) = Some (r, st')" by auto
    have "\<exists>s. (\<lambda>_ _. True)\<^sup>*\<^sup>* (initial_match_state b t) s \<and> zero_slice s
      \<and> (if r then match_step s = Return st' else s = st' \<and> match_step st' = Break)"
      using it _ start by (rule match_iter_steps) (use zero_slice_step in fastforce)
    then show False using zero_slice_step by (metis loop_step.distinct(1,5))
  qed
  then have "run_matching_loop b t = None" by (simp add: run_matching_loop_def)
  with assms(5) show ?thesis by (auto simp: match_order_def pre_check_def is_stop_def work_loop.simps)
qed

section \<open>The theorems on concrete books\<close>

theorem post_only_never_takes_witness:
  "match_order sample_book (sample_order 2 20 Buy PostOnly (Some 101) (8 :: int)) = Some (sample_book, [Cancelled 2 PostOnlyCrossed])"
proof -
  have "would_cross_post_only sample_book (sample_order 2 20 Buy PostOnly (Some 101) (8 :: int))" by code_simp
  with post_only_never_takes [OF sample_book_inv, of "sample_order 2 20 Buy PostOnly (Some 101) (8 :: int)"] show ?thesis by simp
qed

lemma sample_market_order:
  obtains b' where "match_order sample_book (sample_order 2 20 Buy Market None (8 :: int)) =
    Some (b', [Fill \<lparr>f_taker_order_id = 2, f_maker_order_id = 1, f_price = 100, f_quantity = 5, f_taker_side = Buy\<rparr>,
               Cancelled 2 NoLiquidity])"
proof -
  have "map_option snd (match_order sample_book (sample_order 2 20 Buy Market None (8 :: int))) =
      Some [Fill \<lparr>f_taker_order_id = 2, f_maker_order_id = 1, f_price = 100, f_quantity = 5, f_taker_side = Buy\<rparr>,
            Cancelled 2 NoLiquidity]" by code_simp
  then show thesis using that by auto
qed

theorem immediate_orders_never_rest_witness:
  "\<exists>b' evs. match_order sample_book (sample_order 2 20 Buy Market None (8 :: int)) = Some (b', evs) \<and> 2 \<notin># book_ids b'"
proof (rule sample_market_order)
  fix b' assume run: "match_order sample_book (sample_order 2 20 Buy Market None (8 :: int)) =
    Some (b', [Fill \<lparr>f_taker_order_id = 2, f_maker_order_id = 1, f_price = 100, f_quantity = 5, f_taker_side = Buy\<rparr>,
               Cancelled 2 NoLiquidity])"
  from immediate_orders_never_rest [OF _ _ _ _ run] run show ?thesis by simp
qed

theorem match_order_no_new_ids_witness:
  "\<exists>b' evs. match_order sample_book (sample_order 2 20 Buy Market None (8 :: int)) = Some (b', evs) \<and> book_ids b' \<subseteq># {#2, 1#}"
proof (rule sample_market_order)
  fix b' assume run: "match_order sample_book (sample_order 2 20 Buy Market None (8 :: int)) =
    Some (b', [Fill \<lparr>f_taker_order_id = 2, f_maker_order_id = 1, f_price = 100, f_quantity = 5, f_taker_side = Buy\<rparr>,
               Cancelled 2 NoLiquidity])"
  from match_order_no_new_ids [OF _ _ _ run] run show ?thesis by simp
qed

theorem fok_pre_check_exact_witness:
  "pre_check sample_book (sample_order 2 20 Buy Fok (Some 101) (8 :: int)) = Some (Cancelled 2 FokUnfilled)
   \<and> pre_check sample_book (sample_order 2 20 Buy Fok (Some 101) (4 :: int)) = None"
  using fok_pre_check_exact [OF sample_book_inv, of "sample_order 2 20 Buy Fok (Some 101) (8 :: int)"]
    fok_pre_check_exact [OF sample_book_inv, of "sample_order 2 20 Buy Fok (Some 101) (4 :: int)"]
  by (simp add: sample_resting available_def offers_def taker_price_satisfied_def)

theorem fok_fills_completely_witness:
  "\<exists>b' evs. run_matching_loop sample_book (sample_order 2 20 Buy Fok (Some 101) (4 :: int)) = Some (b', evs, [])
     \<and> fill_volume (fills_of evs) = 4"
proof -
  have "map_option (snd \<circ> snd) (run_matching_loop sample_book (sample_order 2 20 Buy Fok (Some 101) (4 :: int))) = Some []"
    by code_simp
  then obtain b' evs where run: "run_matching_loop sample_book (sample_order 2 20 Buy Fok (Some 101) (4 :: int)) = Some (b', evs, [])"
    by auto
  have "can_fully_fill sample_book (sample_order 2 20 Buy Fok (Some 101) (4 :: int))" by code_simp
  moreover have "oco_links (sample_book :: int order_book) 1 = None"
    by (simp add: sample_book_def insert_maker_def book_new_def)
  ultimately show ?thesis
    using fok_fills_completely [OF _ _ _ _ _ _ run] run by (simp add: own_free_def unlinked_def sample_resting)
qed

theorem run_matching_loop_settles_stops_witness:
  "\<exists>b' evs. run_matching_loop sample_book (sample_order 2 20 Buy Limit (Some 101) (8 :: int)) = Some (b', evs, [])
     \<and> (\<forall>s \<in> set (stop_orders (stops b')). \<not> stop_triggered_by 100 s)"
proof (rule sample_run)
  fix b' assume run: "run_matching_loop sample_book (sample_order 2 20 Buy Limit (Some 101) (8 :: int)) =
      Some (b', [Fill \<lparr>f_taker_order_id = 2, f_maker_order_id = 1, f_price = 100, f_quantity = 5, f_taker_side = Buy\<rparr>,
                 Rested 2 3], [])"
  from run_matching_loop_settles_stops [OF _ _ _ run] show ?thesis using run by auto
qed

theorem zero_display_never_returns_witness:
  "match_order (insert_maker book_new ((sample_order 1 10 Sell Limit (Some 100) 5)\<lparr>o_display_qty := Some 0\<rparr>))
     (sample_order 2 20 Buy Limit (Some 101) (8 :: int)) = None"
proof -
  let ?maker = "(sample_order 1 10 Sell Limit (Some 100) 5)\<lparr>o_display_qty := Some 0\<rparr> :: int order"
  let ?b = "insert_maker book_new ?maker"
  have "candidate (initial_match_state ?b (sample_order 2 20 Buy Limit (Some 101) 8)) 100 ?maker []"
    by (simp add: candidate_def insert_maker_def book_new_def bt_entry_def bt_get_def bt_first_def taker_price_satisfied_def)
  from zero_display_never_returns [OF this] show ?thesis by simp
qed

text \<open>
  The pre-check counts the taker's own orders, which self-trade prevention then removes
  instead of trading: here a fill-or-kill order for 8 passes the pre-check against 5 of
  another user and 3 of its own, trades 5 and is cancelled.
\<close>

theorem fok_partial_fill_with_own_order:
  "map_option snd (match_order (insert_maker sample_book (sample_order 3 20 Sell Limit (Some 101) 3))
     (sample_order 2 20 Buy Fok (Some 101) (8 :: int))) =
   Some [Fill \<lparr>f_taker_order_id = 2, f_maker_order_id = 1, f_price = 100, f_quantity = 5, f_taker_side = Buy\<rparr>,
         Cancelled 3 SelfTradePrevented, Cancelled 2 SelfTradePrevented]"
  by code_simp

end
