(* ===== verification/Framing.thy ===== *)
theory Framing
  imports Prelude
begin

text \<open>
  Length-prefixed records: the \<open>u32\<close> length in little-endian order for the command log
  (\<open>core/src/wal.rs\<close>), in big-endian order for the event log (\<open>server/src/event_log.rs\<close>) and for
  the TCP frames (\<open>proto/src/framing.rs\<close>). A reader is the list of bytes still to be read. The
  payload codecs (bincode, serde\_json) are parameters.
\<close>

unbundle bit_operations_syntax

section \<open>The length prefix\<close>

definition u32_to_le_bytes :: "32 word \<Rightarrow> u8 list" where
  "u32_to_le_bytes w = [ucast w, ucast (drop_bit 8 w), ucast (drop_bit 16 w), ucast (drop_bit 24 w)]"

fun u32_from_le_bytes :: "u8 list \<Rightarrow> 32 word" where
  "u32_from_le_bytes [a, b, c, d] =
     ucast a OR push_bit 8 (ucast b) OR push_bit 16 (ucast c) OR push_bit 24 (ucast d)"
| "u32_from_le_bytes _ = 0"

definition u32_to_be_bytes :: "32 word \<Rightarrow> u8 list" where
  "u32_to_be_bytes w = rev (u32_to_le_bytes w)"

definition u32_from_be_bytes :: "u8 list \<Rightarrow> 32 word" where
  "u32_from_be_bytes bs = u32_from_le_bytes (rev bs)"

lemma u32_le_roundtrip: "u32_from_le_bytes (u32_to_le_bytes w) = w"
proof (rule bit_word_eqI)
  fix n assume "n < LENGTH(32)"
  then have "n < 32" by simp
  then consider "n < 8" | "8 \<le> n" "n < 16" | "16 \<le> n" "n < 24" | "24 \<le> n" "n < 32" by linarith
  then show "bit (u32_from_le_bytes (u32_to_le_bytes w)) n \<longleftrightarrow> bit w n"
    by cases (auto simp: u32_to_le_bytes_def bit_simps)
qed

lemma u32_be_roundtrip: "u32_from_be_bytes (u32_to_be_bytes w) = w"
  by (simp add: u32_from_be_bytes_def u32_to_be_bytes_def u32_le_roundtrip)

section \<open>Reading one record\<close>

datatype io_error = UnexpectedEof | InvalidData

definition read_exact :: "nat \<Rightarrow> u8 list \<Rightarrow> (u8 list \<times> u8 list) option" where
  "read_exact n reader = (if n \<le> length reader then Some (take n reader, drop n reader) else None)"

text \<open>\<open>read_one_entry\<close> and \<open>read_one_event\<close> share this shape; they differ in the byte order of the length.\<close>

definition read_record ::
  "(u8 list \<Rightarrow> 32 word) \<Rightarrow> (u8 list \<Rightarrow> 'e option) \<Rightarrow> u8 list \<Rightarrow> io_error + ('e \<times> u8 list) option" where
  "read_record from_bytes deserialize reader =
     (case read_exact 4 reader of
        None \<Rightarrow> Inr None
      | Some (len_buf, reader1) \<Rightarrow>
          (case read_exact (unat (from_bytes len_buf)) reader1 of
             None \<Rightarrow> Inl UnexpectedEof
           | Some (payload, reader2) \<Rightarrow>
               (case deserialize payload of
                  None \<Rightarrow> Inl InvalidData
                | Some entry \<Rightarrow> Inr (Some (entry, reader2)))))"

lemma read_record_shrinks:
  "read_record fb des r = Inr (Some (e, r')) \<Longrightarrow> \<exists>n \<ge> 4. r' = drop n r \<and> n \<le> length r"
proof -
  assume "read_record fb des r = Inr (Some (e, r'))"
  then have "4 \<le> length r" "r' = drop (unat (fb (take 4 r))) (drop 4 r)" "unat (fb (take 4 r)) \<le> length (drop 4 r)"
    by (auto simp: read_record_def read_exact_def split: if_splits option.splits)
  then show ?thesis by (intro exI [of _ "4 + unat (fb (take 4 r))"]) (auto simp: ac_simps)
qed

section \<open>Replaying a log file\<close>

text \<open>
  The loop of \<open>Wal::replay\<close> and \<open>EventLog::replay\<close>: the entries read and the file as it is left,
  cut back to the last good position when a record cannot be read.
\<close>

function replay_loop ::
  "(u8 list \<Rightarrow> 32 word) \<Rightarrow> (u8 list \<Rightarrow> 'e option) \<Rightarrow> u8 list \<Rightarrow> nat \<Rightarrow> nat \<Rightarrow> 'e list \<Rightarrow> 'e list \<times> u8 list" where
  "replay_loop from_bytes deserialize file pos last_good_pos entries =
     (case read_record from_bytes deserialize (drop pos file) of
        Inr (Some (entry, reader)) \<Rightarrow>
          (let pos' = length file - length reader
           in replay_loop from_bytes deserialize file pos' pos' (entries @ [entry]))
      | Inr None \<Rightarrow> (entries, file)
      | Inl _ \<Rightarrow> (entries, take last_good_pos file))"
  by pat_completeness auto

termination
proof (relation "measure (\<lambda>(_, _, file, pos, _, _). length file - pos)", simp, goal_cases)
  case (1 fb des cont pos lg entries x2 x2a e r pos')
  then obtain n where "4 \<le> n" "r = drop n (drop pos cont)" "n \<le> length (drop pos cont)"
    using read_record_shrinks by metis
  with 1 show ?case by simp
qed

declare replay_loop.simps [simp del]

definition replay_file ::
  "(u8 list \<Rightarrow> 32 word) \<Rightarrow> (u8 list \<Rightarrow> 'e option) \<Rightarrow> u8 list option \<Rightarrow> 'e list \<times> u8 list option" where
  "replay_file from_bytes deserialize file =
     (case file of
        None \<Rightarrow> ([], None)
      | Some content \<Rightarrow>
          (let (entries, content') = replay_loop from_bytes deserialize content 0 0 [] in (entries, Some content')))"

section \<open>The record format as an interface\<close>

text \<open>What the logs rely on: four bytes of length, which decode to the length they encode.\<close>

locale length_prefix =
  fixes to_bytes :: "32 word \<Rightarrow> u8 list" and from_bytes :: "u8 list \<Rightarrow> 32 word"
  assumes length_to_bytes: "length (to_bytes w) = 4"
    and from_to_bytes: "from_bytes (to_bytes w) = w"
begin

definition record_of :: "u8 list \<Rightarrow> u8 list" where
  "record_of payload = to_bytes (of_nat (length payload)) @ payload"

definition log_of :: "u8 list list \<Rightarrow> u8 list" where
  "log_of payloads = concat (map record_of payloads)"

lemma unat_length: "length p < 2 ^ 32 \<Longrightarrow> unat (of_nat (length p) :: 32 word) = length p"
  by (simp add: unat_of_nat take_bit_nat_eq_self)

lemma read_record_of:
  assumes "length p < 2 ^ 32"
  shows "read_record from_bytes des (record_of p @ rest) =
    (case des p of None \<Rightarrow> Inl InvalidData | Some e \<Rightarrow> Inr (Some (e, rest)))"
  using assms by (simp add: read_record_def read_exact_def record_of_def length_to_bytes from_to_bytes unat_length)

text \<open>A record cut short: nothing of the length prefix, or a whole prefix and too little payload.\<close>

lemma read_record_short: "length torn < 4 \<Longrightarrow> read_record from_bytes des torn = Inr None"
  by (simp add: read_record_def read_exact_def)

lemma read_record_torn:
  assumes "length p < 2 ^ 32" and "4 \<le> n" and "n < length (record_of p)"
  shows "read_record from_bytes des (take n (record_of p)) = Inl UnexpectedEof"
  using assms by (auto simp: read_record_def read_exact_def record_of_def length_to_bytes from_to_bytes unat_length
      take_append min_def)

lemma replay_loop_log:
  assumes "list_all2 (\<lambda>p e. length p < 2 ^ 32 \<and> des p = Some e) ps es"
  shows "replay_loop from_bytes des (pre @ log_of ps @ torn) (length pre) (length pre) acc =
    replay_loop from_bytes des (pre @ log_of ps @ torn) (length (pre @ log_of ps)) (length (pre @ log_of ps)) (acc @ es)"
  using assms
proof (induction arbitrary: pre acc rule: list_all2_induct)
  case (Cons p ps e es)
  let ?content = "pre @ log_of (p # ps) @ torn"
  have content: "?content = (pre @ record_of p) @ log_of ps @ torn" by (simp add: log_of_def)
  have "read_record from_bytes des (drop (length pre) ?content) = Inr (Some (e, log_of ps @ torn))"
    using read_record_of [of p des "log_of ps @ torn"] Cons.hyps(1) by (simp add: log_of_def)
  then have "replay_loop from_bytes des ?content (length pre) (length pre) acc =
      replay_loop from_bytes des ?content (length (pre @ record_of p)) (length (pre @ record_of p)) (acc @ [e])"
    unfolding replay_loop.simps [of _ _ ?content "length pre"] by (simp add: log_of_def Let_def)
  with Cons.IH [of "pre @ record_of p" "acc @ [e]"] show ?case unfolding content by (simp add: log_of_def)
qed (simp add: log_of_def)

lemma log_of_append: "log_of (ps @ qs) = log_of ps @ log_of qs"
  by (simp add: log_of_def)

text \<open>What a replay recovers from a log whose last record may be cut short.\<close>

lemma replay_torn_log:
  assumes "list_all2 (\<lambda>p e. length p < 2 ^ 32 \<and> des p = Some e) ps es"
    and "length p < 2 ^ 32" and "n < length (record_of p)"
  shows "replay_file from_bytes des (Some (log_of ps @ take n (record_of p))) =
    (es, Some (if n < 4 then log_of ps @ take n (record_of p) else log_of ps))"
proof -
  let ?torn = "take n (record_of p)"
  let ?content = "log_of ps @ ?torn"
  have "replay_loop from_bytes des ?content 0 0 [] =
      replay_loop from_bytes des ?content (length (log_of ps)) (length (log_of ps)) es"
    using replay_loop_log [OF assms(1), of "[]" ?torn "[]"] by simp
  moreover have "read_record from_bytes des (drop (length (log_of ps)) ?content) =
      (if n < 4 then Inr None else Inl UnexpectedEof)"
    using assms(2,3) read_record_torn [of p n des] read_record_short [of ?torn des] by auto
  ultimately show ?thesis by (simp add: replay_file_def replay_loop.simps [of _ _ ?content "length (log_of ps)"])
qed

lemma replay_clean_log:
  assumes "list_all2 (\<lambda>p e. length p < 2 ^ 32 \<and> des p = Some e) ps es"
  shows "replay_file from_bytes des (Some (log_of ps)) = (es, Some (log_of ps))"
  using replay_torn_log [OF assms, of "[]" 0] by (simp add: record_of_def length_to_bytes)

end

interpretation le: length_prefix u32_to_le_bytes u32_from_le_bytes
  by unfold_locales (simp add: u32_to_le_bytes_def, rule u32_le_roundtrip)

interpretation be: length_prefix u32_to_be_bytes u32_from_be_bytes
  by unfold_locales (simp add: u32_to_be_bytes_def u32_to_le_bytes_def, rule u32_be_roundtrip)

section \<open>TCP frames\<close>

definition MAX_FRAME_BYTES :: nat where
  "MAX_FRAME_BYTES = 1024 * 1024"

datatype frame_error =
  FrameTooLarge (frame_length: nat) (frame_max: nat)
| FrameIo io_error
| FrameJson

text \<open>
  \<open>read_json_frame\<close>: the first byte decides between a closed connection and a frame, the other
  three bytes of the length, the size limit, the payload, the JSON codec \<open>from_slice\<close>.
\<close>

definition read_json_frame :: "(u8 list \<Rightarrow> 'f option) \<Rightarrow> u8 list \<Rightarrow> frame_error + ('f \<times> u8 list) option" where
  "read_json_frame from_slice reader =
     (case read_exact 1 reader of
        None \<Rightarrow> Inr None
      | Some (first, reader1) \<Rightarrow>
          (case read_exact 3 reader1 of
             None \<Rightarrow> Inl (FrameIo UnexpectedEof)
           | Some (others, reader2) \<Rightarrow>
               (let len = unat (u32_from_be_bytes (first @ others))
                in if MAX_FRAME_BYTES < len then Inl (FrameTooLarge len MAX_FRAME_BYTES)
                   else case read_exact len reader2 of
                          None \<Rightarrow> Inl (FrameIo UnexpectedEof)
                        | Some (payload, reader3) \<Rightarrow>
                            (case from_slice payload of
                               None \<Rightarrow> Inl FrameJson
                             | Some frame \<Rightarrow> Inr (Some (frame, reader3))))))"

text \<open>\<open>write_json_frame\<close>: the bytes appended to the stream.\<close>

definition write_json_frame :: "('f \<Rightarrow> u8 list option) \<Rightarrow> 'f \<Rightarrow> u8 list \<Rightarrow> frame_error + u8 list" where
  "write_json_frame to_vec frame writer =
     (case to_vec frame of
        None \<Rightarrow> Inl FrameJson
      | Some payload \<Rightarrow>
          if MAX_FRAME_BYTES < length payload then Inl (FrameTooLarge (length payload) MAX_FRAME_BYTES)
          else if 2 ^ 32 \<le> length payload then Inl (FrameTooLarge (length payload) MAX_FRAME_BYTES)
          else Inr (writer @ u32_to_be_bytes (of_nat (length payload)) @ payload))"

text \<open>Reading the four bytes of the length in two steps is reading them at once.\<close>

lemma read_json_frame_record:
  assumes "length p \<le> MAX_FRAME_BYTES"
  shows "read_json_frame fs (be.record_of p @ rest) =
    (case fs p of None \<Rightarrow> Inl FrameJson | Some f \<Rightarrow> Inr (Some (f, rest)))"
proof -
  have small: "length p < 2 ^ 32" using assms by (simp add: MAX_FRAME_BYTES_def)
  obtain a b c d where bytes: "u32_to_be_bytes (of_nat (length p)) = [a, b, c, d]"
    by (simp add: u32_to_be_bytes_def u32_to_le_bytes_def)
  then have "u32_from_be_bytes [a, b, c, d] = of_nat (length p)" using u32_be_roundtrip by metis
  with be.unat_length [OF small] assms show ?thesis
    by (simp add: read_json_frame_def be.record_of_def bytes read_exact_def Let_def)
qed

text \<open>
  C14. Frames round trip: a frame that \<open>write_json_frame\<close> accepts is read back by
  \<open>read_json_frame\<close> unchanged, and exactly its bytes are consumed, so a stream of frames is
  read back in order. The JSON codec is assumed to read what it wrote.
\<close>

theorem json_frame_roundtrip:
  assumes codec: "\<And>f p. to_vec f = Some p \<Longrightarrow> from_slice p = Some f"
    and wr: "write_json_frame to_vec frame [] = Inr bytes"
  shows "read_json_frame from_slice (bytes @ rest) = Inr (Some (frame, rest))"
proof -
  from wr obtain p where p: "to_vec frame = Some p" "length p \<le> MAX_FRAME_BYTES" "bytes = be.record_of p"
    by (auto simp: write_json_frame_def be.record_of_def split: option.splits if_splits)
  from read_json_frame_record [OF p(2), of from_slice rest] codec [OF p(1)] show ?thesis by (simp add: p(3))
qed

theorem json_frame_roundtrip_witness:
  "\<exists>bytes. write_json_frame Some [104, 105] [] = Inr bytes \<and> bytes = [0, 0, 0, 2, 104, 105]
     \<and> read_json_frame Some (bytes @ [7]) = Inr (Some ([104, 105], [7]))"
proof -
  have wr: "write_json_frame Some [104, 105] [] = Inr ([0, 0, 0, 2, 104, 105] :: u8 list)"
    by (simp add: write_json_frame_def MAX_FRAME_BYTES_def u32_to_be_bytes_def u32_to_le_bytes_def)
  from json_frame_roundtrip [OF _ wr, of Some "[7]"] wr show ?thesis by simp
qed

text \<open>
  The frame limit: a frame whose announced length exceeds \<open>MAX_FRAME_BYTES\<close> is refused before
  its payload is read, whatever bytes follow, and every frame that is accepted carries at most
  that many payload bytes.
\<close>

theorem oversized_frame_refused:
  "(MAX_FRAME_BYTES < unat len \<longrightarrow>
      read_json_frame from_slice (u32_to_be_bytes len @ rest) = Inl (FrameTooLarge (unat len) MAX_FRAME_BYTES))
   \<and> (read_json_frame from_slice reader = Inr (Some (frame, reader')) \<longrightarrow>
        (\<exists>payload. from_slice payload = Some frame \<and> length payload \<le> MAX_FRAME_BYTES
           \<and> length reader = 4 + length payload + length reader'))"
proof (intro conjI impI)
  assume big: "MAX_FRAME_BYTES < unat len"
  obtain a b c d where bytes: "u32_to_be_bytes len = [a, b, c, d]"
    by (simp add: u32_to_be_bytes_def u32_to_le_bytes_def)
  then have "u32_from_be_bytes [a, b, c, d] = len" using u32_be_roundtrip by metis
  with big show "read_json_frame from_slice (u32_to_be_bytes len @ rest) = Inl (FrameTooLarge (unat len) MAX_FRAME_BYTES)"
    by (simp add: read_json_frame_def bytes read_exact_def Let_def)
next
  assume read: "read_json_frame from_slice reader = Inr (Some (frame, reader'))"
  let ?len = "unat (u32_from_be_bytes (take 1 reader @ take 3 (drop 1 reader)))"
  from read have "1 \<le> length reader" "3 \<le> length (drop 1 reader)" "?len \<le> MAX_FRAME_BYTES"
    "?len \<le> length (drop 3 (drop 1 reader))" "from_slice (take ?len (drop 3 (drop 1 reader))) = Some frame"
    "reader' = drop ?len (drop 3 (drop 1 reader))"
    unfolding read_json_frame_def read_exact_def Let_def
    by (auto split: if_splits option.splits simp del: drop_drop)
  then show "\<exists>payload. from_slice payload = Some frame \<and> length payload \<le> MAX_FRAME_BYTES
      \<and> length reader = 4 + length payload + length reader'"
    by (intro exI [of _ "take ?len (drop 3 (drop 1 reader))"]) auto
qed

theorem oversized_frame_refused_witness:
  "read_json_frame Some (u32_to_be_bytes 2000000 @ [1, 2]) = Inl (FrameTooLarge 2000000 MAX_FRAME_BYTES)"
  using oversized_frame_refused [of 2000000 Some "[1, 2]"] by (simp add: MAX_FRAME_BYTES_def)

end
