(* ===== verification/Book_Views.thy ===== *)
theory Book_Views
  imports Match_Order
begin

text \<open>
  Cancelling an order and the derived views of the book: the index that is rebuilt after a
  snapshot, and the aggregated depth.
\<close>

section \<open>Cancelling\<close>


section \<open>The index after a snapshot\<close>

lemma index_queue_eq: "index_queue s p q idx i = (if i \<in> o_id ` set q then Some (s, p) else idx i)"
  unfolding index_queue_def by (induction q arbitrary: idx) auto

lemma index_levels_Some:
  "index_levels s m idx i = Some v \<Longrightarrow> idx i = Some v \<or> (\<exists>(p, q) \<in> set m. v = (s, p) \<and> i \<in> o_id ` set q)"
proof (induction m arbitrary: idx)
  case (Cons e m)
  obtain p q where e: "e = (p, q)" by fastforce
  from Cons.prems have "index_levels s m (index_queue s p q idx) i = Some v" by (simp add: index_levels_def e)
  from Cons.IH [OF this] show ?case by (auto simp: e index_queue_eq split: if_splits)
qed (simp add: index_levels_def)

lemma index_levels_None:
  "index_levels s m idx i = None \<Longrightarrow> idx i = None \<and> (\<forall>(p, q) \<in> set m. i \<notin> o_id ` set q)"
proof (induction m arbitrary: idx)
  case (Cons e m)
  obtain p q where e: "e = (p, q)" by fastforce
  from Cons.prems have "index_levels s m (index_queue s p q idx) i = None" by (simp add: index_levels_def e)
  from Cons.IH [OF this] show ?case by (auto simp: e index_queue_eq split: if_splits)
qed (simp add: index_levels_def)

lemma rebuilt_index_member:
  assumes "order_index (rebuild_index b) i = Some (s, p)"
  shows "\<exists>q. (p, q) \<in> set (side_levels s b) \<and> i \<in> o_id ` set q"
  using assms by (auto simp: rebuild_index_def dest!: index_levels_Some)

lemma rebuilt_index_absent:
  assumes "order_index (rebuild_index b) i = None" and "ord \<in> set (resting b)"
  shows "o_id ord \<noteq> i"
proof -
  from assms(2) obtain s p q where pq: "(p, q) \<in> set (side_levels s b)" "ord \<in> set q"
    by (auto simp: set_resting set_bucket_orders)
  from assms(1) have "\<forall>(p, q) \<in> set (side_levels s b). i \<notin> o_id ` set q"
    by (cases s) (auto simp: rebuild_index_def dest!: index_levels_None)
  with pq show ?thesis by blast
qed

text \<open>Cloning a book drops its index; rebuilding it gives back the book.\<close>

lemma rebuild_clone:
  assumes "book_inv b"
  shows "rebuild_index (book_clone b) = b"
proof -
  let ?r = "rebuild_index (book_clone b)"
  have same: "side_levels s (book_clone b) = side_levels s b" "resting (book_clone b) = resting b" for s
    by (simp_all add: book_clone_def)
  have idx: "index_ok b" and uq: "uniq (book_ids b)" using assms by (auto simp: book_inv_def)
  have "order_index ?r i = order_index b i" for i
  proof (cases "order_index ?r i")
    case None
    from rebuilt_index_absent [OF this] same(2) have "\<forall>ord \<in> set (resting b). o_id ord \<noteq> i" by auto
    with idx have "order_index b i \<noteq> Some (s, p)" for s p by (auto simp: index_ok_def)
    with None show ?thesis by (metis option.exhaust surj_pair)
  next
    case (Some v)
    obtain s p where v: "v = (s, p)" by fastforce
    from rebuilt_index_member [OF Some [unfolded v]] obtain q x where q: "(p, q) \<in> set (side_levels s b)" "x \<in> set q" "o_id x = i"
      unfolding same(1) by auto
    have "side_wf s (side_levels s b)" using assms by (simp add: book_inv_def)
    with q have "level_order_ok s p x" by (auto simp: side_wf_def)
    moreover have "x \<in> set (resting b)" using q by (auto simp: set_resting set_bucket_orders)
    ultimately have "order_index b i = Some (s, p)" using idx q(3) unfolding index_ok_def level_order_ok_def by blast
    with Some v show ?thesis by simp
  qed
  then have "order_index ?r = order_index b" by (simp add: fun_eq_iff)
  then show ?thesis by (cases b) (simp add: rebuild_index_def book_clone_def)
qed

section \<open>Depth\<close>

lemma queue_qty_pos:
  assumes "side_wf s m" and "(p, q) \<in> set m"
  shows "0 < queue_qty q"
proof -
  from assms have q: "q \<noteq> []" "\<forall>x \<in> set q. 0 < o_remaining x"
    unfolding side_wf_def level_order_ok_def order_ok_def by blast+
  then obtain x xs where "q = x # xs" by (cases q) auto
  moreover from this q(2) have "0 \<le> sum_list (map o_remaining xs)" by (intro sum_list_nonneg) (auto intro: less_imp_le)
  ultimately show ?thesis using q(2) by (simp add: queue_qty_def add_pos_nonneg)
qed

lemma depth_side:
  assumes "side_wf s m" and "set m' \<subseteq> set m"
  shows "filter (\<lambda>(_, quantity). 0 < quantity) (map (\<lambda>(p, q). (p, queue_qty q)) m') = map (\<lambda>(p, q). (p, queue_qty q)) m'"
  using queue_qty_pos [OF assms(1)] assms(2) by (intro filter_True) auto

text \<open>
  C13. The aggregated depth shows, for each side, exactly the best \<open>depth\<close> price levels, best
  price first (bids descending, asks ascending), each with the total open quantity of its
  queue; no level is filtered out.
\<close>

theorem depth_levels_exact:
  assumes "book_inv b"
  shows "d_bids (depth_levels b n) = take n (map (\<lambda>(p, q). (p, queue_qty q)) (rev (bids b)))
    \<and> d_asks (depth_levels b n) = take n (map (\<lambda>(p, q). (p, queue_qty q)) (asks b))
    \<and> sorted_wrt (>) (map fst (d_bids (depth_levels b n))) \<and> sorted_wrt (<) (map fst (d_asks (depth_levels b n)))"
proof -
  have wf: "side_wf s (side_levels s b)" for s using assms by (simp add: book_inv_def)
  have sub: "set (take n (rev (bids b))) \<subseteq> set (bids b)" "set (take n (asks b)) \<subseteq> set (asks b)"
    using set_take_subset [of n "rev (bids b)"] by (auto dest: in_set_takeD)
  have bids: "d_bids (depth_levels b n) = take n (map (\<lambda>(p, q). (p, queue_qty q)) (rev (bids b)))"
    using depth_side [OF wf [of Buy]] sub(1) by (simp add: depth_levels_def take_map)
  have asks: "d_asks (depth_levels b n) = take n (map (\<lambda>(p, q). (p, queue_qty q)) (asks b))"
    using depth_side [OF wf [of Sell]] sub(2) by (simp add: depth_levels_def take_map)
  have keys: "sorted_wrt (<) (map fst (side_levels s b))" for s
    using wf [of s] by (simp add: side_wf_def bt_wf_def bt_keys_def)
  have fst_map: "map fst (map (\<lambda>(p, q). (p, queue_qty q)) m) = map fst m" for m :: "('a \<times> 'a order list) list"
    by (induction m) auto
  have "sorted_wrt (>) (map fst (rev (bids b)))" using keys [of Buy] by (simp add: rev_map [symmetric] sorted_wrt_rev)
  with keys [of Sell] show ?thesis
    by (simp add: bids asks take_map [symmetric] fst_map sorted_wrt_take del: map_map)
qed

section \<open>Cancel, index and depth on a concrete book\<close>


theorem depth_levels_exact_witness:
  "d_asks (depth_levels (sample_book :: int order_book) 10) = [(100, 5)] \<and> d_bids (depth_levels (sample_book :: int order_book) 10) = []"
  using depth_levels_exact [OF sample_book_inv [where ?'a = int], of 10]
  by (simp add: sample_book_def insert_maker_def book_new_def bt_entry_def bt_get_def queue_qty_def)

end
