(* ===== verification/Wal.thy ===== *)
theory Wal
  imports Framing Book_Views
begin

text \<open>
  The write-ahead log of commands and the book snapshots (\<open>engine/crates/core/src/wal.rs\<close>). The
  file is its list of bytes; \<open>bincode::serialize\<close> and \<open>bincode::deserialize\<close> are the parameters
  \<open>ser\<close> and \<open>des\<close>. Failures of the file system are not modelled.
\<close>

datatype 'd wal_command = PlaceOrder "'d order" | CancelOrder uuid

record 'd wal_entry =
  e_seq :: u64
  e_command :: "'d wal_command"

record wal =
  wal_content :: "u8 list"
  wal_sequence :: u64

definition read_one_entry :: "(u8 list \<Rightarrow> 'd wal_entry option) \<Rightarrow> u8 list \<Rightarrow> io_error + ('d wal_entry \<times> u8 list) option" where
  "read_one_entry des reader = read_record u32_from_le_bytes des reader"

definition wal_replay :: "(u8 list \<Rightarrow> 'd wal_entry option) \<Rightarrow> u8 list option \<Rightarrow> 'd wal_entry list \<times> u8 list option" where
  "wal_replay des path = replay_file u32_from_le_bytes des path"

definition find_last_seq :: "'d wal_entry list \<Rightarrow> u64" where
  "find_last_seq entries = (if entries = [] then 0 else e_seq (last entries))"

text \<open>\<open>Wal::open\<close>: the replay may cut the file back before it is opened for appending.\<close>

definition wal_open :: "(u8 list \<Rightarrow> 'd wal_entry option) \<Rightarrow> u8 list option \<Rightarrow> wal" where
  "wal_open des path =
     (let (entries, path') = wal_replay des path
      in \<lparr>wal_content = (case path' of None \<Rightarrow> [] | Some content \<Rightarrow> content), wal_sequence = find_last_seq entries\<rparr>)"

definition wal_append :: "('d wal_entry \<Rightarrow> u8 list option) \<Rightarrow> wal \<Rightarrow> 'd wal_command \<Rightarrow> wal \<times> (io_error + unit)" where
  "wal_append ser w command =
     (let w1 = w\<lparr>wal_sequence := wal_sequence w + 1\<rparr>;
          entry = \<lparr>e_seq = wal_sequence w1, e_command = command\<rparr>
      in case ser entry of
           None \<Rightarrow> (w1, Inl InvalidData)
         | Some bytes \<Rightarrow>
             if 2 ^ 32 \<le> length bytes then (w1, Inl InvalidData)
             else (w1\<lparr>wal_content := wal_content w1 @ u32_to_le_bytes (of_nat (length bytes)) @ bytes\<rparr>, Inr ()))"

text \<open>\<open>Snapshot::save\<close> and \<open>Snapshot::load\<close>; the order index is marked \<open>serde(skip)\<close>.\<close>

definition snapshot_save :: "(u64 \<times> 'd order_book \<Rightarrow> u8 list option) \<Rightarrow> u64 \<Rightarrow> 'd order_book \<Rightarrow> io_error + u8 list" where
  "snapshot_save ser seq book = (case ser (seq, book) of None \<Rightarrow> Inl InvalidData | Some bytes \<Rightarrow> Inr bytes)"

definition snapshot_load :: "(u8 list \<Rightarrow> (u64 \<times> 'd order_book) option) \<Rightarrow> u8 list \<Rightarrow> io_error + u64 \<times> 'd order_book" where
  "snapshot_load des bytes = (case des bytes of None \<Rightarrow> Inl InvalidData | Some (seq, book) \<Rightarrow> Inr (seq, book))"

section \<open>A log and the commands in it\<close>

text \<open>On the entries \<open>es\<close> the codec reads what it wrote, and none is too long for the length prefix.\<close>

definition entry_codec ::
  "('d wal_entry \<Rightarrow> u8 list option) \<Rightarrow> (u8 list \<Rightarrow> 'd wal_entry option) \<Rightarrow> 'd wal_entry list \<Rightarrow> bool" where
  "entry_codec ser des es \<longleftrightarrow>
     (\<forall>e \<in> set es. case ser e of None \<Rightarrow> False | Some p \<Rightarrow> des p = Some e \<and> length p < 2 ^ 32)"

definition payload_of :: "('d wal_entry \<Rightarrow> u8 list option) \<Rightarrow> 'd wal_entry \<Rightarrow> u8 list" where
  "payload_of ser e = (case ser e of None \<Rightarrow> [] | Some p \<Rightarrow> p)"

text \<open>The specification: the entries that appending \<open>cmds\<close> to an empty log records.\<close>

fun entries_from :: "u64 \<Rightarrow> 'd wal_command list \<Rightarrow> 'd wal_entry list" where
  "entries_from n [] = []"
| "entries_from n (c # cs) = \<lparr>e_seq = n, e_command = c\<rparr> # entries_from (n + 1) cs"

definition wal_append_all :: "('d wal_entry \<Rightarrow> u8 list option) \<Rightarrow> wal \<Rightarrow> 'd wal_command list \<Rightarrow> wal" where
  "wal_append_all ser w cmds = foldl (\<lambda>w c. fst (wal_append ser w c)) w cmds"

lemma entry_codec_Cons:
  assumes "entry_codec ser des (e # es)"
  shows "entry_codec ser des [e]" and "entry_codec ser des es"
  using assms unfolding entry_codec_def by auto

lemma payloads_decode:
  "entry_codec ser des es \<Longrightarrow>
     list_all2 (\<lambda>p e. length p < 2 ^ 32 \<and> des p = Some e) (map (payload_of ser) es) es"
  by (induction es) (auto simp: entry_codec_def payload_of_def split: option.splits)

lemma wal_append_ok:
  assumes "entry_codec ser des [\<lparr>e_seq = wal_sequence w + 1, e_command = c\<rparr>]"
  shows "wal_append ser w c = (\<lparr>wal_content = wal_content w @ le.record_of (payload_of ser \<lparr>e_seq = wal_sequence w + 1, e_command = c\<rparr>),
    wal_sequence = wal_sequence w + 1\<rparr>, Inr ())"
  using assms by (auto simp: wal_append_def Let_def payload_of_def le.record_of_def entry_codec_def split: option.splits)

lemma wal_append_all_content:
  assumes "entry_codec ser des (entries_from (wal_sequence w + 1) cmds)"
  shows "wal_append_all ser w cmds =
    \<lparr>wal_content = wal_content w @ le.log_of (map (payload_of ser) (entries_from (wal_sequence w + 1) cmds)),
     wal_sequence = wal_sequence w + of_nat (length cmds)\<rparr>"
  using assms
proof (induction cmds arbitrary: w)
  case (Cons c cs)
  have ok: "entry_codec ser des [\<lparr>e_seq = wal_sequence w + 1, e_command = c\<rparr>]"
    using Cons.prems unfolding entries_from.simps by (rule entry_codec_Cons(1))
  have "wal_append_all ser w (c # cs) = wal_append_all ser (fst (wal_append ser w c)) cs"
    by (simp add: wal_append_all_def)
  moreover have "entry_codec ser des (entries_from (wal_sequence (fst (wal_append ser w c)) + 1) cs)"
    using entry_codec_Cons(2) [OF Cons.prems [unfolded entries_from.simps]] by (simp add: wal_append_ok [OF ok])
  ultimately show ?case using Cons.IH [of "fst (wal_append ser w c)"] by (simp add: wal_append_ok [OF ok] le.log_of_def add.assoc)
qed (simp add: wal_append_all_def le.log_of_def)

lemma entries_from_last:
  "cmds \<noteq> [] \<Longrightarrow> e_seq (last (entries_from n cmds)) = n + of_nat (length cmds) - 1"
proof (induction n cmds rule: entries_from.induct)
  case (2 n c cs)
  then show ?case by (cases cs) (auto simp: algebra_simps)
qed simp

lemma entries_from_Nil_iff [simp]: "entries_from n cmds = [] \<longleftrightarrow> cmds = []"
  by (cases cmds) simp_all

text \<open>
  C10. The command log round trips: after any sequence of appends to a new log, a replay
  returns exactly those commands in order, numbered from 1, leaves the file alone, and
  reopening the log continues the numbering where it stopped.
\<close>

theorem wal_append_replay:
  assumes codec: "entry_codec ser des (entries_from 1 cmds)" and w: "w = wal_append_all ser (wal_open des None) cmds"
  shows "wal_replay des (Some (wal_content w)) = (entries_from 1 cmds, Some (wal_content w))
    \<and> wal_open des (Some (wal_content w)) = w"
proof -
  have start: "wal_open des None = \<lparr>wal_content = [], wal_sequence = 0\<rparr>"
    by (simp add: wal_open_def wal_replay_def replay_file_def find_last_seq_def)
  have content: "w = \<lparr>wal_content = le.log_of (map (payload_of ser) (entries_from 1 cmds)), wal_sequence = of_nat (length cmds)\<rparr>"
    using wal_append_all_content [of ser des "wal_open des None" cmds] codec by (simp add: w start)
  have replay: "wal_replay des (Some (wal_content w)) = (entries_from 1 cmds, Some (wal_content w))"
    unfolding wal_replay_def content using le.replay_clean_log [OF payloads_decode [OF codec]] by simp
  moreover have "find_last_seq (entries_from 1 cmds) = of_nat (length cmds)"
    by (simp add: find_last_seq_def entries_from_last)
  ultimately show ?thesis by (simp add: wal_open_def content)
qed


text \<open>A record read one byte too early: the length is off by a factor of 256.\<close>

lemma shifted_length:
  fixes w :: "32 word" and torn :: u8
  shows "u32_from_le_bytes (torn # take 3 (u32_to_le_bytes w)) = ucast torn OR push_bit 8 w"
proof (rule bit_word_eqI)
  fix n assume "n < LENGTH(32)"
  then have "n < 32" by simp
  then consider "n < 8" | "8 \<le> n" "n < 16" | "16 \<le> n" "n < 24" | "24 \<le> n" "n < 32" by linarith
  then show "bit (u32_from_le_bytes (torn # take 3 (u32_to_le_bytes w))) n = bit (ucast torn OR push_bit 8 w) n"
    by cases (auto simp: u32_to_le_bytes_def bit_simps)
qed

lemma read_record_shifted:
  assumes "0 < length p" and "length p < 2 ^ 24"
  shows "read_record u32_from_le_bytes des (torn # le.record_of p) = Inl UnexpectedEof"
proof -
  let ?len = "of_nat (length p) :: 32 word"
  let ?shifted = "ucast torn OR push_bit 8 ?len"
  have "unat (push_bit 8 ?len) = 256 * length p"
    using assms(2) by (simp add: push_bit_eq_mult unat_word_ariths unat_of_nat take_bit_nat_eq_self)
  moreover have "push_bit 8 ?len \<le> ?shifted" by (metis le_word_or2 or.commute)
  ultimately have "256 * length p \<le> unat ?shifted" by (simp add: word_le_nat_alt)
  with assms(1) have "length p + 1 < unat ?shifted" by linarith
  moreover have "take 4 (torn # le.record_of p) = torn # take 3 (u32_to_le_bytes ?len)"
    by (simp add: le.record_of_def le.length_to_bytes)
  ultimately show ?thesis
    by (simp add: read_record_def read_exact_def shifted_length) (simp add: le.record_of_def le.length_to_bytes)
qed

text \<open>
  A torn length prefix is not repaired, and costs the next command: when one byte of a new
  record reached the file, the replay at startup leaves that byte in place; a command
  appended afterwards is written and acknowledged, but the following replay misreads the
  shifted length prefix, drops the command and cuts it from the file.
\<close>

theorem wal_append_after_torn_prefix_is_lost:
  assumes codec: "entry_codec ser des (entries_from 1 cmds)" and w: "w = wal_append_all ser (wal_open des None) cmds"
    and next_ok: "entry_codec ser des [\<lparr>e_seq = wal_sequence w + 1, e_command = c\<rparr>]"
    and size: "payload_of ser \<lparr>e_seq = wal_sequence w + 1, e_command = c\<rparr> = p" "0 < length p" "length p < 2 ^ 24"
    and reopened: "w' = wal_open des (Some (wal_content w @ [torn]))"
  shows "w' = w\<lparr>wal_content := wal_content w @ [torn]\<rparr> \<and> snd (wal_append ser w' c) = Inr ()
    \<and> wal_replay des (Some (wal_content (fst (wal_append ser w' c)))) = (entries_from 1 cmds, Some (wal_content w))"
proof -
  let ?es = "entries_from 1 cmds" and ?log = "le.log_of (map (payload_of ser) (entries_from 1 cmds))"
  have content: "w = \<lparr>wal_content = ?log, wal_sequence = of_nat (length cmds)\<rparr>"
    using wal_append_all_content [of ser des "wal_open des None" cmds] codec
    by (simp add: w wal_open_def wal_replay_def replay_file_def find_last_seq_def)
  note skip = le.replay_loop_log [OF payloads_decode [OF codec], of "[]" _ "[]", simplified]
  have "replay_loop u32_from_le_bytes des (?log @ [torn]) 0 0 [] = (?es, ?log @ [torn])"
    unfolding skip by (simp add: replay_loop.simps le.read_record_short)
  moreover have "find_last_seq ?es = of_nat (length cmds)" by (simp add: find_last_seq_def entries_from_last)
  ultimately have w': "w' = \<lparr>wal_content = ?log @ [torn], wal_sequence = of_nat (length cmds)\<rparr>"
    by (simp add: reopened wal_open_def wal_replay_def replay_file_def content)
  have same_entry: "wal_sequence w' = wal_sequence w" by (simp add: w' content)
  note app = wal_append_ok [of ser des w' c, unfolded same_entry, OF next_ok, unfolded size(1)]
  have "replay_loop u32_from_le_bytes des (?log @ torn # le.record_of p) 0 0 [] = (?es, ?log)"
    unfolding skip by (simp add: replay_loop.simps read_record_shifted [OF size(2,3)])
  moreover have "wal_content (fst (wal_append ser w' c)) = ?log @ torn # le.record_of p" "snd (wal_append ser w' c) = Inr ()"
    by (simp_all add: app) (simp add: w')
  ultimately have "snd (wal_append ser w' c) = Inr () \<and>
      wal_replay des (Some (wal_content (fst (wal_append ser w' c)))) = (?es, Some ?log)"
    by (simp add: wal_replay_def replay_file_def)
  then show ?thesis by (simp only:) (simp add: w' content)
qed

section \<open>Snapshots\<close>

text \<open>
  C10. Snapshot round trip: a book saved, loaded and given its index back by \<open>rebuild_index\<close> is the
  book that was saved, index included. The codec is assumed to restore every field but the
  index, which is skipped and comes back empty.
\<close>

theorem snapshot_roundtrip:
  assumes "book_inv b" and "ser (seq, b) = Some bytes" and "des bytes = Some (seq, book_clone b)"
    and "snapshot_save ser seq b = Inr content" and "snapshot_load des content = Inr (seq', b')"
  shows "seq' = seq \<and> rebuild_index b' = b"
  using assms rebuild_clone [OF assms(1)] by (auto simp: snapshot_save_def snapshot_load_def)

section \<open>The theorems on a concrete log\<close>

definition sample_ser :: "int wal_entry \<Rightarrow> u8 list option" where
  "sample_ser e = (case e_command e of CancelOrder i \<Rightarrow> Some [ucast i, ucast (e_seq e)] | PlaceOrder _ \<Rightarrow> None)"

fun sample_des :: "u8 list \<Rightarrow> int wal_entry option" where
  "sample_des [i, n] = Some \<lparr>e_seq = ucast n, e_command = CancelOrder (ucast i)\<rparr>"
| "sample_des _ = None"

lemma sample_codec:
  "entry_codec sample_ser sample_des (entries_from 1 [CancelOrder 7])"
  "entry_codec sample_ser sample_des [\<lparr>e_seq = 2, e_command = CancelOrder 9\<rparr>]"
  by (simp_all add: entry_codec_def sample_ser_def)

theorem wal_append_replay_witness:
  "wal_replay sample_des (Some (wal_content (wal_append_all sample_ser (wal_open sample_des None) [CancelOrder 7]))) =
     ([\<lparr>e_seq = 1, e_command = CancelOrder 7\<rparr>],
      Some (wal_content (wal_append_all sample_ser (wal_open sample_des None) [CancelOrder 7])))"
  using wal_append_replay [OF sample_codec(1) refl] by simp

lemma sample_wal: "wal_append_all sample_ser (wal_open sample_des None) [CancelOrder 7] =
    \<lparr>wal_content = [2, 0, 0, 0, 7, 1], wal_sequence = 1\<rparr>"
  by (simp add: wal_append_all_def wal_append_def wal_open_def wal_replay_def replay_file_def find_last_seq_def
      sample_ser_def u32_to_le_bytes_def)

lemma sample_append: "wal_append sample_ser \<lparr>wal_content = [2, 0, 0, 0, 7, 1], wal_sequence = 1\<rparr> (CancelOrder 9) =
    (\<lparr>wal_content = [2, 0, 0, 0, 7, 1, 2, 0, 0, 0, 9, 2], wal_sequence = 2\<rparr>, Inr ())"
  by (simp add: wal_append_def sample_ser_def u32_to_le_bytes_def)


theorem wal_append_after_torn_prefix_is_lost_witness:
  "wal_replay sample_des (Some (wal_content (fst (wal_append sample_ser (wal_open sample_des (Some [2, 0, 0, 0, 7, 1, 2])) (CancelOrder 9))))) =
     ([\<lparr>e_seq = 1, e_command = CancelOrder 7\<rparr>], Some [2, 0, 0, 0, 7, 1])"
proof -
  have "wal_replay sample_des (Some (wal_content (fst (wal_append sample_ser
      (wal_open sample_des (Some (wal_content (wal_append_all sample_ser (wal_open sample_des None) [CancelOrder 7]) @ [2])))
      (CancelOrder 9))))) =
    (entries_from 1 [CancelOrder 7], Some (wal_content (wal_append_all sample_ser (wal_open sample_des None) [CancelOrder 7])))"
    using wal_append_after_torn_prefix_is_lost [OF sample_codec(1) refl, of "CancelOrder 9" "[9, 2]"] sample_codec(2)
    by (simp only: sample_wal) (simp add: payload_of_def sample_ser_def)
  then show ?thesis by (simp add: sample_wal)
qed

theorem snapshot_roundtrip_witness:
  "let ser = \<lambda>sb. Some [42 :: u8]; des = \<lambda>_. Some (5 :: u64, book_clone (sample_book :: int order_book))
   in \<exists>content b'. snapshot_save ser 5 (sample_book :: int order_book) = Inr content
        \<and> snapshot_load des content = Inr (5, b') \<and> rebuild_index b' = sample_book"
proof -
  let ?ser = "\<lambda>sb. Some [42 :: u8]" and ?des = "\<lambda>_. Some (5 :: u64, book_clone (sample_book :: int order_book))"
  have save: "snapshot_save ?ser 5 (sample_book :: int order_book) = Inr [42]" by (simp add: snapshot_save_def)
  have load: "snapshot_load ?des [42] = Inr (5, book_clone sample_book)" by (simp add: snapshot_load_def)
  from snapshot_roundtrip [OF sample_book_inv _ _ save load] save load show ?thesis by auto
qed

end
