(* ===== verification/Proto_Types.thy ===== *)
theory Proto_Types
  imports Prelude
begin

text \<open>
  The wire types between API and engine (\<open>engine/crates/proto/src/types.rs\<close>). Constructors and
  fields carry a prefix (\<open>W\<close>, \<open>eo_\<close>, \<open>tf_\<close>, ...) to keep them apart from the core types. Their
  JSON form is the business of serde, which is a parameter wherever bytes are produced.
\<close>

datatype order_side = WBuy | WSell

datatype engine_order_type =
  WLimit | WMarket | WIoc | WFok | WPostOnly | WStopLimit | WStopMarket | WOco | WIceberg

datatype wire_stp_mode = WDecrement | WCancelMaker | WCancelTaker

datatype order_status = NewStatus | Partial | Filled | Canceled | Rejected

datatype wire_cancel_reason =
  WNoLiquidity | WFokUnfilled | WPostOnlyCrossed | WSelfTradePrevented | WOcoLinked | WAdminCancel

datatype market_status = Trading | Halted

type_synonym 'd price_level = "'d \<times> 'd"

record 'd engine_order =
  eo_id :: uuid
  eo_user_id :: uuid
  eo_symbol :: string
  eo_side :: order_side
  eo_order_type :: engine_order_type
  eo_price :: "'d option"
  eo_quantity :: 'd
  eo_stp_mode :: wire_stp_mode
  eo_stop_price :: "'d option"
  eo_oco_linked_id :: "uuid option"
  eo_display_qty :: "'d option"

section \<open>Requests\<close>

record 'd place_request =
  pr_request_id :: uuid
  pr_order :: "'d engine_order"

record cancel_request =
  cr_request_id :: uuid
  cr_symbol :: string
  cr_order_id :: uuid

record cancel_all_request =
  ca_request_id :: uuid
  ca_user_id :: uuid
  ca_symbol :: "string option"

record market_control_request =
  mc_request_id :: uuid
  mc_symbol :: string

record snapshot_request =
  sr_request_id :: uuid
  sr_symbol :: string
  sr_depth :: nat

record ping_request =
  pi_request_id :: uuid

datatype 'd engine_request =
  Place "'d place_request"
| Cancel cancel_request
| CancelAll cancel_all_request
| HaltMarket market_control_request
| ResumeMarket market_control_request
| Snapshot snapshot_request
| Ping ping_request

section \<open>Events\<close>

record 'd trade_fill =
  tf_trade_id :: uuid
  tf_symbol :: string
  tf_taker_order_id :: uuid
  tf_maker_order_id :: uuid
  tf_price :: 'd
  tf_quantity :: 'd
  tf_taker_side :: order_side
  tf_ts :: string

record 'd order_accepted_event =
  oa_order :: "'d engine_order"

record 'd order_rested_event =
  or_order_id :: uuid
  or_remaining :: 'd

record order_canceled_event =
  oc_order_id :: uuid
  oc_reason :: wire_cancel_reason

record 'd book_delta_event =
  bd_symbol :: string
  bd_bids :: "'d price_level list"
  bd_asks :: "'d price_level list"

record market_status_event =
  me_symbol :: string
  me_status :: market_status

datatype 'd engine_event =
  OrderAccepted "'d order_accepted_event"
| OrderRested "'d order_rested_event"
| FillEvent "'d trade_fill"
| OrderCanceled order_canceled_event
| BookDelta "'d book_delta_event"
| MarketStatus market_status_event

record 'd sequenced_engine_event =
  se_seq :: u64
  se_event :: "'d engine_event"

section \<open>Responses\<close>

record 'd order_ack =
  ak_order_id :: uuid
  ak_status :: order_status
  ak_fills :: "'d trade_fill list"
  ak_seq :: u64

record cancel_ack =
  ck_order_id :: uuid
  ck_status :: order_status
  ck_seq :: u64

record cancel_all_ack =
  cl_order_ids :: "uuid list"
  cl_seq :: u64

record 'd book_snapshot =
  bs_symbol :: string
  bs_bids :: "'d price_level list"
  bs_asks :: "'d price_level list"
  bs_seq :: u64

record market_status_ack =
  ms_symbol :: string
  ms_status :: market_status
  ms_seq :: u64

datatype 'd ack_result =
  AckOrder "'d order_ack"
| AckCancel cancel_ack
| AckCancelAll cancel_all_ack
| AckSnapshot "'d book_snapshot"
| AckMarketStatus market_status_ack

record 'd ack_response =
  ar_request_id :: uuid
  ar_result :: "'d ack_result"

record reject_response =
  rj_request_id :: uuid
  rj_code :: string
  rj_message :: string

record pong_response =
  po_request_id :: uuid

datatype 'd engine_response =
  Ack "'d ack_response"
| Reject reject_response
| Event "'d sequenced_engine_event"
| Pong pong_response

end
