(* ===== verification/Event_Log.thy ===== *)
theory Event_Log
  imports Framing Proto_Types
begin

text \<open>
  The event log that numbers every outgoing event (\<open>engine/crates/server/src/event_log.rs\<close>).
  \<open>serde_json::to_vec\<close> and \<open>serde_json::from_slice\<close> are the parameters \<open>to_vec\<close> and \<open>from_slice\<close>.
\<close>

record event_log =
  el_content :: "u8 list"
  el_sequence :: u64

definition read_one_event ::
  "(u8 list \<Rightarrow> 'd sequenced_engine_event option) \<Rightarrow> u8 list \<Rightarrow> io_error + ('d sequenced_engine_event \<times> u8 list) option" where
  "read_one_event from_slice reader = read_record u32_from_be_bytes from_slice reader"

definition event_replay ::
  "(u8 list \<Rightarrow> 'd sequenced_engine_event option) \<Rightarrow> u8 list option \<Rightarrow> 'd sequenced_engine_event list \<times> u8 list option" where
  "event_replay from_slice path = replay_file u32_from_be_bytes from_slice path"

definition event_find_last_seq :: "'d sequenced_engine_event list \<Rightarrow> u64" where
  "event_find_last_seq entries = (if entries = [] then 0 else se_seq (last entries))"

definition event_log_open :: "(u8 list \<Rightarrow> 'd sequenced_engine_event option) \<Rightarrow> u8 list option \<Rightarrow> event_log" where
  "event_log_open from_slice path =
     (let (entries, path') = event_replay from_slice path
      in \<lparr>el_content = (case path' of None \<Rightarrow> [] | Some content \<Rightarrow> content), el_sequence = event_find_last_seq entries\<rparr>)"

text \<open>\<open>u64::saturating_add(1)\<close>\<close>

definition saturating_succ :: "u64 \<Rightarrow> u64" where
  "saturating_succ n = (if n = - 1 then n else n + 1)"

definition append_next ::
  "('d sequenced_engine_event \<Rightarrow> u8 list option) \<Rightarrow> event_log \<Rightarrow> 'd engine_event \<Rightarrow>
     event_log \<times> (io_error + 'd sequenced_engine_event)" where
  "append_next to_vec l event =
     (let sequenced = \<lparr>se_seq = saturating_succ (el_sequence l), se_event = event\<rparr>
      in case to_vec sequenced of
           None \<Rightarrow> (l, Inl InvalidData)
         | Some payload \<Rightarrow>
             if 2 ^ 32 \<le> length payload then (l, Inl InvalidData)
             else (\<lparr>el_content = el_content l @ u32_to_be_bytes (of_nat (length payload)) @ payload,
                    el_sequence = se_seq sequenced\<rparr>, Inr sequenced))"

text \<open>\<open>EngineState::sequence_events\<close>: append one by one, stop at the first error.\<close>

fun sequence_events ::
  "('d sequenced_engine_event \<Rightarrow> u8 list option) \<Rightarrow> event_log \<Rightarrow> 'd engine_event list \<Rightarrow>
     event_log \<times> (io_error + 'd sequenced_engine_event list)" where
  "sequence_events to_vec l [] = (l, Inr [])"
| "sequence_events to_vec l (event # events) =
     (case append_next to_vec l event of
        (l1, Inl e) \<Rightarrow> (l1, Inl e)
      | (l1, Inr sequenced) \<Rightarrow>
          (case sequence_events to_vec l1 events of
             (l2, Inl e) \<Rightarrow> (l2, Inl e)
           | (l2, Inr rest) \<Rightarrow> (l2, Inr (sequenced # rest))))"

section \<open>Consecutive numbering\<close>

fun numbered_from :: "u64 \<Rightarrow> 'd sequenced_engine_event list \<Rightarrow> bool" where
  "numbered_from n [] = True"
| "numbered_from n (e # es) \<longleftrightarrow> se_seq e = n + 1 \<and> numbered_from (n + 1) es"

lemma saturating_succ_no_overflow: "unat n < 2 ^ 64 - 1 \<Longrightarrow> saturating_succ n = n + 1"
  by (auto simp: saturating_succ_def unsigned_minus_1_eq_mask mask_eq_exp_minus_1)

lemma append_next_Inr:
  assumes "append_next to_vec l event = (l', Inr s)" and "unat (el_sequence l) < 2 ^ 64 - 1"
  shows "s = \<lparr>se_seq = el_sequence l + 1, se_event = event\<rparr>" and "el_sequence l' = el_sequence l + 1"
    and "\<exists>payload. to_vec s = Some payload \<and> length payload < 2 ^ 32 \<and> el_content l' = el_content l @ be.record_of payload"
  using assms saturating_succ_no_overflow [OF assms(2)]
  by (auto simp: append_next_def Let_def be.record_of_def split: option.splits if_splits)

lemma sequence_events_length:
  "sequence_events to_vec l evs = (l', Inr out) \<Longrightarrow> length out = length evs"
  by (induction evs arbitrary: l out) (auto split: prod.splits sum.splits)

text \<open>What a completed \<open>sequence_events\<close> returns and writes.\<close>

lemma sequence_events_ok:
  assumes "sequence_events to_vec l evs = (l', Inr out)" and "unat (el_sequence l) + length evs < 2 ^ 64"
  shows "map se_event out = evs" and "numbered_from (el_sequence l) out"
    and "el_sequence l' = el_sequence l + of_nat (length evs)"
    and "\<exists>ps. list_all2 (\<lambda>p e. to_vec e = Some p \<and> length p < 2 ^ 32) ps out \<and> el_content l' = el_content l @ be.log_of ps"
proof -
  have "map se_event out = evs \<and> numbered_from (el_sequence l) out \<and> el_sequence l' = el_sequence l + of_nat (length evs)
    \<and> (\<exists>ps. list_all2 (\<lambda>p e. to_vec e = Some p \<and> length p < 2 ^ 32) ps out \<and> el_content l' = el_content l @ be.log_of ps)"
    using assms
  proof (induction evs arbitrary: l out)
    case (Cons ev evs)
    from Cons.prems(1) obtain l1 s rest where a: "append_next to_vec l ev = (l1, Inr s)"
      and r: "sequence_events to_vec l1 evs = (l', Inr rest)" and out: "out = s # rest"
      by (auto split: prod.splits sum.splits)
    have "unat (el_sequence l) < 2 ^ 64 - 1" using Cons.prems(2) by simp
    note s = append_next_Inr [OF a this]
    have "unat (el_sequence l1) = unat (el_sequence l) + 1"
      using Cons.prems(2) by (simp add: s(2) unat_word_ariths)
    then have "unat (el_sequence l1) + length evs < 2 ^ 64" using Cons.prems(2) by simp
    from Cons.IH [OF r this] obtain ps where ih: "map se_event rest = evs" "numbered_from (el_sequence l1) rest"
      "el_sequence l' = el_sequence l1 + of_nat (length evs)"
      "list_all2 (\<lambda>p e. to_vec e = Some p \<and> length p < 2 ^ 32) ps rest" "el_content l' = el_content l1 @ be.log_of ps" by blast
    from s(3) obtain p where p: "to_vec s = Some p" "length p < 2 ^ 32" "el_content l1 = el_content l @ be.record_of p" by blast
    have "list_all2 (\<lambda>p e. to_vec e = Some p \<and> length p < 2 ^ 32) (p # ps) out \<and> el_content l' = el_content l @ be.log_of (p # ps)"
      using ih(4,5) p by (simp add: out be.log_of_def)
    with ih(1-3) s(1,2) show ?case by (auto simp: out)
  qed (auto simp: be.log_of_def)
  then show "map se_event out = evs" and "numbered_from (el_sequence l) out"
    and "el_sequence l' = el_sequence l + of_nat (length evs)"
    and "\<exists>ps. list_all2 (\<lambda>p e. to_vec e = Some p \<and> length p < 2 ^ 32) ps out \<and> el_content l' = el_content l @ be.log_of ps" by blast+
qed

text \<open>
  The event log numbers events without gaps and can be reopened: a batch of events appended
  to a new log gets the numbers 1, 2, ... in order, a replay of the file returns exactly those
  numbered events, and the reopened log goes on from the last number. The JSON codec is
  assumed to read back the events it wrote.
\<close>

theorem event_log_roundtrip:
  assumes seqd: "sequence_events to_vec (event_log_open from_slice None) evs = (l, Inr out)"
    and "length evs < 2 ^ 64"
    and codec: "\<And>e p. e \<in> set out \<Longrightarrow> to_vec e = Some p \<Longrightarrow> from_slice p = Some e"
  shows "map se_event out = evs \<and> numbered_from 0 out \<and> event_replay from_slice (Some (el_content l)) = (out, Some (el_content l))
    \<and> event_log_open from_slice (Some (el_content l)) = l"
proof -
  have start: "event_log_open from_slice None = \<lparr>el_content = [], el_sequence = 0\<rparr>"
    by (simp add: event_log_open_def event_replay_def replay_file_def event_find_last_seq_def)
  have "unat (el_sequence (event_log_open from_slice None)) + length evs < 2 ^ 64" using assms(2) by (simp add: start)
  note ok = sequence_events_ok [OF seqd this, unfolded start, simplified]
  from ok(4) obtain ps where ps: "list_all2 (\<lambda>p e. to_vec e = Some p \<and> length p < 4294967296) ps out" "el_content l = be.log_of ps" by auto
  have "list_all2 (\<lambda>p e. length p < 2 ^ 32 \<and> from_slice p = Some e) ps out"
    using ps(1) codec by (auto elim!: list.rel_mono_strong)
  from be.replay_clean_log [OF this] have replay: "event_replay from_slice (Some (el_content l)) = (out, Some (el_content l))"
    by (simp add: event_replay_def ps(2))
  have "numbered_from n es \<Longrightarrow> es \<noteq> [] \<Longrightarrow> se_seq (last es) = n + of_nat (length es)" for n and es :: "'a sequenced_engine_event list"
    by (induction n es rule: numbered_from.induct) (auto simp: algebra_simps)
  moreover have "length out = length evs" using ok(1) by auto
  ultimately have "event_find_last_seq out = el_sequence l"
    using ok(2,3) by (auto simp: event_find_last_seq_def)
  with replay ok(1,2) show ?thesis by (simp add: event_log_open_def)
qed

section \<open>A concrete log\<close>

definition sample_to_vec :: "int sequenced_engine_event \<Rightarrow> u8 list option" where
  "sample_to_vec e = Some [ucast (se_seq e)]"

fun sample_from_slice :: "u8 list \<Rightarrow> int sequenced_engine_event option" where
  "sample_from_slice [n] = Some \<lparr>se_seq = ucast n, se_event = MarketStatus \<lparr>me_symbol = ''BTC-USDT'', me_status = Halted\<rparr>\<rparr>"
| "sample_from_slice _ = None"

theorem event_log_roundtrip_witness:
  "event_replay sample_from_slice (Some [0, 0, 0, 1, 1]) =
     ([\<lparr>se_seq = 1, se_event = MarketStatus \<lparr>me_symbol = ''BTC-USDT'', me_status = Halted\<rparr>\<rparr>], Some [0, 0, 0, 1, 1])"
proof -
  let ?ev = "MarketStatus \<lparr>me_symbol = ''BTC-USDT'', me_status = Halted\<rparr> :: int engine_event"
  have run: "sequence_events sample_to_vec (event_log_open sample_from_slice None) [?ev] =
    (\<lparr>el_content = [0, 0, 0, 1, 1], el_sequence = 1\<rparr>, Inr [\<lparr>se_seq = 1, se_event = ?ev\<rparr>])"
    by (simp add: event_log_open_def event_replay_def replay_file_def event_find_last_seq_def append_next_def
        sample_to_vec_def saturating_succ_def u32_to_be_bytes_def u32_to_le_bytes_def)
  have "sample_from_slice p = Some e" if "e \<in> set [\<lparr>se_seq = 1, se_event = ?ev\<rparr>]" "sample_to_vec e = Some p" for e p
    using that by (auto simp: sample_to_vec_def)
  note trip = event_log_roundtrip [OF run _ this, THEN conjunct2, THEN conjunct2, THEN conjunct1]
  show ?thesis using trip by (simp only: event_log.simps) simp
qed

end
