(* ===== verification/Wire.thy ===== *)
theory Wire
  imports Proto_Types Core_Types
begin

text \<open>
  Translation and validation at the border of the engine (\<open>engine/crates/server/src/wire.rs\<close>):
  wire orders are checked and turned into core orders, core events into acknowledgements.
\<close>

section \<open>Error codes\<close>

definition FOK_NOT_FILLED :: string where "FOK_NOT_FILLED = ''FOK_NOT_FILLED''"
definition MARKET_HALTED :: string where "MARKET_HALTED = ''MARKET_HALTED''"
definition MARKET_UNKNOWN :: string where "MARKET_UNKNOWN = ''MARKET_UNKNOWN''"
definition MIN_NOTIONAL :: string where "MIN_NOTIONAL = ''MIN_NOTIONAL''"
definition ORDER_NOT_FOUND :: string where "ORDER_NOT_FOUND = ''ORDER_NOT_FOUND''"
definition POST_ONLY_REJECTED :: string where "POST_ONLY_REJECTED = ''POST_ONLY_REJECTED''"
definition STOP_PRICE_INVALID :: string where "STOP_PRICE_INVALID = ''STOP_PRICE_INVALID''"
definition TICK_SIZE :: string where "TICK_SIZE = ''TICK_SIZE''"

record 'd response_bundle =
  rb_response :: "'d engine_response"
  rb_events :: "'d sequenced_engine_event list"

definition reject_response :: "uuid \<Rightarrow> string \<Rightarrow> string \<Rightarrow> reject_response" where
  "reject_response request_id code message =
     \<lparr>rj_request_id = request_id, rj_code = code, rj_message = message\<rparr>"

definition reject :: "uuid \<Rightarrow> string \<Rightarrow> string \<Rightarrow> 'd response_bundle" where
  "reject request_id code message =
     \<lparr>rb_response = Reject (reject_response request_id code message), rb_events = []\<rparr>"

definition market_halted :: "uuid \<Rightarrow> 'd response_bundle" where
  "market_halted request_id =
     reject request_id MARKET_HALTED ''market is halted and cannot accept new orders''"

definition order_not_found :: "uuid \<Rightarrow> string \<Rightarrow> 'd response_bundle" where
  "order_not_found request_id message = reject request_id ORDER_NOT_FOUND message"

section \<open>Validation\<close>

definition requires_price :: "engine_order_type \<Rightarrow> bool" where
  "requires_price t \<longleftrightarrow> t \<in> {WLimit, WIoc, WFok, WPostOnly, WStopLimit, WOco, WIceberg}"

definition requires_stop_price :: "engine_order_type \<Rightarrow> bool" where
  "requires_stop_price t \<longleftrightarrow> t \<in> {WStopLimit, WStopMarket}"

text \<open>\<open>Option::is_none_or\<close>\<close>

definition is_none_or :: "('a \<Rightarrow> bool) \<Rightarrow> 'a option \<Rightarrow> bool" where
  "is_none_or P x = (case x of None \<Rightarrow> True | Some v \<Rightarrow> P v)"

definition validate_wire_order :: "uuid \<Rightarrow> 'd::linordered_idom engine_order \<Rightarrow> reject_response option" where
  "validate_wire_order request_id ord =
     (if trim (eo_symbol ord) = [] then
        Some (reject_response request_id MARKET_UNKNOWN ''market symbol is required'')
      else if eo_quantity ord \<le> 0 then
        Some (reject_response request_id MIN_NOTIONAL ''quantity must be positive'')
      else if requires_price (eo_order_type ord) \<and> is_none_or (\<lambda>price. price \<le> 0) (eo_price ord) then
        Some (reject_response request_id TICK_SIZE ''positive price is required'')
      else if requires_stop_price (eo_order_type ord) \<and> is_none_or (\<lambda>price. price \<le> 0) (eo_stop_price ord) then
        Some (reject_response request_id STOP_PRICE_INVALID ''positive stop price is required'')
      else if eo_order_type ord = WIceberg \<and>
              is_none_or (\<lambda>quantity. quantity \<le> 0 \<or> eo_quantity ord \<le> quantity) (eo_display_qty ord) then
        Some (reject_response request_id MIN_NOTIONAL
                ''iceberg display quantity must be positive and smaller than quantity'')
      else None)"

section \<open>Reading core events\<close>

fun immediate_pre_reject :: "uuid \<Rightarrow> uuid \<Rightarrow> 'd core_event list \<Rightarrow> reject_response option" where
  "immediate_pre_reject request_id order_id [] = None"
| "immediate_pre_reject request_id order_id (event # events) =
     (case (case event of
              Cancelled i reason \<Rightarrow>
                (if i = order_id then
                   (case reason of
                      FokUnfilled \<Rightarrow> Some (reject_response request_id FOK_NOT_FILLED
                                            ''fill-or-kill order could not be fully filled'')
                    | PostOnlyCrossed \<Rightarrow> Some (reject_response request_id POST_ONLY_REJECTED
                                            ''post-only order would cross the book'')
                    | _ \<Rightarrow> None)
                 else None)
            | _ \<Rightarrow> None) of
        Some r \<Rightarrow> Some r
      | None \<Rightarrow> immediate_pre_reject request_id order_id events)"

definition taker_filled :: "uuid \<Rightarrow> 'd::linordered_idom core_event list \<Rightarrow> 'd" where
  "taker_filled order_id events =
     sum_list (map f_quantity (filter (\<lambda>f. f_taker_order_id f = order_id) (fills_of events)))"

definition has_rested :: "uuid \<Rightarrow> 'd core_event list \<Rightarrow> bool" where
  "has_rested order_id events = list_ex (\<lambda>e. case e of Rested i _ \<Rightarrow> i = order_id | _ \<Rightarrow> False) events"

definition has_cancelled :: "uuid \<Rightarrow> 'd core_event list \<Rightarrow> bool" where
  "has_cancelled order_id events = list_ex (\<lambda>e. case e of Cancelled i _ \<Rightarrow> i = order_id | _ \<Rightarrow> False) events"

definition order_status_for_place :: "uuid \<Rightarrow> 'd::linordered_idom \<Rightarrow> 'd core_event list \<Rightarrow> order_status" where
  "order_status_for_place order_id quantity events =
     (let filled = taker_filled order_id events
      in if has_rested order_id events then (if 0 < filled then Partial else NewStatus)
         else if quantity \<le> filled then Filled
         else if has_cancelled order_id events then Canceled
         else Filled)"

definition cancelled_order_ids :: "'d core_event list \<Rightarrow> uuid list" where
  "cancelled_order_ids events =
     List.map_filter (\<lambda>e. case e of Cancelled i _ \<Rightarrow> Some i | _ \<Rightarrow> None) events"

definition last_seq_or_current :: "'d sequenced_engine_event list \<Rightarrow> u64 \<Rightarrow> u64" where
  "last_seq_or_current events current = (if events = [] then current else se_seq (last events))"

section \<open>Translation\<close>

fun to_core_side :: "order_side \<Rightarrow> side" where
  "to_core_side WBuy = Buy"
| "to_core_side WSell = Sell"

fun to_wire_side :: "side \<Rightarrow> order_side" where
  "to_wire_side Buy = WBuy"
| "to_wire_side Sell = WSell"

fun to_core_order_type :: "engine_order_type \<Rightarrow> order_type" where
  "to_core_order_type WLimit = Limit"
| "to_core_order_type WMarket = Market"
| "to_core_order_type WIoc = Ioc"
| "to_core_order_type WFok = Fok"
| "to_core_order_type WPostOnly = PostOnly"
| "to_core_order_type WStopLimit = StopLimit"
| "to_core_order_type WStopMarket = StopMarket"
| "to_core_order_type WOco = Oco"
| "to_core_order_type WIceberg = Iceberg"

fun to_core_stp_mode :: "wire_stp_mode \<Rightarrow> stp_mode" where
  "to_core_stp_mode WDecrement = Decrement"
| "to_core_stp_mode WCancelMaker = CancelMaker"
| "to_core_stp_mode WCancelTaker = CancelTaker"

fun to_wire_cancel_reason :: "cancel_reason \<Rightarrow> wire_cancel_reason" where
  "to_wire_cancel_reason NoLiquidity = WNoLiquidity"
| "to_wire_cancel_reason FokUnfilled = WFokUnfilled"
| "to_wire_cancel_reason PostOnlyCrossed = WPostOnlyCrossed"
| "to_wire_cancel_reason SelfTradePrevented = WSelfTradePrevented"
| "to_wire_cancel_reason OcoLinked = WOcoLinked"
| "to_wire_cancel_reason AdminCancel = WAdminCancel"

definition to_core_order :: "'d engine_order \<Rightarrow> 'd order" where
  "to_core_order ord =
     \<lparr>o_id = eo_id ord, o_user_id = eo_user_id ord, o_symbol = eo_symbol ord,
      o_side = to_core_side (eo_side ord), o_type = to_core_order_type (eo_order_type ord),
      o_price = eo_price ord, o_quantity = eo_quantity ord, o_remaining = eo_quantity ord,
      o_stp_mode = to_core_stp_mode (eo_stp_mode ord), o_stop_price = eo_stop_price ord,
      o_oco_linked_id = eo_oco_linked_id ord, o_display_qty = eo_display_qty ord\<rparr>"

lemma wire_side_roundtrip [simp]: "to_core_side (to_wire_side s) = s" "to_wire_side (to_core_side w) = w"
  by (cases s; simp) (cases w; simp)

lemma to_core_order_sel [simp]:
  "o_id (to_core_order w) = eo_id w" "o_symbol (to_core_order w) = eo_symbol w" "o_user_id (to_core_order w) = eo_user_id w"
  "o_remaining (to_core_order w) = eo_quantity w" "o_quantity (to_core_order w) = eo_quantity w"
  "o_display_qty (to_core_order w) = eo_display_qty w" "o_price (to_core_order w) = eo_price w"
  "o_stop_price (to_core_order w) = eo_stop_price w" "o_oco_linked_id (to_core_order w) = eo_oco_linked_id w"
  "o_type (to_core_order w) = to_core_order_type (eo_order_type w)"
  by (simp_all add: to_core_order_def)


section \<open>What validation guarantees\<close>

lemma validate_wire_order_None:
  assumes "validate_wire_order r w = None"
  shows "0 < eo_quantity w" and "trim (eo_symbol w) \<noteq> []"
    and "requires_price (eo_order_type w) \<Longrightarrow> \<exists>p. eo_price w = Some p \<and> 0 < p"
    and "requires_stop_price (eo_order_type w) \<Longrightarrow> \<exists>p. eo_stop_price w = Some p \<and> 0 < p"
    and "eo_order_type w = WIceberg \<Longrightarrow> \<exists>d. eo_display_qty w = Some d \<and> 0 < d \<and> d < eo_quantity w"
  using assms by (auto simp: validate_wire_order_def is_none_or_def not_le split: if_splits option.splits)

text \<open>
  Validation is exact: a wire order passes if and only if its symbol is not blank, its
  quantity is positive, it has a positive price where its type needs one, a positive stop
  price where its type needs one, and, for an iceberg, a display quantity strictly between
  zero and the quantity.
\<close>

theorem validate_wire_order_exact:
  "validate_wire_order r w = None \<longleftrightarrow>
     (\<exists>c \<in> set (eo_symbol w). \<not> is_whitespace c) \<and> 0 < eo_quantity w
     \<and> (eo_order_type w \<noteq> WMarket \<and> eo_order_type w \<noteq> WStopMarket \<longrightarrow> (\<exists>p. eo_price w = Some p \<and> 0 < p))
     \<and> (eo_order_type w = WStopLimit \<or> eo_order_type w = WStopMarket \<longrightarrow> (\<exists>p. eo_stop_price w = Some p \<and> 0 < p))
     \<and> (eo_order_type w = WIceberg \<longrightarrow> (\<exists>d. eo_display_qty w = Some d \<and> 0 < d \<and> d < eo_quantity w))"
proof -
  have blank: "trim (eo_symbol w) = [] \<longleftrightarrow> (\<forall>c \<in> set (eo_symbol w). is_whitespace c)"
    by (auto simp: trim_def dropWhile_eq_Nil_conv dest: set_dropWhileD)
      (metis dropWhile_eq_Nil_conv set_dropWhileD takeWhile_dropWhile_id set_takeWhileD Un_iff set_append)
  show ?thesis
    by (cases "eo_order_type w")
      (auto simp: validate_wire_order_def is_none_or_def requires_price_def requires_stop_price_def blank not_le
        split: option.splits)
qed

theorem validate_wire_order_exact_witness:
  "validate_wire_order 1 \<lparr>eo_id = 2, eo_user_id = 3, eo_symbol = ''BTC'', eo_side = WBuy, eo_order_type = WLimit,
     eo_price = Some (100 :: int), eo_quantity = 5, eo_stp_mode = WDecrement, eo_stop_price = None,
     eo_oco_linked_id = None, eo_display_qty = None\<rparr> = None"
  unfolding validate_wire_order_exact by (simp add: is_whitespace_def)

end
