(* ===== verification/Engine_State.thy ===== *)
theory Engine_State
  imports Order_Types Wal Event_Log Wire
    "HOL-Library.List_Lexorder" "HOL-Library.Char_ord"
begin

text \<open>
  The engine server's state and its request handlers (\<open>engine/crates/server/src/state.rs\<close>): books
  per symbol, command log, event log, halted symbols and the directory of open orders. A
  handler returns the new state and a bundle or an error; the outer \<open>option\<close> is \<open>None\<close> when the
  matching loop does not return. Serialisers, identifier source and clock are parameters.
\<close>

record 'd open_order =
  oo_user_id :: uuid
  oo_symbol :: string
  oo_remaining :: 'd

type_synonym 'd books = "string \<rightharpoonup> 'd order_book"
type_synonym 'd open_orders = "(uuid \<times> 'd open_order) list"

text \<open>
  What the handlers call outside the repository: \<open>bincode::serialize\<close>, \<open>serde_json::to_vec\<close>,
  the \<open>n\<close>-th answer of \<open>IdSource::next_uuid\<close> and of \<open>Clock::now_rfc3339\<close>.
\<close>

record 'd engine_ports =
  ep_serialize :: "'d wal_entry \<Rightarrow> u8 list option"
  ep_to_vec :: "'d sequenced_engine_event \<Rightarrow> u8 list option"
  ep_next_uuid :: "nat \<Rightarrow> uuid"
  ep_now_rfc3339 :: "nat \<Rightarrow> string"

record 'd engine_state =
  es_books :: "'d books"
  es_command_wal :: wal
  es_event_log :: event_log
  es_halted_symbols :: "string set"
  es_open_orders :: "'d open_orders"
  es_ports_used :: nat
  es_snapshot_depth :: nat

datatype server_error = ServerIo io_error

section \<open>The directory of open orders\<close>

definition decrement_open_order :: "'d::linordered_idom open_orders \<Rightarrow> uuid \<Rightarrow> 'd \<Rightarrow> 'd open_orders" where
  "decrement_open_order open_orders order_id quantity =
     (case map_of open_orders order_id of
        None \<Rightarrow> open_orders
      | Some meta \<Rightarrow>
          if oo_remaining meta \<le> quantity then AList.delete order_id open_orders
          else AList.update order_id (meta\<lparr>oo_remaining := oo_remaining meta - quantity\<rparr>) open_orders)"

fun apply_open_order_update ::
  "'d::linordered_idom order option \<Rightarrow> 'd core_event \<Rightarrow> 'd open_orders \<Rightarrow> 'd open_orders" where
  "apply_open_order_update submitted (Fill fill) open_orders =
     decrement_open_order (decrement_open_order open_orders (f_maker_order_id fill) (f_quantity fill))
       (f_taker_order_id fill) (f_quantity fill)"
| "apply_open_order_update submitted (Rested order_id remaining) open_orders =
     (case (case submitted of None \<Rightarrow> None | Some ord \<Rightarrow> if o_id ord = order_id then Some ord else None) of
        Some ord \<Rightarrow>
          AList.update order_id
            \<lparr>oo_user_id = o_user_id ord, oo_symbol = o_symbol ord, oo_remaining = remaining\<rparr> open_orders
      | None \<Rightarrow>
          (case map_of open_orders order_id of
             None \<Rightarrow> open_orders
           | Some meta \<Rightarrow> AList.update order_id (meta\<lparr>oo_remaining := remaining\<rparr>) open_orders))"
| "apply_open_order_update submitted (Cancelled order_id reason) open_orders = AList.delete order_id open_orders"
| "apply_open_order_update submitted (StopTriggered order_id) open_orders = open_orders"

definition apply_open_order_updates ::
  "'d::linordered_idom open_orders \<Rightarrow> 'd order option \<Rightarrow> 'd core_event list \<Rightarrow> 'd open_orders" where
  "apply_open_order_updates open_orders submitted events = fold (apply_open_order_update submitted) events open_orders"

section \<open>Views\<close>

definition book_snapshot :: "'d::linordered_idom engine_state \<Rightarrow> string \<Rightarrow> nat \<Rightarrow> 'd book_snapshot" where
  "book_snapshot st symbol depth =
     (let levels = (case es_books st symbol of
                      None \<Rightarrow> \<lparr>d_bids = [], d_asks = []\<rparr>
                    | Some book \<Rightarrow> depth_levels book depth)
      in \<lparr>bs_symbol = symbol, bs_bids = d_bids levels, bs_asks = d_asks levels,
          bs_seq = el_sequence (es_event_log st)\<rparr>)"

definition book_delta_event :: "'d::linordered_idom engine_state \<Rightarrow> string \<Rightarrow> 'd engine_event" where
  "book_delta_event st symbol =
     (let snapshot = book_snapshot st symbol (es_snapshot_depth st)
      in BookDelta \<lparr>bd_symbol = bs_symbol snapshot, bd_bids = bs_bids snapshot, bd_asks = bs_asks snapshot\<rparr>)"

definition to_wire_fill :: "'d engine_ports \<Rightarrow> nat \<Rightarrow> string \<Rightarrow> 'd fill \<Rightarrow> 'd trade_fill" where
  "to_wire_fill ports n symbol fill =
     \<lparr>tf_trade_id = ep_next_uuid ports n, tf_symbol = symbol, tf_taker_order_id = f_taker_order_id fill,
      tf_maker_order_id = f_maker_order_id fill, tf_price = f_price fill, tf_quantity = f_quantity fill,
      tf_taker_side = to_wire_side (f_taker_side fill), tf_ts = ep_now_rfc3339 ports n\<rparr>"

text \<open>The loop of \<open>to_wire_core_events\<close>; \<open>n\<close> counts the calls of the identifier source and the clock.\<close>

fun to_wire_core_events ::
  "'d engine_ports \<Rightarrow> nat \<Rightarrow> string \<Rightarrow> 'd core_event list \<Rightarrow> nat \<times> 'd engine_event list \<times> 'd trade_fill list" where
  "to_wire_core_events ports n symbol [] = (n, [], [])"
| "to_wire_core_events ports n symbol (Fill fill # events) =
     (let wire_fill = to_wire_fill ports n symbol fill;
          (n', wire_events, fills) = to_wire_core_events ports (Suc n) symbol events
      in (n', FillEvent wire_fill # wire_events, wire_fill # fills))"
| "to_wire_core_events ports n symbol (Rested order_id remaining # events) =
     (let (n', wire_events, fills) = to_wire_core_events ports n symbol events
      in (n', OrderRested \<lparr>or_order_id = order_id, or_remaining = remaining\<rparr> # wire_events, fills))"
| "to_wire_core_events ports n symbol (Cancelled order_id reason # events) =
     (let (n', wire_events, fills) = to_wire_core_events ports n symbol events
      in (n', OrderCanceled \<lparr>oc_order_id = order_id, oc_reason = to_wire_cancel_reason reason\<rparr> # wire_events, fills))"
| "to_wire_core_events ports n symbol (StopTriggered order_id # events) = to_wire_core_events ports n symbol events"

definition to_wire_cancel_events :: "'d core_event list \<Rightarrow> 'd engine_event list" where
  "to_wire_cancel_events events =
     List.map_filter (\<lambda>e. case e of
         Cancelled order_id reason \<Rightarrow>
           Some (OrderCanceled \<lparr>oc_order_id = order_id, oc_reason = to_wire_cancel_reason reason\<rparr>)
       | _ \<Rightarrow> None) events"

section \<open>Placing\<close>

text \<open>\<open>books.entry(symbol).or_default()\<close>, the OCO registration and \<open>match_order\<close>.\<close>

definition enter_book :: "'d::linordered_idom books \<Rightarrow> 'd order \<Rightarrow> ('d books \<times> 'd core_event list) option" where
  "enter_book bks ord =
     (let book = (case bks (o_symbol ord) of None \<Rightarrow> book_new | Some b \<Rightarrow> b);
          book1 = (case o_oco_linked_id ord of None \<Rightarrow> book | Some linked_id \<Rightarrow> register_oco book (o_id ord) linked_id)
      in map_option (\<lambda>(book2, events). (bks(o_symbol ord \<mapsto> book2), events)) (match_order book1 ord))"

text \<open>The tail shared by the handlers: number the events, answer with the last number.\<close>

definition respond ::
  "'d engine_ports \<Rightarrow> 'd engine_state \<Rightarrow> 'd engine_event list \<Rightarrow> uuid \<Rightarrow> (u64 \<Rightarrow> 'd ack_result) \<Rightarrow>
     'd engine_state \<times> (server_error + 'd response_bundle)" where
  "respond ports st wire_events request_id result =
     (case sequence_events (ep_to_vec ports) (es_event_log st) wire_events of
        (l, Inl e) \<Rightarrow> (st\<lparr>es_event_log := l\<rparr>, Inl (ServerIo e))
      | (l, Inr events) \<Rightarrow>
          (st\<lparr>es_event_log := l\<rparr>,
           Inr \<lparr>rb_response = Ack \<lparr>ar_request_id = request_id, ar_result = result (last_seq_or_current events (el_sequence l))\<rparr>,
                rb_events = events\<rparr>))"

definition place_order ::
  "'d::linordered_idom engine_ports \<Rightarrow> 'd engine_state \<Rightarrow> uuid \<Rightarrow> 'd engine_order \<Rightarrow>
     ('d engine_state \<times> (server_error + 'd response_bundle)) option" where
  "place_order ports st request_id wire_order =
     (case validate_wire_order request_id wire_order of
        Some rej \<Rightarrow> Some (st, Inr \<lparr>rb_response = Reject rej, rb_events = []\<rparr>)
      | None \<Rightarrow>
          if eo_symbol wire_order \<in> es_halted_symbols st then Some (st, Inr (market_halted request_id))
          else
            (let ord = to_core_order wire_order
             in case wal_append (ep_serialize ports) (es_command_wal st) (PlaceOrder ord) of
                  (w, Inl e) \<Rightarrow> Some (st\<lparr>es_command_wal := w\<rparr>, Inl (ServerIo e))
                | (w, Inr _) \<Rightarrow>
                    (case enter_book (es_books st) ord of
                       None \<Rightarrow> None
                     | Some (bks, core_events) \<Rightarrow>
                         (let st1 = st\<lparr>es_command_wal := w, es_books := bks\<rparr>
                          in case immediate_pre_reject request_id (o_id ord) core_events of
                               Some rejected \<Rightarrow> Some (st1, Inr \<lparr>rb_response = Reject rejected, rb_events = []\<rparr>)
                             | None \<Rightarrow>
                                 (let opens = apply_open_order_updates (es_open_orders st1) (Some ord) core_events;
                                      (n, wire_events, fills) =
                                        to_wire_core_events ports (es_ports_used st1) (eo_symbol wire_order) core_events;
                                      st2 = st1\<lparr>es_open_orders := opens, es_ports_used := n\<rparr>
                                  in Some (respond ports st2
                                       (OrderAccepted \<lparr>oa_order = wire_order\<rparr> # wire_events @
                                          [book_delta_event st2 (eo_symbol wire_order)])
                                       request_id
                                       (\<lambda>seq. AckOrder
                                          \<lparr>ak_order_id = o_id ord,
                                           ak_status = order_status_for_place (o_id ord) (o_quantity ord) core_events,
                                           ak_fills = filter (\<lambda>fill. tf_taker_order_id fill = o_id ord) fills,
                                           ak_seq = seq\<rparr>)))))))"

section \<open>Cancelling\<close>

definition cancel_known_order ::
  "'d::linordered_idom engine_ports \<Rightarrow> 'd engine_state \<Rightarrow> uuid \<Rightarrow> 'd engine_state \<times> (server_error + 'd core_event list)" where
  "cancel_known_order ports st order_id =
     (case map_of (es_open_orders st) order_id of
        None \<Rightarrow> (st, Inr [])
      | Some meta \<Rightarrow>
          (case wal_append (ep_serialize ports) (es_command_wal st) (CancelOrder order_id) of
             (w, Inl e) \<Rightarrow> (st\<lparr>es_command_wal := w\<rparr>, Inl (ServerIo e))
           | (w, Inr _) \<Rightarrow>
               (case es_books st (oo_symbol meta) of
                  None \<Rightarrow> (st\<lparr>es_command_wal := w\<rparr>, Inr [])
                | Some book \<Rightarrow>
                    (let (book', core_events) = cancel_order book order_id
                     in (st\<lparr>es_command_wal := w, es_books := (es_books st)(oo_symbol meta \<mapsto> book'),
                            es_open_orders := apply_open_order_updates (es_open_orders st) None core_events\<rparr>,
                         Inr core_events)))))"

definition engine_cancel_order ::
  "'d::linordered_idom engine_ports \<Rightarrow> 'd engine_state \<Rightarrow> cancel_request \<Rightarrow>
     'd engine_state \<times> (server_error + 'd response_bundle)" where
  "engine_cancel_order ports st request =
     (case map_of (es_open_orders st) (cr_order_id request) of
        None \<Rightarrow> (st, Inr (order_not_found (cr_request_id request) ''order was not found''))
      | Some meta \<Rightarrow>
          if oo_symbol meta \<noteq> cr_symbol request then
            (st, Inr (order_not_found (cr_request_id request) ''order was not found for symbol''))
          else
            (case cancel_known_order ports st (cr_order_id request) of
               (st1, Inl e) \<Rightarrow> (st1, Inl e)
             | (st1, Inr core_events) \<Rightarrow>
                 if core_events = [] then
                   (st1, Inr (order_not_found (cr_request_id request) ''order was not found''))
                 else
                   respond ports st1
                     (to_wire_cancel_events core_events @ [book_delta_event st1 (cr_symbol request)])
                     (cr_request_id request)
                     (\<lambda>seq. AckCancel \<lparr>ck_order_id = cr_order_id request, ck_status = Canceled, ck_seq = seq\<rparr>)))"

text \<open>The loop of \<open>cancel_all\<close> with its three accumulators.\<close>

fun cancel_each ::
  "'d::linordered_idom engine_ports \<Rightarrow> uuid list \<Rightarrow> 'd engine_state \<Rightarrow> uuid list \<Rightarrow> (string, unit) btree \<Rightarrow>
     'd engine_event list \<Rightarrow>
     'd engine_state \<times> (server_error + uuid list \<times> (string, unit) btree \<times> 'd engine_event list)" where
  "cancel_each ports [] st canceled_ids changed_symbols wire_events =
     (st, Inr (canceled_ids, changed_symbols, wire_events))"
| "cancel_each ports (order_id # order_ids) st canceled_ids changed_symbols wire_events =
     (case map_of (es_open_orders st) order_id of
        None \<Rightarrow> cancel_each ports order_ids st canceled_ids changed_symbols wire_events
      | Some meta \<Rightarrow>
          (case cancel_known_order ports st order_id of
             (st1, Inl e) \<Rightarrow> (st1, Inl e)
           | (st1, Inr core_events) \<Rightarrow>
               if core_events = [] then cancel_each ports order_ids st1 canceled_ids changed_symbols wire_events
               else cancel_each ports order_ids st1 (canceled_ids @ cancelled_order_ids core_events)
                      (bt_insert (oo_symbol meta) () changed_symbols)
                      (wire_events @ to_wire_cancel_events core_events)))"

definition cancel_all ::
  "'d::linordered_idom engine_ports \<Rightarrow> 'd engine_state \<Rightarrow> uuid \<Rightarrow> uuid \<Rightarrow> string option \<Rightarrow>
     'd engine_state \<times> (server_error + 'd response_bundle)" where
  "cancel_all ports st request_id user_id symbol =
     (let order_ids = sort (map fst (filter (\<lambda>(_, meta). is_none_or (\<lambda>s. s = oo_symbol meta) symbol)
                        (filter (\<lambda>(_, meta). oo_user_id meta = user_id) (es_open_orders st))))
      in case cancel_each ports order_ids st [] [] [] of
           (st1, Inl e) \<Rightarrow> (st1, Inl e)
         | (st1, Inr (canceled_ids, changed_symbols, wire_events)) \<Rightarrow>
             respond ports st1 (wire_events @ map (book_delta_event st1) (bt_keys changed_symbols)) request_id
               (\<lambda>seq. AckCancelAll \<lparr>cl_order_ids = remdups_adj (sort canceled_ids), cl_seq = seq\<rparr>))"

section \<open>Market control, snapshots, dispatch\<close>

definition market_status_response ::
  "'d engine_ports \<Rightarrow> 'd engine_state \<Rightarrow> market_control_request \<Rightarrow> market_status \<Rightarrow>
     'd engine_state \<times> (server_error + 'd response_bundle)" where
  "market_status_response ports st request status =
     respond ports st [MarketStatus \<lparr>me_symbol = mc_symbol request, me_status = status\<rparr>] (mc_request_id request)
       (\<lambda>seq. AckMarketStatus \<lparr>ms_symbol = mc_symbol request, ms_status = status, ms_seq = seq\<rparr>)"

definition halt_market ::
  "'d engine_ports \<Rightarrow> 'd engine_state \<Rightarrow> market_control_request \<Rightarrow> 'd engine_state \<times> (server_error + 'd response_bundle)" where
  "halt_market ports st request =
     market_status_response ports (st\<lparr>es_halted_symbols := insert (mc_symbol request) (es_halted_symbols st)\<rparr>)
       request Halted"

definition resume_market ::
  "'d engine_ports \<Rightarrow> 'd engine_state \<Rightarrow> market_control_request \<Rightarrow> 'd engine_state \<times> (server_error + 'd response_bundle)" where
  "resume_market ports st request =
     market_status_response ports (st\<lparr>es_halted_symbols := es_halted_symbols st - {mc_symbol request}\<rparr>)
       request Trading"

definition snapshot :: "'d::linordered_idom engine_state \<Rightarrow> snapshot_request \<Rightarrow> 'd response_bundle" where
  "snapshot st request =
     (let depth = min (sr_depth request) (es_snapshot_depth st)
      in \<lparr>rb_response = Ack \<lparr>ar_request_id = sr_request_id request,
                              ar_result = AckSnapshot (book_snapshot st (sr_symbol request) depth)\<rparr>,
          rb_events = []\<rparr>)"

definition pong :: "ping_request \<Rightarrow> 'd response_bundle" where
  "pong request = \<lparr>rb_response = Pong \<lparr>po_request_id = pi_request_id request\<rparr>, rb_events = []\<rparr>"

definition handle_request ::
  "'d::linordered_idom engine_ports \<Rightarrow> 'd engine_state \<Rightarrow> 'd engine_request \<Rightarrow>
     ('d engine_state \<times> (server_error + 'd response_bundle)) option" where
  "handle_request ports st request =
     (case request of
        Place req \<Rightarrow> place_order ports st (pr_request_id req) (pr_order req)
      | Cancel req \<Rightarrow> Some (engine_cancel_order ports st req)
      | CancelAll req \<Rightarrow> Some (cancel_all ports st (ca_request_id req) (ca_user_id req) (ca_symbol req))
      | HaltMarket req \<Rightarrow> Some (halt_market ports st req)
      | ResumeMarket req \<Rightarrow> Some (resume_market ports st req)
      | Snapshot req \<Rightarrow> Some (st, Inr (snapshot st req))
      | Ping req \<Rightarrow> Some (st, Inr (pong req)))"

section \<open>Startup\<close>

definition replay_cancel ::
  "'d::linordered_idom books \<Rightarrow> 'd open_orders \<Rightarrow> uuid \<Rightarrow> 'd books \<times> 'd open_orders" where
  "replay_cancel bks opens order_id =
     (case map_of opens order_id of
        None \<Rightarrow> (bks, opens)
      | Some meta \<Rightarrow>
          (case bks (oo_symbol meta) of
             None \<Rightarrow> (bks, opens)
           | Some book \<Rightarrow>
               (let (book', events) = cancel_order book order_id
                in (bks(oo_symbol meta \<mapsto> book'), apply_open_order_updates opens None events))))"

fun replay_commands ::
  "'d::linordered_idom wal_command list \<Rightarrow> 'd books \<Rightarrow> 'd open_orders \<Rightarrow> ('d books \<times> 'd open_orders) option" where
  "replay_commands [] bks opens = Some (bks, opens)"
| "replay_commands (PlaceOrder ord # commands) bks opens =
     (case enter_book bks ord of
        None \<Rightarrow> None
      | Some (bks', events) \<Rightarrow>
          replay_commands commands bks' (apply_open_order_updates opens (Some ord) events))"
| "replay_commands (CancelOrder order_id # commands) bks opens =
     (let (bks', opens') = replay_cancel bks opens order_id in replay_commands commands bks' opens')"

definition replay_books ::
  "(u8 list \<Rightarrow> 'd wal_entry option) \<Rightarrow> u8 list option \<Rightarrow> ('d::linordered_idom books \<times> 'd open_orders) option" where
  "replay_books des path = replay_commands (map e_command (fst (wal_replay des path))) Map.empty []"

definition engine_open ::
  "(u8 list \<Rightarrow> 'd wal_entry option) \<Rightarrow> (u8 list \<Rightarrow> 'd sequenced_engine_event option) \<Rightarrow> nat \<Rightarrow>
     u8 list option \<Rightarrow> u8 list option \<Rightarrow> 'd::linordered_idom engine_state option" where
  "engine_open des from_slice snapshot_depth command_wal_path event_log_path =
     (case replay_books des command_wal_path of
        None \<Rightarrow> None
      | Some (bks, opens) \<Rightarrow>
          Some \<lparr>es_books = bks, es_command_wal = wal_open des (snd (wal_replay des command_wal_path)),
                es_event_log = event_log_open from_slice event_log_path, es_halted_symbols = {},
                es_open_orders = opens, es_ports_used = 0, es_snapshot_depth = snapshot_depth\<rparr>)"

end
