(* ===== verification/Engine_Replay.thy ===== *)
theory Engine_Replay
  imports Engine_State
begin

text \<open>
  The server as a transition system: what a restart rebuilds from the command log is the state
  the server was in, events are numbered without gaps across requests, rejected requests
  leave no trace, a halted market takes no orders.
\<close>

section \<open>The log and the state agree\<close>

definition codec_sound :: "('d wal_entry \<Rightarrow> u8 list option) \<Rightarrow> (u8 list \<Rightarrow> 'd wal_entry option) \<Rightarrow> bool" where
  "codec_sound ser des \<longleftrightarrow> (\<forall>e p. ser e = Some p \<longrightarrow> des p = Some e)"

definition logged :: "('d wal_entry \<Rightarrow> u8 list option) \<Rightarrow> wal \<Rightarrow> 'd wal_entry list \<Rightarrow> bool" where
  "logged ser w es \<longleftrightarrow> wal_content w = le.log_of (map (payload_of ser) es)
     \<and> (\<forall>e \<in> set es. \<exists>p. ser e = Some p \<and> length p < 2 ^ 32)"

lemma logged_codec: "codec_sound ser des \<Longrightarrow> logged ser w es \<Longrightarrow> entry_codec ser des es"
  by (fastforce simp: codec_sound_def logged_def entry_codec_def)

lemma wal_append_logged:
  assumes "logged ser w es" and "wal_append ser w c = (w', r)"
  shows "case r of Inl _ \<Rightarrow> logged ser w' es | Inr _ \<Rightarrow> \<exists>e. e_command e = c \<and> logged ser w' (es @ [e])"
proof (cases r)
  case (Inl err)
  with assms show ?thesis by (auto simp: wal_append_def Let_def logged_def split: option.splits if_splits)
next
  case (Inr u)
  let ?e = "\<lparr>e_seq = wal_sequence w + 1, e_command = c\<rparr>"
  from Inr assms(2) obtain p where "ser ?e = Some p" "length p < 2 ^ 32"
    "wal_content w' = wal_content w @ u32_to_le_bytes (of_nat (length p)) @ p"
    by (auto simp: wal_append_def Let_def split: option.splits if_splits)
  with assms(1) have "logged ser w' (es @ [?e])"
    by (auto simp: logged_def payload_of_def le.log_of_append) (auto simp: le.log_of_def le.record_of_def)
  with Inr show ?thesis by (auto intro!: exI [of _ ?e])
qed

definition replayable :: "'d::linordered_idom engine_ports \<Rightarrow> (u8 list \<Rightarrow> 'd wal_entry option) \<Rightarrow> 'd engine_state \<Rightarrow> bool" where
  "replayable ports des st \<longleftrightarrow> codec_sound (ep_serialize ports) des \<and>
     (\<exists>es. logged (ep_serialize ports) (es_command_wal st) es
       \<and> replay_commands (map e_command es) Map.empty [] = Some (es_books st, es_open_orders st))"

lemma replay_commands_append:
  "replay_commands (xs @ ys) bks opens =
     (case replay_commands xs bks opens of None \<Rightarrow> None | Some (bks', opens') \<Rightarrow> replay_commands ys bks' opens')"
  by (induction xs bks opens rule: replay_commands.induct) (auto split: option.splits prod.splits)

text \<open>One more command in the log, and its effect on the books.\<close>

lemma replayable_append:
  assumes "replayable ports des st" and "wal_append (ep_serialize ports) (es_command_wal st) c = (w, Inr u)"
    and "replay_commands [c] (es_books st) (es_open_orders st) = Some (bks, opens)"
    and "es_command_wal st' = w" and "es_books st' = bks" and "es_open_orders st' = opens"
  shows "replayable ports des st'"
proof -
  from assms(1) obtain es where es: "codec_sound (ep_serialize ports) des" "logged (ep_serialize ports) (es_command_wal st) es"
    "replay_commands (map e_command es) Map.empty [] = Some (es_books st, es_open_orders st)" by (auto simp: replayable_def)
  from wal_append_logged [OF es(2) assms(2)] obtain e where e: "e_command e = c" "logged (ep_serialize ports) w (es @ [e])" by auto
  have "replay_commands (map e_command (es @ [e])) Map.empty [] = Some (bks, opens)"
    using es(3) assms(3) by (simp add: replay_commands_append e(1))
  with es(1) e(2) assms(4-6) show ?thesis unfolding replayable_def by blast
qed

lemma replayable_append_error:
  assumes "replayable ports des st" and "wal_append (ep_serialize ports) (es_command_wal st) c = (w, Inl e)"
  shows "replayable ports des (st\<lparr>es_command_wal := w\<rparr>)"
  using assms wal_append_logged [OF _ assms(2)] by (fastforce simp: replayable_def)

lemma respond_view [simp]:
  "es_books (fst (respond ports st evs i f)) = es_books st" "es_open_orders (fst (respond ports st evs i f)) = es_open_orders st"
  "es_command_wal (fst (respond ports st evs i f)) = es_command_wal st"
  "es_halted_symbols (fst (respond ports st evs i f)) = es_halted_symbols st"
  by (auto simp: respond_def split: prod.splits sum.splits)

lemma replayable_cong:
  "es_books st' = es_books st \<Longrightarrow> es_open_orders st' = es_open_orders st \<Longrightarrow> es_command_wal st' = es_command_wal st \<Longrightarrow>
     replayable ports des st' = replayable ports des st"
  by (simp add: replayable_def)

lemma replayable_respond [simp]: "replayable ports des (fst (respond ports' st evs i f)) = replayable ports des st"
  by (rule replayable_cong) simp_all

section \<open>Cancelling\<close>

lemma cancel_known_order_replayable:
  assumes "replayable ports des st" and "cancel_known_order ports st i = (st', r)"
  shows "replayable ports des st'"
proof (cases "map_of (es_open_orders st) i")
  case None
  with assms show ?thesis by (simp add: cancel_known_order_def)
next
  case (Some meta)
  obtain w wr where w: "wal_append (ep_serialize ports) (es_command_wal st) (CancelOrder i) = (w, wr)" by fastforce
  show ?thesis
  proof (cases wr)
    case (Inl e)
    with assms Some w replayable_append_error [OF assms(1)] show ?thesis by (auto simp: cancel_known_order_def)
  next
    case (Inr u)
    obtain bks opens where rc: "replay_cancel (es_books st) (es_open_orders st) i = (bks, opens)" by fastforce
    then have "replay_commands [CancelOrder i] (es_books st) (es_open_orders st) = Some (bks, opens)" by simp
    note app = replayable_append [OF assms(1) w [unfolded Inr] this]
    show ?thesis
      by (rule app) (use assms(2) Some w Inr rc in
        \<open>auto simp: cancel_known_order_def replay_cancel_def split: option.splits prod.splits\<close>)
  qed
qed

text \<open>What every single cancel keeps, the loop of \<open>cancel_all\<close> keeps.\<close>

lemma cancel_each_keeps:
  assumes step: "\<And>st i st' r. P st \<Longrightarrow> cancel_known_order ports st i = (st', r) \<Longrightarrow> P st'"
  shows "P st \<Longrightarrow> cancel_each ports ids st c s e = (st', r) \<Longrightarrow> P st'"
proof (induction ids arbitrary: st c s e)
  case (Cons i ids)
  show ?case
  proof (cases "map_of (es_open_orders st) i")
    case None
    with Cons show ?thesis by simp
  next
    case (Some meta)
    obtain st1 r1 where k: "cancel_known_order ports st i = (st1, r1)" by fastforce
    have "P st1" using step [OF Cons.prems(1) k] .
    with Cons.IH Cons.prems(2) Some k show ?thesis by (cases r1) (auto split: if_splits)
  qed
qed simp

lemma cancel_each_replayable:
  "replayable ports des st \<Longrightarrow> cancel_each ports ids st c s e = (st', r) \<Longrightarrow> replayable ports des st'"
  using cancel_known_order_replayable by (rule cancel_each_keeps)

lemma cancel_all_cases:
  assumes "cancel_all ports st i u smb = (st', r)"
  obtains ids st1 r1 where "cancel_each ports ids st [] [] [] = (st1, r1)"
    and "st' = st1 \<or> (\<exists>evs f. respond ports st1 evs i f = (st', r))"
    and "\<And>b. r = Inr b \<Longrightarrow> \<exists>evs f. respond ports st1 evs i f = (st', r)"
proof -
  let ?ids = "sort (map fst (filter (\<lambda>(_, meta). is_none_or (\<lambda>s. s = oo_symbol meta) smb)
     (filter (\<lambda>(_, meta). oo_user_id meta = u) (es_open_orders st))))"
  obtain st1 r1 where k: "cancel_each ports ?ids st [] [] [] = (st1, r1)" by fastforce
  show thesis
  proof (rule that [OF k])
    show "st' = st1 \<or> (\<exists>evs f. respond ports st1 evs i f = (st', r))"
      using assms unfolding cancel_all_def Let_def k by (cases r1) auto
    show "\<exists>evs f. respond ports st1 evs i f = (st', r)" if "r = Inr b" for b
      using assms that unfolding cancel_all_def Let_def k by (cases r1) auto
  qed
qed

section \<open>Placing\<close>

text \<open>
  A request is clean when a pre-rejected order is new and was cancelled before anything else
  happened; the FOK order of \<open>fok_partial_fill_with_own_order\<close> is not.
\<close>

definition clean_request :: "'d::linordered_idom engine_state \<Rightarrow> 'd engine_request \<Rightarrow> bool" where
  "clean_request st req \<longleftrightarrow>
     (case req of
        Place r \<Rightarrow>
          (case enter_book (es_books st) (to_core_order (pr_order r)) of
             None \<Rightarrow> True
           | Some (bks, evs) \<Rightarrow>
               immediate_pre_reject (pr_request_id r) (eo_id (pr_order r)) evs \<noteq> None \<longrightarrow>
                 (\<exists>reason. evs = [Cancelled (eo_id (pr_order r)) reason])
                 \<and> map_of (es_open_orders st) (eo_id (pr_order r)) = None)
      | _ \<Rightarrow> True)"

lemma delete_absent: "map_of al k = None \<Longrightarrow> AList.delete k al = al"
  by (simp add: delete_idem map_of_eq_None_iff)

text \<open>The four ways \<open>place_order\<close> ends.\<close>

lemma place_order_cases:
  assumes eq: "place_order ports st i wo = Some (st', r)"
  obtains (refused) rej where "st' = st" "r = Inr \<lparr>rb_response = Reject rej, rb_events = []\<rparr>"
      "validate_wire_order i wo = Some rej \<or> eo_symbol wo \<in> es_halted_symbols st \<and>
         rej = reject_response i MARKET_HALTED ''market is halted and cannot accept new orders''"
  | (io_failed) w e where "wal_append (ep_serialize ports) (es_command_wal st) (PlaceOrder (to_core_order wo)) = (w, Inl e)"
      "st' = st\<lparr>es_command_wal := w\<rparr>" "r = Inl (ServerIo e)"
  | (pre_rejected) w bks evs rej where
      "wal_append (ep_serialize ports) (es_command_wal st) (PlaceOrder (to_core_order wo)) = (w, Inr ())"
      "enter_book (es_books st) (to_core_order wo) = Some (bks, evs)" "immediate_pre_reject i (eo_id wo) evs = Some rej"
      "st' = st\<lparr>es_command_wal := w, es_books := bks\<rparr>" "r = Inr \<lparr>rb_response = Reject rej, rb_events = []\<rparr>"
  | (accepted) w bks evs n wevs f where
      "validate_wire_order i wo = None" "eo_symbol wo \<notin> es_halted_symbols st"
      "wal_append (ep_serialize ports) (es_command_wal st) (PlaceOrder (to_core_order wo)) = (w, Inr ())"
      "enter_book (es_books st) (to_core_order wo) = Some (bks, evs)" "immediate_pre_reject i (eo_id wo) evs = None"
      "respond ports (st\<lparr>es_command_wal := w, es_books := bks,
         es_open_orders := apply_open_order_updates (es_open_orders st) (Some (to_core_order wo)) evs, es_ports_used := n\<rparr>)
         wevs i f = (st', r)"
proof (cases "validate_wire_order i wo = None \<and> eo_symbol wo \<notin> es_halted_symbols st")
  case False
  with eq show ?thesis
    by (auto simp: place_order_def market_halted_def reject_def split: option.splits intro!: refused)
next
  case True
  obtain w wr where w: "wal_append (ep_serialize ports) (es_command_wal st) (PlaceOrder (to_core_order wo)) = (w, wr)" by fastforce
  show ?thesis
  proof (cases wr)
    case (Inl e)
    with eq True w show ?thesis by (auto simp: place_order_def intro!: io_failed)
  next
    case (Inr u)
    with w have w: "wal_append (ep_serialize ports) (es_command_wal st) (PlaceOrder (to_core_order wo)) = (w, Inr ())" by simp
    with eq True obtain bks evs where en: "enter_book (es_books st) (to_core_order wo) = Some (bks, evs)"
      by (auto simp: place_order_def Let_def split: option.splits)
    show ?thesis
    proof (cases "immediate_pre_reject i (eo_id wo) evs")
      case None
      obtain n wevs fills where "to_wire_core_events ports (es_ports_used st) (eo_symbol wo) evs = (n, wevs, fills)"
        by (cases "to_wire_core_events ports (es_ports_used st) (eo_symbol wo) evs") auto
      with eq True w en None show ?thesis by (intro accepted [OF _ _ w en None]) (auto simp: place_order_def Let_def)
    next
      case (Some rej)
      with eq True w en show ?thesis by (intro pre_rejected [OF w en Some]) (auto simp: place_order_def Let_def)
    qed
  qed
qed

lemma place_order_replayable:
  assumes inv: "replayable ports des st" and clean: "clean_request st (Place \<lparr>pr_request_id = i, pr_order = wo\<rparr>)"
    and eq: "place_order ports st i wo = Some (st', r)"
  shows "replayable ports des st'"
  using eq
proof (cases rule: place_order_cases)
  case refused
  with inv show ?thesis by simp
next
  case io_failed
  with replayable_append_error [OF inv] show ?thesis by simp
next
  case (pre_rejected w bks evs rej)
  with clean obtain reason where "evs = [Cancelled (eo_id wo) reason]" "map_of (es_open_orders st) (eo_id wo) = None"
    by (auto simp: clean_request_def)
  then have "apply_open_order_updates (es_open_orders st) (Some (to_core_order wo)) evs = es_open_orders st"
    by (simp add: apply_open_order_updates_def delete_absent)
  with pre_rejected(2) have "replay_commands [PlaceOrder (to_core_order wo)] (es_books st) (es_open_orders st) =
      Some (bks, es_open_orders st)" by simp
  from replayable_append [OF inv pre_rejected(1) this] pre_rejected(4) show ?thesis by simp
next
  case (accepted w bks evs n wevs f)
  let ?opens = "apply_open_order_updates (es_open_orders st) (Some (to_core_order wo)) evs"
  let ?st = "st\<lparr>es_command_wal := w, es_books := bks, es_open_orders := ?opens, es_ports_used := n\<rparr>"
  from accepted(4) have "replay_commands [PlaceOrder (to_core_order wo)] (es_books st) (es_open_orders st) = Some (bks, ?opens)"
    by simp
  from replayable_append [OF inv accepted(3) this, of ?st] have "replayable ports des ?st" by simp
  moreover have "st' = fst (respond ports ?st wevs i f)" by (simp add: accepted(6))
  ultimately show ?thesis by simp
qed

section \<open>What every request keeps\<close>

text \<open>
  A property of the state that survives answering, single cancels, halts and the placing of
  this order survives the request.
\<close>

lemma handle_request_keeps:
  assumes resp: "\<And>st evs i f. P st \<Longrightarrow> P (fst (respond ports st evs i f))"
    and cancel: "\<And>st i st' r. P st \<Longrightarrow> cancel_known_order ports st i = (st', r) \<Longrightarrow> P st'"
    and halt: "\<And>m. req = HaltMarket m \<Longrightarrow> P (st\<lparr>es_halted_symbols := insert (mc_symbol m) (es_halted_symbols st)\<rparr>)"
    and resume: "\<And>m. req = ResumeMarket m \<Longrightarrow> P (st\<lparr>es_halted_symbols := es_halted_symbols st - {mc_symbol m}\<rparr>)"
    and place: "\<And>i wo. req = Place \<lparr>pr_request_id = i, pr_order = wo\<rparr> \<Longrightarrow> place_order ports st i wo = Some (st', r) \<Longrightarrow> P st'"
    and start: "P st" and eq: "handle_request ports st req = Some (st', r)"
  shows "P st'"
proof -
  have resp': "P st'" if "P st1" "respond ports st1 evs i f = (st', r)" for st1 evs i f
    using resp [OF that(1), of evs i f] that(2) by simp
  show ?thesis
  proof (cases req)
    case (Place pr)
    obtain i wo where pr: "pr = \<lparr>pr_request_id = i, pr_order = wo\<rparr>" by (cases pr)
    with Place eq place show ?thesis by (simp add: handle_request_def)
  next
    case (Cancel c)
    obtain st1 r1 where k: "cancel_known_order ports st (cr_order_id c) = (st1, r1)" by fastforce
    have "st' = st \<or> st' = st1 \<or> (\<exists>evs i f. respond ports st1 evs i f = (st', r))"
      using eq Cancel k by (auto simp: handle_request_def engine_cancel_order_def split: option.splits sum.splits if_splits)
    with cancel [OF start k] resp' start show ?thesis by blast
  next
    case (CancelAll c)
    with eq have "cancel_all ports st (ca_request_id c) (ca_user_id c) (ca_symbol c) = (st', r)"
      by (simp add: handle_request_def)
    then obtain ids st1 r1 where k: "cancel_each ports ids st [] [] [] = (st1, r1)"
      and st': "st' = st1 \<or> (\<exists>evs f. respond ports st1 evs (ca_request_id c) f = (st', r))" by (rule cancel_all_cases)
    have "P st1" using cancel start k by (rule cancel_each_keeps)
    with st' resp' show ?thesis by blast
  next
    case (HaltMarket m)
    with eq resp' [OF halt] show ?thesis by (simp add: handle_request_def halt_market_def market_status_response_def)
  next
    case (ResumeMarket m)
    with eq resp' [OF resume] show ?thesis by (simp add: handle_request_def resume_market_def market_status_response_def)
  qed (use eq start in \<open>auto simp: handle_request_def\<close>)
qed

section \<open>The server as a transition system\<close>

inductive engine_step :: "'d::linordered_idom engine_ports \<Rightarrow> 'd engine_state \<Rightarrow> 'd engine_state \<Rightarrow> bool" for ports where
  handle: "handle_request ports st req = Some (st', r) \<Longrightarrow> clean_request st req \<Longrightarrow> engine_step ports st st'"

lemma engine_step_replayable:
  assumes inv: "replayable ports des st" and "engine_step ports st st'"
  shows "replayable ports des st'"
  using assms(2)
proof cases
  case (handle req r)
  show ?thesis
  proof (rule handle_request_keeps [where P = "replayable ports des", OF _ cancel_known_order_replayable _ _ _ inv handle(1)])
    fix i wo assume "req = Place \<lparr>pr_request_id = i, pr_order = wo\<rparr>" "place_order ports st i wo = Some (st', r)"
    with handle(2) show "replayable ports des st'" using place_order_replayable [OF inv] by blast
  qed (use inv in \<open>simp_all add: replayable_def [of ports des "st\<lparr>es_halted_symbols := _\<rparr>"] replayable_def [of ports des st]\<close>)
qed

interpretation engine: invariant_system "engine_step ports" "replayable ports des"
  by unfold_locales (rule engine_step_replayable)


section \<open>Event numbers\<close>

text \<open>Serving a list of requests that all succeed: the final state and the answers.\<close>

fun serve ::
  "'d::linordered_idom engine_ports \<Rightarrow> 'd engine_state \<Rightarrow> 'd engine_request list \<Rightarrow>
     ('d engine_state \<times> 'd response_bundle list) option" where
  "serve ports st [] = Some (st, [])"
| "serve ports st (req # reqs) =
     (case handle_request ports st req of
        Some (st1, Inr bundle) \<Rightarrow> map_option (\<lambda>(st2, bundles). (st2, bundle # bundles)) (serve ports st1 reqs)
      | _ \<Rightarrow> None)"

lemma numbered_from_append:
  "numbered_from n (xs @ ys) \<longleftrightarrow> numbered_from n xs \<and> numbered_from (n + of_nat (length xs)) ys"
  by (induction xs arbitrary: n) (auto simp: algebra_simps)

definition numbers_events :: "'d engine_state \<Rightarrow> 'd engine_state \<Rightarrow> 'd sequenced_engine_event list \<Rightarrow> bool" where
  "numbers_events st st' evs \<longleftrightarrow> (unat (el_sequence (es_event_log st)) + length evs < 2 ^ 64 \<longrightarrow>
     numbered_from (el_sequence (es_event_log st)) evs
     \<and> el_sequence (es_event_log st') = el_sequence (es_event_log st) + of_nat (length evs))"

lemma respond_numbers:
  assumes "respond ports st evs i f = (st', Inr bundle)"
  shows "numbers_events st st' (rb_events bundle)"
proof -
  from assms obtain l out where s: "sequence_events (ep_to_vec ports) (es_event_log st) evs = (l, Inr out)"
    and out: "rb_events bundle = out" "es_event_log st' = l" by (auto simp: respond_def split: prod.splits sum.splits)
  show ?thesis unfolding numbers_events_def out
  proof
    assume small: "unat (el_sequence (es_event_log st)) + length out < 2 ^ 64"
    have "length out = length evs" using s by (rule sequence_events_length)
    with small sequence_events_ok [OF s] show "numbered_from (el_sequence (es_event_log st)) out \<and>
      el_sequence l = el_sequence (es_event_log st) + of_nat (length out)" by simp
  qed
qed

lemma cancel_known_order_log: "cancel_known_order ports st i = (st', r) \<Longrightarrow> es_event_log st' = es_event_log st"
  by (auto simp: cancel_known_order_def Let_def split: option.splits sum.splits prod.splits)

lemma cancel_each_log:
  assumes "cancel_each ports ids st c s e = (st', r)"
  shows "es_event_log st' = es_event_log st"
  by (rule cancel_each_keeps [where P = "\<lambda>x. es_event_log x = es_event_log st", OF _ refl assms])
    (simp add: cancel_known_order_log)

lemma numbers_events_log: "es_event_log st1 = es_event_log st \<Longrightarrow> numbers_events st1 st' evs = numbers_events st st' evs"
  by (simp add: numbers_events_def)

lemma numbers_events_Nil: "es_event_log st' = es_event_log st \<Longrightarrow> numbers_events st st' []"
  by (simp add: numbers_events_def)

lemma handle_request_numbers:
  assumes "handle_request ports st req = Some (st', Inr bundle)"
  shows "numbers_events st st' (rb_events bundle)"
proof (cases req)
  case (Place pr)
  with assms have "place_order ports st (pr_request_id pr) (pr_order pr) = Some (st', Inr bundle)"
    by (simp add: handle_request_def)
  then show ?thesis
  proof (cases rule: place_order_cases)
    case (accepted w bks evs n wevs f)
    from respond_numbers [OF accepted(6)] show ?thesis by (simp add: numbers_events_def)
  qed (auto intro: numbers_events_Nil)
next
  case (Cancel c)
  obtain st1 r1 where k: "cancel_known_order ports st (cr_order_id c) = (st1, r1)" by fastforce
  note log = cancel_known_order_log [OF k]
  have "rb_events bundle = [] \<and> es_event_log st' = es_event_log st \<or>
      (\<exists>evs i f. respond ports st1 evs i f = (st', Inr bundle))"
    using assms Cancel k log
    by (auto simp: handle_request_def engine_cancel_order_def order_not_found_def reject_def
        split: option.splits sum.splits if_splits)
  then show ?thesis using numbers_events_log [OF log] by (auto dest: respond_numbers intro: numbers_events_Nil)
next
  case (CancelAll c)
  with assms have "cancel_all ports st (ca_request_id c) (ca_user_id c) (ca_symbol c) = (st', Inr bundle)"
    by (simp add: handle_request_def)
  then obtain ids st1 r1 where k: "cancel_each ports ids st [] [] [] = (st1, r1)"
    and "\<exists>evs f. respond ports st1 evs (ca_request_id c) f = (st', Inr bundle)"
    by (rule cancel_all_cases) blast
  then show ?thesis using numbers_events_log [OF cancel_each_log [OF k]] by (auto dest: respond_numbers)
next
  case (HaltMarket m)
  with assms show ?thesis
    by (auto simp: handle_request_def halt_market_def market_status_response_def numbers_events_def dest!: respond_numbers)
next
  case (ResumeMarket m)
  with assms show ?thesis
    by (auto simp: handle_request_def resume_market_def market_status_response_def numbers_events_def dest!: respond_numbers)
qed (use assms in \<open>auto simp: handle_request_def snapshot_def pong_def Let_def intro: numbers_events_Nil\<close>)

text \<open>
  C13. Event numbers have no gaps: when a list of requests is served without an I/O error, the
  events of all answers, taken together in order, are numbered consecutively from the number
  the event log stood at.
\<close>

theorem served_events_consecutive:
  assumes "serve ports st reqs = Some (st', bundles)"
    and "unat (el_sequence (es_event_log st)) + length (concat (map rb_events bundles)) < 2 ^ 64"
  shows "numbered_from (el_sequence (es_event_log st)) (concat (map rb_events bundles))
    \<and> el_sequence (es_event_log st') = el_sequence (es_event_log st) + of_nat (length (concat (map rb_events bundles)))"
  using assms
proof (induction reqs arbitrary: st bundles)
  case (Cons req reqs)
  from Cons.prems(1) obtain st1 b bs where h: "handle_request ports st req = Some (st1, Inr b)"
    and s: "serve ports st1 reqs = Some (st', bs)" and bundles: "bundles = b # bs"
    by (auto split: option.splits sum.splits)
  let ?n = "el_sequence (es_event_log st)"
  have num: "numbered_from ?n (rb_events b)" "el_sequence (es_event_log st1) = ?n + of_nat (length (rb_events b))"
    using handle_request_numbers [OF h] Cons.prems(2) by (auto simp: numbers_events_def bundles)
  have "unat (of_nat (length (rb_events b)) :: u64) = length (rb_events b)"
    using Cons.prems(2) by (simp add: bundles unat_of_nat take_bit_nat_eq_self)
  then have "unat (el_sequence (es_event_log st1)) = unat ?n + length (rb_events b)"
    using Cons.prems(2) by (simp add: num(2) bundles unat_word_ariths)
  with Cons.prems(2) have "unat (el_sequence (es_event_log st1)) + length (concat (map rb_events bs)) < 2 ^ 64"
    by (simp add: bundles)
  from Cons.IH [OF s this] num show ?case by (simp add: bundles numbered_from_append add.assoc)
qed simp

section \<open>Rejections and halts\<close>

text \<open>
  A rejected request emits no event: whatever the request, an answer that is a rejection
  comes with an empty event list and leaves the event log untouched.
\<close>

theorem rejected_request_emits_nothing:
  assumes "handle_request ports st req = Some (st', Inr bundle)" and "rb_response bundle = Reject rej"
  shows "rb_events bundle = [] \<and> es_event_log st' = es_event_log st"
proof -
  have acked: "rb_response bundle \<noteq> Reject rej" if "respond ports st1 evs i f = (st', Inr bundle)" for st1 evs i f
    using that by (auto simp: respond_def split: prod.splits sum.splits)
  show ?thesis
  proof (cases req)
    case (Place pr)
    with assms(1) have "place_order ports st (pr_request_id pr) (pr_order pr) = Some (st', Inr bundle)"
      by (simp add: handle_request_def)
    then show ?thesis by (cases rule: place_order_cases) (use assms(2) acked in auto)
  next
    case (Cancel c)
    obtain st1 r1 where k: "cancel_known_order ports st (cr_order_id c) = (st1, r1)" by fastforce
    have "rb_events bundle = [] \<and> es_event_log st' = es_event_log st \<or>
        (\<exists>evs i f. respond ports st1 evs i f = (st', Inr bundle))"
      using assms(1) Cancel k cancel_known_order_log [OF k]
      by (auto simp: handle_request_def engine_cancel_order_def order_not_found_def reject_def
          split: option.splits sum.splits if_splits)
    with acked assms(2) show ?thesis by blast
  next
    case (CancelAll c)
    with assms(1) have "cancel_all ports st (ca_request_id c) (ca_user_id c) (ca_symbol c) = (st', Inr bundle)"
      by (simp add: handle_request_def)
    then have "\<exists>st1 evs i f. respond ports st1 evs i f = (st', Inr bundle)" by (rule cancel_all_cases) blast
    with acked assms(2) show ?thesis by blast
  qed (use assms acked in \<open>auto simp: handle_request_def halt_market_def resume_market_def market_status_response_def
      snapshot_def pong_def Let_def\<close>)
qed

lemma handle_request_stays_halted:
  assumes eq: "handle_request ports st req = Some (st', r)" and halted: "symbol \<in> es_halted_symbols st"
    and "\<And>m. req = ResumeMarket m \<Longrightarrow> mc_symbol m \<noteq> symbol"
  shows "symbol \<in> es_halted_symbols st'"
proof (rule handle_request_keeps [where P = "\<lambda>x. symbol \<in> es_halted_symbols x", OF _ _ _ _ _ halted eq])
  fix st i st' and r :: "server_error + 'a core_event list"
  assume "symbol \<in> es_halted_symbols st" "cancel_known_order ports st i = (st', r)"
  then show "symbol \<in> es_halted_symbols st'"
    by (auto simp: cancel_known_order_def Let_def split: option.splits sum.splits prod.splits)
next
  fix i wo assume "place_order ports st i wo = Some (st', r)"
  then show "symbol \<in> es_halted_symbols st'"
  proof (cases rule: place_order_cases)
    case (accepted w bks evs n wevs f)
    from arg_cong [OF accepted(6), of "es_halted_symbols \<circ> fst"] halted show ?thesis by simp
  qed (use halted in simp_all)
qed (use halted assms(3) in auto)

lemma serve_stays_halted:
  assumes "symbol \<in> es_halted_symbols st" and "serve ports st reqs = Some (st1, bundles)"
    and "\<And>m. ResumeMarket m \<in> set reqs \<Longrightarrow> mc_symbol m \<noteq> symbol"
  shows "symbol \<in> es_halted_symbols st1"
  using assms
proof (induction reqs arbitrary: st bundles)
  case (Cons req reqs)
  from Cons.prems(2) obtain st2 b bs where h: "handle_request ports st req = Some (st2, Inr b)"
    and s: "serve ports st2 reqs = Some (st1, bs)" by (auto split: option.splits sum.splits)
  have "symbol \<in> es_halted_symbols st2"
    using handle_request_stays_halted [OF h Cons.prems(1)] Cons.prems(3) by auto
  with Cons.IH [OF _ s] Cons.prems(3) show ?case by auto
qed simp

lemma place_while_halted:
  assumes "eo_symbol wo \<in> es_halted_symbols st" and "validate_wire_order i wo = None"
  shows "handle_request ports st (Place \<lparr>pr_request_id = i, pr_order = wo\<rparr>) = Some (st, Inr (market_halted i))"
  using assms by (simp add: handle_request_def place_order_def)

text \<open>
  C21. A halted market takes no orders until it is resumed: after any served requests among which
  none resumes the market, a valid order for it is rejected with \<open>MARKET_HALTED\<close>, and books,
  logs and open orders stay exactly as they were.
\<close>

theorem halted_market_takes_no_orders:
  assumes "symbol \<in> es_halted_symbols st" and "serve ports st reqs = Some (st1, bundles)"
    and "\<And>m. ResumeMarket m \<in> set reqs \<Longrightarrow> mc_symbol m \<noteq> symbol"
    and "validate_wire_order i wo = None" and "eo_symbol wo = symbol"
  shows "handle_request ports st1 (Place \<lparr>pr_request_id = i, pr_order = wo\<rparr>) = Some (st1, Inr (market_halted i))"
  using serve_stays_halted [OF assms(1-3)] assms(4,5) by (intro place_while_halted) simp_all

section \<open>The books of the server stay well-formed\<close>

definition engine_inv :: "'d::linordered_idom engine_state \<Rightarrow> bool" where
  "engine_inv st \<longleftrightarrow> (\<forall>symbol b. es_books st symbol = Some b \<longrightarrow> book_inv b)"

text \<open>
  What validation does not check: the order's identifier is new in its book, and a display
  quantity on an order that is not an iceberg is positive.
\<close>

definition admissible_order :: "'d::linordered_idom engine_state \<Rightarrow> 'd engine_order \<Rightarrow> bool" where
  "admissible_order st wo \<longleftrightarrow>
     (case es_books st (eo_symbol wo) of None \<Rightarrow> True | Some b \<Rightarrow> eo_id wo \<notin># book_ids b)
     \<and> (case eo_display_qty wo of None \<Rightarrow> True | Some d \<Rightarrow> eo_order_type wo = WIceberg \<or> 0 < d)"

definition admissible :: "'d::linordered_idom engine_state \<Rightarrow> 'd engine_request \<Rightarrow> bool" where
  "admissible st req \<longleftrightarrow> (case req of Place r \<Rightarrow> admissible_order st (pr_order r) | _ \<Rightarrow> True)"

lemma validated_order_ok:
  assumes "validate_wire_order i wo = None"
    and "case eo_display_qty wo of None \<Rightarrow> True | Some d \<Rightarrow> eo_order_type wo = WIceberg \<or> 0 < d"
  shows "order_ok (to_core_order wo)"
  using validate_wire_order_None(1,5) [OF assms(1)] assms(2) by (auto simp: order_ok_def split: option.splits)

lemma register_oco_inv [simp]:
  "book_inv (register_oco b i j) = book_inv b" "book_ids (register_oco b i j) = book_ids b"
  by (simp_all add: register_oco_def)

lemma enter_book_inv:
  assumes inv: "\<forall>symbol b. bks symbol = Some b \<longrightarrow> book_inv b" and ok: "order_ok ord"
    and fresh: "case bks (o_symbol ord) of None \<Rightarrow> True | Some b \<Rightarrow> o_id ord \<notin># book_ids b"
    and eq: "enter_book bks ord = Some (bks', evs)"
  shows "\<forall>symbol b. bks' symbol = Some b \<longrightarrow> book_inv b"
proof -
  define b0 where "b0 = (case bks (o_symbol ord) of None \<Rightarrow> book_new | Some b \<Rightarrow> b)"
  define b1 where "b1 = (case o_oco_linked_id ord of None \<Rightarrow> b0 | Some l \<Rightarrow> register_oco b0 (o_id ord) l)"
  have b0: "book_inv b0" "o_id ord \<notin># book_ids b0" using inv fresh by (auto simp: b0_def split: option.splits)
  then have "book_inv b1" "o_id ord \<notin># book_ids b1" by (auto simp: b1_def split: option.splits)
  moreover have "map_option (\<lambda>(b2, events). (bks(o_symbol ord \<mapsto> b2), events)) (match_order b1 ord) = Some (bks', evs)"
    using eq unfolding enter_book_def Let_def b0_def b1_def .
  then obtain b2 where m: "match_order b1 ord = Some (b2, evs)" and bks': "bks' = bks(o_symbol ord \<mapsto> b2)" by auto
  ultimately have "book_inv b2" using match_order_inv [OF _ ok _ m] by simp
  with inv show ?thesis by (simp add: bks')
qed

lemma cancel_order_inv:
  assumes "book_inv b"
  shows "book_inv (fst (cancel_order b i))"
proof -
  define b0 where "b0 = b\<lparr>oco_links := (case oco_links b i of None \<Rightarrow> (oco_links b)(i := None)
      | Some j \<Rightarrow> ((oco_links b)(i := None))(j := None))\<rparr>"
  obtain b1 e1 where c1: "cancel_order_internal b0 i AdminCancel = (b1, e1)" by fastforce
  have "book_inv b0" using assms by (simp add: b0_def)
  from cancel_order_internal_inv(1) [OF this c1] have b1: "book_inv b1" .
  show ?thesis
  proof (cases "oco_links b i")
    case None
    with c1 b1 show ?thesis by (simp add: cancel_order_def Let_def b0_def)
  next
    case (Some j)
    obtain b2 e2 where c2: "cancel_order_internal b1 j OcoLinked = (b2, e2)" by fastforce
    from cancel_order_internal_inv(1) [OF b1 c2] c1 c2 Some show ?thesis by (simp add: cancel_order_def Let_def b0_def)
  qed
qed

lemma cancel_known_order_engine_inv:
  "engine_inv st \<Longrightarrow> cancel_known_order ports st i = (st', r) \<Longrightarrow> engine_inv st'"
  by (auto simp: cancel_known_order_def engine_inv_def Let_def split: option.splits sum.splits prod.splits if_splits)
    (metis cancel_order_inv fst_conv)


section \<open>A concrete server\<close>

definition sample_wire_order :: "int engine_order" where
  "sample_wire_order = \<lparr>eo_id = 7, eo_user_id = 3, eo_symbol = ''BTC'', eo_side = WBuy, eo_order_type = WLimit,
     eo_price = Some 100, eo_quantity = 5, eo_stp_mode = WDecrement, eo_stop_price = None, eo_oco_linked_id = None,
     eo_display_qty = None\<rparr>"

definition sample_entry :: "int wal_entry" where
  "sample_entry = \<lparr>e_seq = 1, e_command = PlaceOrder (to_core_order sample_wire_order)\<rparr>"

definition sample_ports :: "int engine_ports" where
  "sample_ports = \<lparr>ep_serialize = (\<lambda>e. if e = sample_entry then Some [1] else None), ep_to_vec = (\<lambda>_. Some [2]),
     ep_next_uuid = of_nat, ep_now_rfc3339 = (\<lambda>_. ''t'')\<rparr>"

definition sample_decode :: "u8 list \<Rightarrow> int wal_entry option" where
  "sample_decode p = (if p = [1] then Some sample_entry else None)"

definition sample_engine :: "int engine_state" where
  "sample_engine = \<lparr>es_books = Map.empty, es_command_wal = \<lparr>wal_content = [], wal_sequence = 0\<rparr>,
     es_event_log = \<lparr>el_content = [], el_sequence = 0\<rparr>, es_halted_symbols = {}, es_open_orders = [], es_ports_used = 0,
     es_snapshot_depth = 50\<rparr>"

abbreviation sample_place :: "int engine_request" where
  "sample_place \<equiv> Place \<lparr>pr_request_id = 9, pr_order = sample_wire_order\<rparr>"

lemma sample_engine_open: "engine_open sample_decode (\<lambda>_. None) 50 None None = Some sample_engine"
  by (simp add: engine_open_def replay_books_def wal_replay_def replay_file_def wal_open_def find_last_seq_def
      event_log_open_def event_replay_def event_find_last_seq_def sample_engine_def)

lemma sample_enter:
  obtains bks where "enter_book Map.empty (to_core_order sample_wire_order) = Some (bks, [Rested 7 5])"
proof -
  have "map_option snd (enter_book Map.empty (to_core_order sample_wire_order)) = Some [Rested 7 5]" by code_simp
  then show thesis using that by auto
qed

lemma sample_handle:
  obtains st rb where "handle_request sample_ports sample_engine sample_place = Some (st, Inr rb)"
    and "map se_seq (rb_events rb) = [1, 2, 3]"
    and "map_of (es_open_orders st) 7 = Some \<lparr>oo_user_id = 3, oo_symbol = ''BTC'', oo_remaining = 5\<rparr>"
proof (rule sample_enter)
  fix bks assume en: "enter_book Map.empty (to_core_order sample_wire_order) = Some (bks, [Rested 7 5])"
  have valid: "validate_wire_order 9 sample_wire_order = None" by code_simp
  have app: "wal_append (ep_serialize sample_ports) \<lparr>wal_content = [], wal_sequence = 0\<rparr> (PlaceOrder (to_core_order sample_wire_order)) =
    (\<lparr>wal_content = [1, 0, 0, 0, 1], wal_sequence = 1\<rparr>, Inr ())"
    by (simp add: wal_append_def sample_ports_def sample_entry_def u32_to_le_bytes_def)
  have core: "eo_id sample_wire_order = 7" "eo_user_id sample_wire_order = 3" "eo_symbol sample_wire_order = ''BTC''"
    by (simp_all add: sample_wire_order_def)
  define st2 where "st2 = sample_engine\<lparr>es_books := bks, es_command_wal := \<lparr>wal_content = [1, 0, 0, 0, 1], wal_sequence = 1\<rparr>,
    es_open_orders := [(7, \<lparr>oo_user_id = 3, oo_symbol = ''BTC'', oo_remaining = 5\<rparr>)]\<rparr>"
  have "\<exists>e1 e2 e3 f. handle_request sample_ports sample_engine sample_place = Some (respond sample_ports st2 [e1, e2, e3] 9 f)"
    by (simp add: handle_request_def place_order_def valid sample_engine_def en app core Let_def apply_open_order_updates_def
        st2_def) blast
  then obtain e1 e2 e3 f where
    eq: "handle_request sample_ports sample_engine sample_place = Some (respond sample_ports st2 [e1, e2, e3] 9 f)" by blast
  have st2: "es_event_log st2 = \<lparr>el_content = [], el_sequence = 0\<rparr>"
      "map_of (es_open_orders st2) 7 = Some \<lparr>oo_user_id = 3, oo_symbol = ''BTC'', oo_remaining = 5\<rparr>"
    by (simp_all add: st2_def sample_engine_def)
  obtain st3 rb where rb: "respond sample_ports st2 [e1, e2, e3] 9 f = (st3, Inr rb)" "map se_seq (rb_events rb) = [1, 2, 3]"
    by (simp add: respond_def st2 append_next_def sample_ports_def saturating_succ_def)
  moreover have "es_open_orders st3 = es_open_orders st2" using respond_view(2) [of sample_ports st2 "[e1, e2, e3]" 9 f] rb(1) by simp
  ultimately show thesis using eq st2(2) by (intro that [of st3 rb]) simp_all
qed


theorem served_events_consecutive_witness:
  "\<exists>st rb. serve sample_ports sample_engine [sample_place] = Some (st, [rb]) \<and> numbered_from 0 (rb_events rb)
     \<and> length (rb_events rb) = 3"
proof (rule sample_handle)
  fix st rb assume h: "handle_request sample_ports sample_engine sample_place = Some (st, Inr rb)"
    and seqs: "map se_seq (rb_events rb) = [1, 2, 3]"
  from h have s: "serve sample_ports sample_engine [sample_place] = Some (st, [rb])" by simp
  have len: "length (rb_events rb) = 3" using arg_cong [OF seqs, of length] by simp
  from served_events_consecutive [OF s] s len show ?thesis by (simp add: sample_engine_def)
qed

theorem rejected_request_emits_nothing_witness:
  "let st = sample_engine\<lparr>es_halted_symbols := {''BTC''}\<rparr>
   in \<exists>st' rb. handle_request sample_ports st sample_place = Some (st', Inr rb) \<and> rb_events rb = []"
proof -
  let ?st = "sample_engine\<lparr>es_halted_symbols := {''BTC''}\<rparr>"
  have valid: "validate_wire_order 9 sample_wire_order = None" by code_simp
  have h: "handle_request sample_ports ?st sample_place = Some (?st, Inr (market_halted 9))"
    by (simp add: handle_request_def place_order_def valid) (simp add: sample_wire_order_def)
  from rejected_request_emits_nothing [OF h] h show ?thesis by (simp add: market_halted_def reject_def)
qed

theorem halted_market_takes_no_orders_witness:
  "handle_request sample_ports (sample_engine\<lparr>es_halted_symbols := {''BTC''}\<rparr>) sample_place =
     Some (sample_engine\<lparr>es_halted_symbols := {''BTC''}\<rparr>, Inr (market_halted 9))"
proof -
  have valid: "validate_wire_order 9 sample_wire_order = None" by code_simp
  show ?thesis
    by (rule halted_market_takes_no_orders [of "''BTC''" "sample_engine\<lparr>es_halted_symbols := {''BTC''}\<rparr>" _ "[]", OF _ _ _ valid])
      (simp_all add: sample_wire_order_def)
qed


end
