(* ===== verification/Exchange_Db.thy ===== *)
theory Exchange_Db
  imports Proto_Types
begin

text \<open>
  The exchange database (\<open>infra/migrations/0001_init.sql\<close>) as settlement and API see it: a table
  is a list of rows in insertion order, \<open>WHERE\<close> a filter, \<open>UPDATE\<close> a map over the rows it
  selects, and the \<open>CHECK\<close>, \<open>UNIQUE\<close> and \<open>REFERENCES\<close> clauses are tests whose failure aborts the
  statement. Columns that no modelled query reads (most time stamps) are left out.
  Amounts are exact: \<open>'d\<close> is a linearly ordered field, the rounding of \<open>NUMERIC(38, 18)\<close> is not modelled.
\<close>

section \<open>Rows\<close>

record user_row =
  us_id :: uuid
  us_email :: string
  us_password_hash :: string
  us_status :: string
  us_kyc_level :: int
  us_email_verified :: bool
  us_totp_enabled :: bool
  us_totp_secret_encrypted :: "string option"
  us_is_admin :: bool
  us_is_mm :: bool

record refresh_token_row =
  rr_id :: uuid
  rr_user_id :: uuid
  rr_session_id :: uuid
  rr_token_hash :: string
  rr_family_id :: uuid
  rr_expires_at :: int
  rr_revoked_at :: "int option"

record 'd asset_row =
  at_id :: uuid
  at_symbol :: string
  at_status :: string
  at_faucet_max :: 'd

record 'd market_record =
  mk_id :: uuid
  mk_symbol :: string
  mk_base_asset_id :: uuid
  mk_quote_asset_id :: uuid
  mk_status :: string
  mk_tick_size :: 'd
  mk_lot_size :: 'd
  mk_min_notional :: 'd
  mk_maker_fee_bps :: 'd
  mk_taker_fee_bps :: 'd

record 'd balance_record =
  ba_user_id :: uuid
  ba_asset_id :: uuid
  ba_available :: 'd
  ba_locked :: 'd

record 'd order_record =
  od_id :: uuid
  od_user_id :: uuid
  od_market_id :: uuid
  od_client_order_id :: "string option"
  od_side :: string
  od_type :: string
  od_status :: string
  od_price :: "'d option"
  od_stop_price :: "'d option"
  od_quantity :: "'d option"
  od_quote_quantity :: "'d option"
  od_display_quantity :: "'d option"
  od_filled_quantity :: 'd
  od_avg_fill_price :: "'d option"

record 'd trade_record =
  tr_id :: uuid
  tr_market_id :: uuid
  tr_taker_order_id :: uuid
  tr_maker_order_id :: uuid
  tr_price :: 'd
  tr_quantity :: 'd
  tr_taker_side :: string
  tr_engine_seq :: int

record 'd ledger_record =
  le_user_id :: uuid
  le_asset_id :: uuid
  le_kind :: string
  le_amount :: 'd
  le_available_after :: 'd
  le_locked_after :: 'd
  le_reference_type :: string
  le_reference_id :: "uuid option"
  le_engine_seq :: "int option"

record 'd deposit_record =
  dp_id :: uuid
  dp_user_id :: uuid
  dp_asset_id :: uuid
  dp_amount :: 'd
  dp_status :: string

type_synonym json = string

record event_record =
  ev_seq :: int
  ev_event_type :: string
  ev_payload :: json
  ev_processed :: bool

record api_key_record =
  ak_id :: uuid
  ak_user_id :: uuid
  ak_label :: string
  ak_secret_hash :: string
  ak_permissions :: "string list"
  ak_revoked_at :: "int option"
  ak_created_at :: int

record audit_record =
  al_actor_user_id :: "uuid option"
  al_action :: string
  al_target_type :: string
  al_target_id :: "uuid option"
  al_metadata :: json

record 'd kline_record =
  kl_symbol :: string
  kl_interval :: string
  kl_opened_at :: int
  kl_closed_at :: int
  kl_open :: 'd
  kl_high :: 'd
  kl_low :: 'd
  kl_close :: 'd
  kl_volume :: 'd
  kl_is_closed :: bool

record 'd db =
  db_users :: "user_row list"
  db_refresh_tokens :: "refresh_token_row list"
  db_assets :: "'d asset_row list"
  db_markets :: "'d market_record list"
  db_balances :: "'d balance_record list"
  db_orders :: "'d order_record list"
  db_trades :: "'d trade_record list"
  db_ledger_entries :: "'d ledger_record list"
  db_deposits :: "'d deposit_record list"
  db_engine_events :: "event_record list"
  db_worker_state :: "(string \<times> int) list"
  db_api_keys :: "api_key_record list"
  db_audit_log :: "audit_record list"
  db_klines :: "'d kline_record list"

section \<open>Statements and transactions\<close>

text \<open>
  A statement fails when \<open>fetch_one\<close> finds no row, when a constraint is violated, or with a panic
  of \<open>rust_decimal\<close> on division by zero; each drops the transaction, which rolls it back.
\<close>

datatype tx_error = RowNotFound | ConstraintViolation | DivisionByZero

type_synonym ('d, 'a) tx = "'d db \<Rightarrow> tx_error + 'a \<times> 'd db"

definition tx_return :: "'a \<Rightarrow> ('d, 'a) tx" where
  "tx_return x = (\<lambda>db. Inr (x, db))"

definition tx_bind :: "('d, 'a) tx \<Rightarrow> ('a \<Rightarrow> ('d, 'b) tx) \<Rightarrow> ('d, 'b) tx" where
  "tx_bind m f = (\<lambda>db. case m db of Inl e \<Rightarrow> Inl e | Inr (x, db') \<Rightarrow> f x db')"

definition fetch_one :: "('r \<Rightarrow> bool) \<Rightarrow> ('d db \<Rightarrow> 'r list) \<Rightarrow> ('d, 'r) tx" where
  "fetch_one P table = (\<lambda>db. case List.find P (table db) of None \<Rightarrow> Inl RowNotFound | Some r \<Rightarrow> Inr (r, db))"

definition update_rows :: "('r \<Rightarrow> bool) \<Rightarrow> ('r \<Rightarrow> 'r) \<Rightarrow> 'r list \<Rightarrow> 'r list" where
  "update_rows P f rows = map (\<lambda>r. if P r then f r else r) rows"

section \<open>Constraints\<close>

definition positive_or_null :: "'d::linordered_field option \<Rightarrow> bool" where
  "positive_or_null x = (case x of None \<Rightarrow> True | Some v \<Rightarrow> 0 < v)"

definition order_checks :: "'d::linordered_field order_record \<Rightarrow> bool" where
  "order_checks r \<longleftrightarrow> positive_or_null (od_price r) \<and> positive_or_null (od_stop_price r)
     \<and> positive_or_null (od_quantity r) \<and> positive_or_null (od_quote_quantity r)
     \<and> positive_or_null (od_display_quantity r) \<and> 0 \<le> od_filled_quantity r
     \<and> (case od_avg_fill_price r of None \<Rightarrow> True | Some v \<Rightarrow> 0 \<le> v)
     \<and> (od_quantity r \<noteq> None \<or> od_quote_quantity r \<noteq> None)"

definition order_references :: "'d db \<Rightarrow> 'd order_record \<Rightarrow> bool" where
  "order_references db r \<longleftrightarrow> (\<exists>u \<in> set (db_users db). us_id u = od_user_id r)
     \<and> (\<exists>m \<in> set (db_markets db). mk_id m = od_market_id r)"

definition balance_checks :: "'d::linordered_field balance_record \<Rightarrow> bool" where
  "balance_checks b \<longleftrightarrow> 0 \<le> ba_available b \<and> 0 \<le> ba_locked b"

definition trade_checks :: "'d::linordered_field trade_record \<Rightarrow> bool" where
  "trade_checks t \<longleftrightarrow> 0 < tr_price t \<and> 0 < tr_quantity t \<and> 0 < tr_engine_seq t"

section \<open>Accounts\<close>

definition is_account :: "uuid \<Rightarrow> uuid \<Rightarrow> 'd balance_record \<Rightarrow> bool" where
  "is_account user_id asset_id b \<longleftrightarrow> ba_user_id b = user_id \<and> ba_asset_id b = asset_id"

definition credit :: "'d \<Rightarrow> 'd \<Rightarrow> 'd::linordered_field balance_record \<Rightarrow> 'd balance_record" where
  "credit available_delta locked_delta b =
     b\<lparr>ba_available := ba_available b + available_delta, ba_locked := ba_locked b + locked_delta\<rparr>"

text \<open>
  \<open>UPDATE balances SET available = available + $3, locked = locked + $4 WHERE user_id = $1 AND
  asset_id = $2 RETURNING available, locked\<close>.
\<close>

definition update_balance ::
  "uuid \<Rightarrow> uuid \<Rightarrow> 'd \<Rightarrow> 'd \<Rightarrow> ('d::linordered_field, 'd balance_record) tx" where
  "update_balance user_id asset_id available_delta locked_delta = (\<lambda>db.
     case List.find (is_account user_id asset_id) (db_balances db) of
       None \<Rightarrow> Inl RowNotFound
     | Some b \<Rightarrow>
         if balance_checks (credit available_delta locked_delta b)
         then Inr (credit available_delta locked_delta b,
                   db\<lparr>db_balances := update_rows (is_account user_id asset_id) (credit available_delta locked_delta)
                                      (db_balances db)\<rparr>)
         else Inl ConstraintViolation)"

section \<open>Laws\<close>

lemma tx_bind_Inr:
  "tx_bind m f db = Inr r \<longleftrightarrow> (\<exists>x db1. m db = Inr (x, db1) \<and> f x db1 = Inr r)"
  by (auto simp: tx_bind_def split: sum.splits)

lemma tx_bind_return [simp]: "tx_bind (tx_return x) f = f x"
  by (simp add: tx_bind_def tx_return_def)

lemma tx_return_Inr [simp]: "tx_return x db = Inr (y, db') \<longleftrightarrow> y = x \<and> db' = db"
  by (auto simp: tx_return_def)

lemma tx_bind_run: "m db = Inr (x, db1) \<Longrightarrow> tx_bind m f db = f x db1"
  by (simp add: tx_bind_def)

lemma tx_bind_fail: "m db = Inl e \<Longrightarrow> tx_bind m f db = Inl e"
  by (simp add: tx_bind_def)

lemma fetch_one_Inr:
  "fetch_one P table db = Inr (r, db') \<longleftrightarrow> List.find P (table db) = Some r \<and> db' = db"
  by (auto simp: fetch_one_def split: option.splits)

lemma find_SomeD: "List.find P xs = Some x \<Longrightarrow> x \<in> set xs \<and> P x"
  by (induction xs) (auto split: if_splits)

lemma find_append_new: "\<forall>x \<in> set xs. \<not> P x \<Longrightarrow> List.find P (xs @ [y]) = (if P y then Some y else None)"
  by (induction xs) auto

lemma set_update_rows: "r \<in> set (update_rows P f rows) \<longleftrightarrow> (\<exists>x \<in> set rows. r = (if P x then f x else x))"
  by (auto simp: update_rows_def)

lemma ball_update_rows: "(\<forall>r \<in> set (update_rows P f rows). Q r) \<longleftrightarrow> (\<forall>r \<in> set rows. Q (if P r then f r else r))"
  by (auto simp: update_rows_def)

text \<open>
  An \<open>UPDATE\<close> that selects one primary key and keeps it: lookups of that key see the new row, lookups
  of other keys are untouched, and a column sum changes by that one row.
\<close>

locale keyed_update =
  fixes key :: "'r \<Rightarrow> 'k" and k :: 'k and f :: "'r \<Rightarrow> 'r"
  assumes keeps_key: "key (f x) = key x"
begin

abbreviation updated :: "'r list \<Rightarrow> 'r list" where
  "updated \<equiv> update_rows (\<lambda>x. key x = k) f"

lemma keys_updated [simp]: "map key (updated rows) = map key rows"
  by (auto simp: update_rows_def keeps_key)

lemma key_set_updated [simp]: "key ` set (updated rows) = key ` set rows"
proof -
  have "set (map key (updated rows)) = set (map key rows)" by (simp only: keys_updated)
  then show ?thesis by (simp only: list.set_map)
qed

lemma find_updated:
  "List.find (\<lambda>x. key x = k') (updated rows) =
     map_option (\<lambda>x. if k' = k then f x else x) (List.find (\<lambda>x. key x = k') rows)"
  by (induction rows) (auto simp: update_rows_def keeps_key)

lemma sum_updated:
  fixes g :: "'r \<Rightarrow> 'd::linordered_field"
  assumes "distinct (map key rows)" and "List.find (\<lambda>x. key x = k) rows = Some x"
  shows "sum_list (map g (updated rows)) = sum_list (map g rows) - g x + g (f x)"
  using assms
proof (induction rows)
  case (Cons y rows)
  show ?case
  proof (cases "key y = k")
    case True
    with Cons.prems(1) have "k \<notin> key ` set rows" by auto
    then have "updated rows = rows" by (auto simp: update_rows_def intro!: map_idI)
    with True Cons.prems(2) show ?thesis by (simp add: update_rows_def)
  next
    case False
    with Cons show ?thesis by (simp add: update_rows_def)
  qed
qed simp

end

lemma find_by_key:
  "distinct (map key rows) \<Longrightarrow> x \<in> set rows \<Longrightarrow> List.find (\<lambda>y. key y = key x) rows = Some x"
  by (induction rows) (auto simp: image_iff)

definition account_key :: "'d balance_record \<Rightarrow> uuid \<times> uuid" where
  "account_key b = (ba_user_id b, ba_asset_id b)"

interpretation credited: keyed_update account_key "(user_id, asset_id)" "credit available_delta locked_delta"
  for user_id asset_id and available_delta locked_delta :: "'d::linordered_field"
  by unfold_locales (simp add: account_key_def credit_def)

lemma is_account_key: "is_account u a = (\<lambda>b. account_key b = (u, a))"
  by (auto simp: is_account_def account_key_def)

lemma update_balance_Inr:
  "update_balance u a da dl db = Inr (b', db') \<longleftrightarrow>
     (\<exists>b. List.find (is_account u a) (db_balances db) = Some b \<and> b' = credit da dl b \<and> balance_checks b'
        \<and> db' = db\<lparr>db_balances := update_rows (is_account u a) (credit da dl) (db_balances db)\<rparr>)"
  by (auto simp: update_balance_def Let_def split: option.splits if_splits)

end
