(* ===== verification/Settlement.thy ===== *)
theory Settlement
  imports Exchange_Db Event_Log
begin

text \<open>
  The settlement worker (\<open>services/settlement/src/settlement.rs\<close>, \<open>events.rs\<close>, \<open>bridge.rs\<close>): the bridge
  stores engine events in Postgres, the worker takes them in sequence order and applies each to
  orders, trades, balances and ledger in one transaction. The JSON codec is a parameter.
\<close>

definition BPS_DENOMINATOR :: int where
  "BPS_DENOMINATOR = 10000"

definition SETTLEMENT_WORKER :: string where
  "SETTLEMENT_WORKER = ''settlement''"

section \<open>Stored events\<close>

record 'd event_codec =
  from_engine_event :: "json \<Rightarrow> 'd engine_event option"
  from_sequenced_event :: "json \<Rightarrow> 'd sequenced_engine_event option"
  to_event_value :: "'d engine_event \<Rightarrow> json option"

record stored_engine_event =
  st_seq :: int
  st_event_type :: string
  st_payload :: json

datatype event_decode_error = InvalidPayload

datatype settlement_error = Database tx_error | Decode event_decode_error | SettlementSequenceOutOfRange

definition decode :: "'d event_codec \<Rightarrow> stored_engine_event \<Rightarrow> event_decode_error + 'd engine_event" where
  "decode codec stored =
     (case from_engine_event codec (st_payload stored) of
        Some event \<Rightarrow> Inr event
      | None \<Rightarrow>
          (case from_sequenced_event codec (st_payload stored) of
             Some sequenced \<Rightarrow> Inr (se_event sequenced)
           | None \<Rightarrow> Inl InvalidPayload))"

section \<open>The bridge\<close>

datatype bridge_error = BridgeIo | BridgeDatabase tx_error | SequenceOutOfRange | Closed

fun event_type :: "'d engine_event \<Rightarrow> string" where
  "event_type (OrderAccepted _) = ''orderAccepted''"
| "event_type (OrderRested _) = ''orderRested''"
| "event_type (FillEvent _) = ''fill''"
| "event_type (OrderCanceled _) = ''orderCanceled''"
| "event_type (BookDelta _) = ''bookDelta''"
| "event_type (MarketStatus _) = ''marketStatus''"

text \<open>\<open>INSERT INTO engine_events ... ON CONFLICT (seq) DO NOTHING\<close>; the check \<open>seq > 0\<close> comes first.\<close>

definition persist_event ::
  "'d event_codec \<Rightarrow> 'd sequenced_engine_event \<Rightarrow> 'd db \<Rightarrow> 'd db \<times> (bridge_error + unit)" where
  "persist_event codec event db =
     (if uint (se_seq event) \<ge> 2 ^ 63 then (db, Inl SequenceOutOfRange)
      else
        (case to_event_value codec (se_event event) of
           None \<Rightarrow> (db, Inl BridgeIo)
         | Some payload \<Rightarrow>
             if uint (se_seq event) \<le> 0 then (db, Inl (BridgeDatabase ConstraintViolation))
             else if \<exists>row \<in> set (db_engine_events db). ev_seq row = uint (se_seq event) then (db, Inr ())
             else
               (db\<lparr>db_engine_events := db_engine_events db @
                   [\<lparr>ev_seq = uint (se_seq event), ev_event_type = event_type (se_event event), ev_payload = payload,
                     ev_processed = False\<rparr>]\<rparr>,
                Inr ())))"

text \<open>
  The loop of \<open>run_once\<close> over the frames of one connection: \<open>None\<close> is a frame that cannot be
  read, the end of the list the end of the stream. The loop never ends without an error.
\<close>

fun run_once :: "'d event_codec \<Rightarrow> 'd engine_response option list \<Rightarrow> 'd db \<Rightarrow> 'd db \<times> bridge_error" where
  "run_once codec [] db = (db, Closed)"
| "run_once codec (None # frames) db = (db, BridgeIo)"
| "run_once codec (Some response # frames) db =
     (case response of
        Event event \<Rightarrow>
          (case persist_event codec event db of
             (db', Inl e) \<Rightarrow> (db', e)
           | (db', Inr _) \<Rightarrow> run_once codec frames db')
      | _ \<Rightarrow> run_once codec frames db)"

section \<open>Rows of the queries\<close>

record 'd order_row =
  ow_id :: uuid
  ow_user_id :: uuid
  ow_market_id :: uuid
  ow_side :: string
  ow_quantity :: "'d option"
  ow_price :: "'d option"
  ow_filled_quantity :: 'd
  ow_avg_fill_price :: "'d option"
  ow_status :: string
  ow_base_asset_id :: uuid
  ow_quote_asset_id :: uuid
  ow_maker_fee_bps :: 'd
  ow_taker_fee_bps :: 'd

record market_row =
  mw_id :: uuid
  mw_base_asset_id :: uuid
  mw_quote_asset_id :: uuid

record 'd ledger_mutation =
  lm_user_id :: uuid
  lm_asset_id :: uuid
  lm_kind :: string
  lm_amount :: 'd
  lm_available_delta :: 'd
  lm_locked_delta :: 'd
  lm_reference_type :: string
  lm_reference_id :: "uuid option"
  lm_engine_seq :: "int option"

section \<open>Helpers\<close>

fun order_side_db :: "order_side \<Rightarrow> string" where
  "order_side_db WBuy = ''buy''"
| "order_side_db WSell = ''sell''"

fun order_type_db :: "engine_order_type \<Rightarrow> string" where
  "order_type_db WLimit = ''limit''"
| "order_type_db WIceberg = ''limit''"
| "order_type_db WMarket = ''market''"
| "order_type_db WIoc = ''ioc''"
| "order_type_db WFok = ''fok''"
| "order_type_db WPostOnly = ''post_only''"
| "order_type_db WStopLimit = ''stop_limit''"
| "order_type_db WStopMarket = ''stop_market''"
| "order_type_db WOco = ''oco''"

definition fee_amount :: "'d::linordered_field \<Rightarrow> 'd \<Rightarrow> 'd" where
  "fee_amount gross fee_bps = gross * fee_bps / of_int BPS_DENOMINATOR"

definition lock_obligation :: "'d::linordered_field engine_order \<Rightarrow> market_row \<Rightarrow> uuid \<times> 'd" where
  "lock_obligation ord market =
     (case eo_side ord of
        WBuy \<Rightarrow> (mw_quote_asset_id market, (case eo_price ord of None \<Rightarrow> 0 | Some price \<Rightarrow> price * eo_quantity ord))
      | WSell \<Rightarrow> (mw_base_asset_id market, eo_quantity ord))"

section \<open>Queries\<close>

definition stored_event :: "event_record \<Rightarrow> stored_engine_event" where
  "stored_event row = \<lparr>st_seq = ev_seq row, st_event_type = ev_event_type row, st_payload = ev_payload row\<rparr>"

text \<open>\<open>ORDER BY seq LIMIT 1\<close> over the unprocessed events.\<close>

definition fetch_next_event :: "'d db \<Rightarrow> stored_engine_event option" where
  "fetch_next_event db =
     (case sort_key ev_seq (filter (\<lambda>row. \<not> ev_processed row) (db_engine_events db)) of
        [] \<Rightarrow> None
      | row # _ \<Rightarrow> Some (stored_event row))"

definition fetch_market :: "string \<Rightarrow> ('d, market_row) tx" where
  "fetch_market symbol =
     tx_bind (fetch_one (\<lambda>m. mk_symbol m = symbol) db_markets) (\<lambda>m.
       tx_return \<lparr>mw_id = mk_id m, mw_base_asset_id = mk_base_asset_id m, mw_quote_asset_id = mk_quote_asset_id m\<rparr>)"

definition fetch_order :: "uuid \<Rightarrow> ('d, 'd order_row) tx" where
  "fetch_order order_id =
     tx_bind (fetch_one (\<lambda>r. od_id r = order_id) db_orders) (\<lambda>r.
     tx_bind (fetch_one (\<lambda>m. mk_id m = od_market_id r) db_markets) (\<lambda>m.
       tx_return
         \<lparr>ow_id = od_id r, ow_user_id = od_user_id r, ow_market_id = od_market_id r, ow_side = od_side r,
          ow_quantity = od_quantity r, ow_price = od_price r, ow_filled_quantity = od_filled_quantity r,
          ow_avg_fill_price = od_avg_fill_price r, ow_status = od_status r,
          ow_base_asset_id = mk_base_asset_id m, ow_quote_asset_id = mk_quote_asset_id m,
          ow_maker_fee_bps = mk_maker_fee_bps m, ow_taker_fee_bps = mk_taker_fee_bps m\<rparr>))"

text \<open>
  \<open>INSERT ... ON CONFLICT (id) DO NOTHING\<close>: checks are tested before the conflict, references only
  for a row that is inserted. The result says whether a row was inserted.
\<close>

definition insert_order :: "'d::linordered_field engine_order \<Rightarrow> uuid \<Rightarrow> ('d, bool) tx" where
  "insert_order ord market_id = (\<lambda>db.
     let row = \<lparr>od_id = eo_id ord, od_user_id = eo_user_id ord, od_market_id = market_id, od_client_order_id = None,
                od_side = order_side_db (eo_side ord), od_type = order_type_db (eo_order_type ord), od_status = ''new'',
                od_price = eo_price ord, od_stop_price = eo_stop_price ord, od_quantity = Some (eo_quantity ord),
                od_quote_quantity = None, od_display_quantity = eo_display_qty ord, od_filled_quantity = 0,
                od_avg_fill_price = None\<rparr>
     in if \<not> order_checks row then Inl ConstraintViolation
        else if \<exists>r \<in> set (db_orders db). od_id r = eo_id ord then Inr (False, db)
        else if \<not> order_references db row then Inl ConstraintViolation
        else Inr (True, db\<lparr>db_orders := db_orders db @ [row]\<rparr>))"

definition insert_trade :: "int \<Rightarrow> 'd::linordered_field trade_fill \<Rightarrow> uuid \<Rightarrow> ('d, unit) tx" where
  "insert_trade seq fill market_id = (\<lambda>db.
     let row = \<lparr>tr_id = tf_trade_id fill, tr_market_id = market_id, tr_taker_order_id = tf_taker_order_id fill,
                tr_maker_order_id = tf_maker_order_id fill, tr_price = tf_price fill, tr_quantity = tf_quantity fill,
                tr_taker_side = order_side_db (tf_taker_side fill), tr_engine_seq = seq\<rparr>
     in if \<not> trade_checks row then Inl ConstraintViolation
        else if \<exists>t \<in> set (db_trades db). tr_engine_seq t = seq then Inr ((), db)
        else if \<exists>t \<in> set (db_trades db). tr_id t = tf_trade_id fill then Inl ConstraintViolation
        else Inr ((), db\<lparr>db_trades := db_trades db @ [row]\<rparr>))"

definition apply_ledger :: "'d::linordered_field ledger_mutation \<Rightarrow> ('d, unit) tx" where
  "apply_ledger mutation =
     tx_bind (update_balance (lm_user_id mutation) (lm_asset_id mutation) (lm_available_delta mutation)
       (lm_locked_delta mutation)) (\<lambda>balance db.
       Inr ((), db\<lparr>db_ledger_entries := db_ledger_entries db @
         [\<lparr>le_user_id = lm_user_id mutation, le_asset_id = lm_asset_id mutation, le_kind = lm_kind mutation,
           le_amount = lm_amount mutation, le_available_after = ba_available balance,
           le_locked_after = ba_locked balance, le_reference_type = lm_reference_type mutation,
           le_reference_id = lm_reference_id mutation, le_engine_seq = lm_engine_seq mutation\<rparr>]\<rparr>))"

definition set_fill :: "'d \<Rightarrow> 'd \<Rightarrow> string \<Rightarrow> 'd::linordered_field order_record \<Rightarrow> 'd order_record" where
  "set_fill new_filled avg_fill_price status r =
     r\<lparr>od_filled_quantity := new_filled, od_avg_fill_price := Some avg_fill_price, od_status := status\<rparr>"

definition update_order_fill :: "'d::linordered_field order_row \<Rightarrow> 'd \<Rightarrow> 'd \<Rightarrow> ('d, unit) tx" where
  "update_order_fill ord price quantity = (\<lambda>db.
     let new_filled = ow_filled_quantity ord + quantity;
         old_notional = (case ow_avg_fill_price ord of None \<Rightarrow> 0 | Some avg \<Rightarrow> avg) * ow_filled_quantity ord
     in if new_filled = 0 then Inl DivisionByZero
        else
          let avg_fill_price = (old_notional + price * quantity) / new_filled;
              status = (case ow_quantity ord of
                          None \<Rightarrow> ''partial''
                        | Some wanted \<Rightarrow> if wanted \<le> new_filled then ''filled'' else ''partial'');
              rows = update_rows (\<lambda>r. od_id r = ow_id ord) (set_fill new_filled avg_fill_price status) (db_orders db)
          in if list_all (\<lambda>r. od_id r = ow_id ord \<longrightarrow> order_checks r) rows
             then Inr ((), db\<lparr>db_orders := rows\<rparr>) else Inl ConstraintViolation)"

definition set_status :: "string \<Rightarrow> 'd order_record \<Rightarrow> 'd order_record" where
  "set_status status r = r\<lparr>od_status := status\<rparr>"

section \<open>Settling one event\<close>

definition settle_order_accepted ::
  "int \<Rightarrow> 'd::linordered_field order_accepted_event \<Rightarrow> ('d, unit) tx" where
  "settle_order_accepted seq event =
     tx_bind (fetch_market (eo_symbol (oa_order event))) (\<lambda>market.
     tx_bind (insert_order (oa_order event) (mw_id market)) (\<lambda>inserted.
       if \<not> inserted then tx_return ()
       else
         let (asset_id, obligation) = lock_obligation (oa_order event) market
         in if 0 < obligation then
              apply_ledger
                \<lparr>lm_user_id = eo_user_id (oa_order event), lm_asset_id = asset_id, lm_kind = ''lock'', lm_amount = 0,
                 lm_available_delta = - obligation, lm_locked_delta = obligation, lm_reference_type = ''order'',
                 lm_reference_id = Some (eo_id (oa_order event)), lm_engine_seq = Some seq\<rparr>
            else tx_return ()))"

text \<open>The six ledger mutations of a fill, in the order they are applied.\<close>

definition trade_mutation ::
  "int \<Rightarrow> 'd trade_fill \<Rightarrow> uuid \<Rightarrow> uuid \<Rightarrow> string \<Rightarrow> 'd \<Rightarrow> 'd \<Rightarrow> 'd \<Rightarrow> 'd ledger_mutation" where
  "trade_mutation seq fill user_id asset_id kind amount available_delta locked_delta =
     \<lparr>lm_user_id = user_id, lm_asset_id = asset_id, lm_kind = kind, lm_amount = amount,
      lm_available_delta = available_delta, lm_locked_delta = locked_delta, lm_reference_type = ''trade'',
      lm_reference_id = Some (tf_trade_id fill), lm_engine_seq = Some seq\<rparr>"

definition fill_mutations ::
  "int \<Rightarrow> 'd::linordered_field trade_fill \<Rightarrow> 'd order_row \<Rightarrow> 'd order_row \<Rightarrow> 'd ledger_mutation list" where
  "fill_mutations seq fill taker maker =
     (let notional = tf_price fill * tf_quantity fill;
          taker_fee = fee_amount (tf_quantity fill) (ow_taker_fee_bps taker);
          maker_fee = fee_amount notional (ow_maker_fee_bps maker);
          (buyer, seller) = (case tf_taker_side fill of WBuy \<Rightarrow> (taker, maker) | WSell \<Rightarrow> (maker, taker))
      in [trade_mutation seq fill (ow_user_id buyer) (ow_base_asset_id buyer) ''trade'' (tf_quantity fill) (tf_quantity fill) 0,
          trade_mutation seq fill (ow_user_id buyer) (ow_base_asset_id buyer) ''fee'' (- taker_fee) (- taker_fee) 0,
          trade_mutation seq fill (ow_user_id buyer) (ow_quote_asset_id buyer) ''trade'' (- notional) 0 (- notional),
          trade_mutation seq fill (ow_user_id seller) (ow_quote_asset_id seller) ''trade'' notional notional 0,
          trade_mutation seq fill (ow_user_id seller) (ow_quote_asset_id seller) ''fee'' (- maker_fee) (- maker_fee) 0,
          trade_mutation seq fill (ow_user_id seller) (ow_base_asset_id seller) ''trade'' (- tf_quantity fill) 0
            (- tf_quantity fill)])"

fun apply_ledgers :: "'d::linordered_field ledger_mutation list \<Rightarrow> ('d, unit) tx" where
  "apply_ledgers [] = tx_return ()"
| "apply_ledgers (mutation # mutations) = tx_bind (apply_ledger mutation) (\<lambda>_. apply_ledgers mutations)"

definition apply_fill_ledger ::
  "int \<Rightarrow> 'd::linordered_field trade_fill \<Rightarrow> 'd order_row \<Rightarrow> 'd order_row \<Rightarrow> ('d, unit) tx" where
  "apply_fill_ledger seq fill taker maker = apply_ledgers (fill_mutations seq fill taker maker)"

definition settle_fill :: "int \<Rightarrow> 'd::linordered_field trade_fill \<Rightarrow> ('d, unit) tx" where
  "settle_fill seq fill = (\<lambda>db.
     if \<exists>t \<in> set (db_trades db). tr_engine_seq t = seq then Inr ((), db)
     else
       tx_bind (fetch_order (tf_taker_order_id fill)) (\<lambda>taker.
       tx_bind (fetch_order (tf_maker_order_id fill)) (\<lambda>maker.
       tx_bind (insert_trade seq fill (ow_market_id taker)) (\<lambda>_.
       tx_bind (apply_fill_ledger seq fill taker maker) (\<lambda>_.
       tx_bind (update_order_fill taker (tf_price fill) (tf_quantity fill)) (\<lambda>_.
         update_order_fill maker (tf_price fill) (tf_quantity fill)))))) db)"

definition settle_cancel :: "int \<Rightarrow> order_canceled_event \<Rightarrow> ('d::linordered_field, unit) tx" where
  "settle_cancel seq event =
     tx_bind (fetch_order (oc_order_id event)) (\<lambda>ord.
       if ow_status ord = ''canceled'' \<or> ow_status ord = ''filled'' then tx_return ()
       else
         let remaining = (case ow_quantity ord of None \<Rightarrow> 0 | Some quantity \<Rightarrow> quantity - ow_filled_quantity ord);
             obligation = (if ow_side ord = ''buy'' then (case ow_price ord of None \<Rightarrow> 0 | Some price \<Rightarrow> price * remaining)
                           else remaining);
             asset_id = (if ow_side ord = ''buy'' then ow_quote_asset_id ord else ow_base_asset_id ord)
         in tx_bind
              (if 0 < obligation then
                 apply_ledger
                   \<lparr>lm_user_id = ow_user_id ord, lm_asset_id = asset_id, lm_kind = ''unlock'', lm_amount = 0,
                    lm_available_delta = obligation, lm_locked_delta = - obligation, lm_reference_type = ''order'',
                    lm_reference_id = Some (oc_order_id event), lm_engine_seq = Some seq\<rparr>
               else tx_return ()) (\<lambda>_ db.
              Inr ((), db\<lparr>db_orders := update_rows (\<lambda>r. od_id r = oc_order_id event) (set_status ''canceled'') (db_orders db)\<rparr>)))"

definition mark_processed :: "int \<Rightarrow> ('d, unit) tx" where
  "mark_processed seq = (\<lambda>db.
     let last_seq = (case map_of (db_worker_state db) SETTLEMENT_WORKER of None \<Rightarrow> seq | Some s \<Rightarrow> max s seq)
     in Inr ((), db\<lparr>db_engine_events := update_rows (\<lambda>row. ev_seq row = seq) (\<lambda>row. row\<lparr>ev_processed := True\<rparr>) (db_engine_events db),
                     db_worker_state := AList.update SETTLEMENT_WORKER last_seq (db_worker_state db)\<rparr>))"

fun settle_event :: "int \<Rightarrow> 'd::linordered_field engine_event \<Rightarrow> ('d, unit) tx" where
  "settle_event seq (OrderAccepted event) = settle_order_accepted seq event"
| "settle_event seq (FillEvent fill) = settle_fill seq fill"
| "settle_event seq (OrderCanceled event) = settle_cancel seq event"
| "settle_event seq (OrderRested _) = tx_return ()"
| "settle_event seq (BookDelta _) = tx_return ()"
| "settle_event seq (MarketStatus _) = tx_return ()"

section \<open>The worker\<close>

definition process_next :: "'d event_codec \<Rightarrow> 'd::linordered_field db \<Rightarrow> 'd db \<times> (settlement_error + bool)" where
  "process_next codec db =
     (case fetch_next_event db of
        None \<Rightarrow> (db, Inr False)
      | Some stored \<Rightarrow>
          (case decode codec stored of
             Inl e \<Rightarrow> (db, Inl (Decode e))
           | Inr event \<Rightarrow>
               (case tx_bind (settle_event (st_seq stored) event) (\<lambda>_. mark_processed (st_seq stored)) db of
                  Inl e \<Rightarrow> (db, Inl (Database e))
                | Inr (_, db') \<Rightarrow> (db', Inr True))))"

section \<open>Termination of the worker\<close>

definition unprocessed :: "'d db \<Rightarrow> nat" where
  "unprocessed db = length (filter (\<lambda>row. \<not> ev_processed row) (db_engine_events db))"

lemma update_balance_frame:
  "update_balance u a da dl db = Inr (b, db') \<Longrightarrow>
     db_engine_events db' = db_engine_events db \<and> db_orders db' = db_orders db \<and> db_trades db' = db_trades db
     \<and> db_markets db' = db_markets db \<and> db_users db' = db_users db \<and> db_assets db' = db_assets db
     \<and> db_ledger_entries db' = db_ledger_entries db"
  by (auto simp: update_balance_Inr)

lemma apply_ledger_Inr:
  "apply_ledger m db = Inr (x, db') \<longleftrightarrow>
     (\<exists>b db1. update_balance (lm_user_id m) (lm_asset_id m) (lm_available_delta m) (lm_locked_delta m) db = Inr (b, db1)
       \<and> db' = db1\<lparr>db_ledger_entries := db_ledger_entries db1 @
         [\<lparr>le_user_id = lm_user_id m, le_asset_id = lm_asset_id m, le_kind = lm_kind m,
           le_amount = lm_amount m, le_available_after = ba_available b,
           le_locked_after = ba_locked b, le_reference_type = lm_reference_type m,
           le_reference_id = lm_reference_id m, le_engine_seq = lm_engine_seq m\<rparr>]\<rparr>)"
  by (auto simp: apply_ledger_def tx_bind_Inr)

lemma apply_ledger_frame:
  "apply_ledger m db = Inr (x, db') \<Longrightarrow>
     db_engine_events db' = db_engine_events db \<and> db_orders db' = db_orders db \<and> db_trades db' = db_trades db
     \<and> db_markets db' = db_markets db \<and> db_users db' = db_users db \<and> db_assets db' = db_assets db"
  by (auto simp: apply_ledger_Inr dest!: update_balance_frame)

lemma apply_ledgers_frame:
  "apply_ledgers ms db = Inr (x, db') \<Longrightarrow>
     db_engine_events db' = db_engine_events db \<and> db_orders db' = db_orders db \<and> db_trades db' = db_trades db
     \<and> db_markets db' = db_markets db \<and> db_users db' = db_users db \<and> db_assets db' = db_assets db"
  by (induction ms arbitrary: db) (fastforce simp: tx_bind_Inr dest!: apply_ledger_frame)+

lemma fetch_order_Inr_db: "fetch_order i db = Inr (r, db') \<Longrightarrow> db' = db"
  by (auto simp: fetch_order_def tx_bind_Inr fetch_one_Inr)

lemma fetch_market_Inr_db: "fetch_market i db = Inr (r, db') \<Longrightarrow> db' = db"
  by (auto simp: fetch_market_def tx_bind_Inr fetch_one_Inr)

lemma insert_order_frame:
  "insert_order ord m db = Inr (x, db') \<Longrightarrow> db_engine_events db' = db_engine_events db \<and> db_balances db' = db_balances db
     \<and> db_ledger_entries db' = db_ledger_entries db \<and> db_trades db' = db_trades db"
  by (auto simp: insert_order_def Let_def split: if_splits)

lemma insert_trade_frame:
  "insert_trade seq fl m db = Inr (x, db') \<Longrightarrow> db_engine_events db' = db_engine_events db \<and> db_balances db' = db_balances db
     \<and> db_ledger_entries db' = db_ledger_entries db \<and> db_orders db' = db_orders db \<and> db_markets db' = db_markets db"
  by (auto simp: insert_trade_def Let_def split: if_splits)

lemma update_order_fill_frame:
  "update_order_fill r p q db = Inr (x, db') \<Longrightarrow> db_engine_events db' = db_engine_events db \<and> db_balances db' = db_balances db
     \<and> db_ledger_entries db' = db_ledger_entries db \<and> db_trades db' = db_trades db"
  by (auto simp: update_order_fill_def Let_def split: if_splits)

lemma settle_order_accepted_events:
  "settle_order_accepted seq ev db = Inr (x, db') \<Longrightarrow> db_engine_events db' = db_engine_events db"
  by (auto simp: settle_order_accepted_def tx_bind_Inr Let_def split: if_splits prod.splits
      dest!: fetch_market_Inr_db insert_order_frame apply_ledger_frame)

lemma settle_fill_events:
  "settle_fill seq fl db = Inr (x, db') \<Longrightarrow> db_engine_events db' = db_engine_events db"
  by (auto simp: settle_fill_def tx_bind_Inr apply_fill_ledger_def split: if_splits
      dest!: fetch_order_Inr_db insert_trade_frame apply_ledgers_frame update_order_fill_frame)

lemma settle_cancel_events:
  "settle_cancel seq ev db = Inr (x, db') \<Longrightarrow> db_engine_events db' = db_engine_events db"
  by (auto simp: settle_cancel_def tx_bind_Inr Let_def split: if_splits dest!: fetch_order_Inr_db apply_ledger_frame)

lemma settle_event_events:
  "settle_event seq ev db = Inr (x, db') \<Longrightarrow> db_engine_events db' = db_engine_events db"
  by (cases ev) (auto dest: settle_order_accepted_events settle_fill_events settle_cancel_events)

lemma fetch_next_event_Some:
  assumes "fetch_next_event db = Some stored"
  obtains row where "row \<in> set (db_engine_events db)" and "\<not> ev_processed row" and "ev_seq row = st_seq stored"
    and "stored = stored_event row"
    and "\<And>row'. row' \<in> set (db_engine_events db) \<Longrightarrow> \<not> ev_processed row' \<Longrightarrow> st_seq stored \<le> ev_seq row'"
proof -
  let ?rows = "filter (\<lambda>row. \<not> ev_processed row) (db_engine_events db)"
  obtain row rest where s: "sort_key ev_seq ?rows = row # rest"
    and st: "stored = stored_event row"
    using assms by (auto simp: fetch_next_event_def split: list.splits)
  have "row \<in> set ?rows" using arg_cong [OF s, of set] by auto
  moreover have "sorted (map ev_seq (row # rest))" using sorted_sort_key [of ev_seq ?rows] s by simp
  then have "\<forall>row' \<in> set (row # rest). ev_seq row \<le> ev_seq row'" by auto
  then have "\<forall>row' \<in> set ?rows. ev_seq row \<le> ev_seq row'" using arg_cong [OF s, of set] by simp
  ultimately show thesis using that [of row] st by (auto simp: stored_event_def)
qed

lemma length_filter_update_rows_less:
  assumes "x \<in> set rows" and "\<not> Q x" and "P x" and "\<And>y. Q (f y)"
  shows "length (filter (\<lambda>y. \<not> Q y) (update_rows P f rows)) < length (filter (\<lambda>y. \<not> Q y) rows)"
proof -
  have le: "length (filter (\<lambda>y. \<not> Q y) (update_rows P f ys)) \<le> length (filter (\<lambda>y. \<not> Q y) ys)" for ys
    using assms(4) by (induction ys) (auto simp: update_rows_def)
  obtain ys zs where rows: "rows = ys @ x # zs" using split_list [OF assms(1)] by blast
  show ?thesis using le [of ys] le [of zs] assms(2-4) by (simp add: rows update_rows_def)
qed

lemma process_next_True:
  assumes "process_next codec db = (db', Inr True)"
  obtains stored ev db1 where "fetch_next_event db = Some stored" and "decode codec stored = Inr ev"
    and "settle_event (st_seq stored) ev db = Inr ((), db1)" and "mark_processed (st_seq stored) db1 = Inr ((), db')"
  using assms by (auto simp: process_next_def tx_bind_def split: option.splits sum.splits prod.splits)

lemma process_next_decreases:
  assumes "process_next codec db = (db', Inr True)"
  shows "unprocessed db' < unprocessed db"
proof (rule process_next_True [OF assms])
  fix stored ev db1
  assume next_ev: "fetch_next_event db = Some stored" and se: "settle_event (st_seq stored) ev db = Inr ((), db1)"
    and mk: "mark_processed (st_seq stored) db1 = Inr ((), db')"
  obtain row where "row \<in> set (db_engine_events db)" "\<not> ev_processed row" "ev_seq row = st_seq stored"
    by (rule fetch_next_event_Some [OF next_ev])
  with settle_event_events [OF se] mk show ?thesis
    by (auto simp: unprocessed_def mark_processed_def intro!: length_filter_update_rows_less)
qed

text \<open>
  \<open>process_available\<close>: the loop ends because every round that continues marks an event processed.
\<close>

function process_loop :: "'d event_codec \<Rightarrow> u64 \<Rightarrow> 'd::linordered_field db \<Rightarrow> 'd db \<times> (settlement_error + u64)" where
  "process_loop codec processed db =
     (case process_next codec db of
        (db', Inl e) \<Rightarrow> (db', Inl e)
      | (db', Inr False) \<Rightarrow> (db', Inr processed)
      | (db', Inr True) \<Rightarrow> process_loop codec (saturating_succ processed) db')"
  by pat_completeness auto
termination
  by (relation "measure (\<lambda>(_, _, db). unprocessed db)") (auto dest: process_next_decreases sym)

declare process_loop.simps [simp del]

definition process_available :: "'d event_codec \<Rightarrow> 'd::linordered_field db \<Rightarrow> 'd db \<times> (settlement_error + u64)" where
  "process_available codec db = process_loop codec 0 db"

end
