(* ===== verification/Settlement_Ledger.thy ===== *)
theory Settlement_Ledger
  imports Settlement
begin

text \<open>
  Correctness of settlement: the ledger explains every balance, a trade moves value between its
  parties and loses only the fees, each event is settled once, fills are accounted for on both
  orders, and where the code falls short of that.
\<close>

section \<open>Ledger and balances\<close>

definition ledger_sum :: "'d::linordered_field db \<Rightarrow> uuid \<Rightarrow> uuid \<Rightarrow> 'd" where
  "ledger_sum db u a =
     sum_list (map le_amount (filter (\<lambda>e. le_user_id e = u \<and> le_asset_id e = a) (db_ledger_entries db)))"

definition ledger_inv :: "'d::linordered_field db \<Rightarrow> bool" where
  "ledger_inv db \<longleftrightarrow> distinct (map account_key (db_balances db)) \<and>
     (\<forall>b \<in> set (db_balances db). balance_checks b
        \<and> ba_available b + ba_locked b = ledger_sum db (ba_user_id b) (ba_asset_id b))
     \<and> (\<forall>u a. (u, a) \<notin> account_key ` set (db_balances db) \<longrightarrow> ledger_sum db u a = 0)"

text \<open>A weighted sum over the accounts that a predicate on (user, asset) selects.\<close>

definition held :: "'d \<Rightarrow> 'd \<Rightarrow> (uuid \<times> uuid \<Rightarrow> bool) \<Rightarrow> 'd::linordered_field db \<Rightarrow> 'd" where
  "held ca cl S db =
     sum_list (map (\<lambda>b. if S (account_key b) then ca * ba_available b + cl * ba_locked b else 0) (db_balances db))"

definition asset_total :: "'d::linordered_field db \<Rightarrow> uuid \<Rightarrow> 'd" where
  "asset_total db a = held 1 1 (\<lambda>k. snd k = a) db"

definition holding :: "'d::linordered_field db \<Rightarrow> uuid \<Rightarrow> uuid \<Rightarrow> 'd" where
  "holding db u a = held 1 1 (\<lambda>k. k = (u, a)) db"

definition locked_amount :: "'d::linordered_field db \<Rightarrow> uuid \<Rightarrow> uuid \<Rightarrow> 'd" where
  "locked_amount db u a = held 0 1 (\<lambda>k. k = (u, a)) db"

lemma ledger_inv_cong:
  "db_balances db' = db_balances db \<Longrightarrow> db_ledger_entries db' = db_ledger_entries db \<Longrightarrow> ledger_inv db' = ledger_inv db"
  by (simp add: ledger_inv_def ledger_sum_def)

text \<open>A balance update followed by a ledger entry for its net amount, or by none when the net amount is zero.\<close>

lemma update_balance_ledger:
  assumes inv: "ledger_inv db" and up: "update_balance u a da dl db = Inr (b, db1)"
    and bal: "db_balances db' = db_balances db1"
    and sum: "\<And>u' a'. ledger_sum db' u' a' = ledger_sum db u' a' + (if u' = u \<and> a' = a then da + dl else 0)"
  shows "ledger_inv db'"
proof -
  from up have rows: "db_balances db1 = update_rows (is_account u a) (credit da dl) (db_balances db)"
    and chk: "balance_checks b" and b: "\<exists>b0. List.find (is_account u a) (db_balances db) = Some b0 \<and> b = credit da dl b0"
    by (auto simp: update_balance_Inr)
  have dist: "distinct (map account_key (db_balances db))" using inv by (simp add: ledger_inv_def)
  have "balance_checks r \<and> ba_available r + ba_locked r = ledger_sum db' (ba_user_id r) (ba_asset_id r)"
    if r: "r \<in> set (db_balances db1)" for r
  proof -
    from r rows obtain x where x: "x \<in> set (db_balances db)" "r = (if is_account u a x then credit da dl x else x)"
      by (auto simp: set_update_rows)
    with inv have old: "balance_checks x" "ba_available x + ba_locked x = ledger_sum db (ba_user_id x) (ba_asset_id x)"
      by (simp_all add: ledger_inv_def)
    show ?thesis
    proof (cases "is_account u a x")
      case True
      with find_by_key [OF dist x(1)] b have "b = credit da dl x" by (auto simp: is_account_key account_key_def)
      with True x(2) old chk sum show ?thesis by (auto simp: credit_def is_account_def algebra_simps)
    next
      case False
      with x(2) old sum show ?thesis by (auto simp: is_account_def)
    qed
  qed
  moreover have "ledger_sum db' u' a' = 0" if none: "(u', a') \<notin> account_key ` set (db_balances db)" for u' a'
  proof -
    have "(u, a) \<in> account_key ` set (db_balances db)" using b by (auto dest!: find_SomeD simp: is_account_key intro: rev_image_eqI)
    with none inv sum [of u' a'] show ?thesis by (auto simp: ledger_inv_def)
  qed
  ultimately show ?thesis using dist rows bal by (simp add: ledger_inv_def is_account_key)
qed

lemma apply_ledger_inv:
  assumes "ledger_inv db" and "apply_ledger m db = Inr (x, db')" and "lm_amount m = lm_available_delta m + lm_locked_delta m"
  shows "ledger_inv db'"
proof -
  from assms(2) obtain b db1 where
    up: "update_balance (lm_user_id m) (lm_asset_id m) (lm_available_delta m) (lm_locked_delta m) db = Inr (b, db1)"
    and db': "db_balances db' = db_balances db1" "\<exists>e. db_ledger_entries db' = db_ledger_entries db1 @ [e]
      \<and> le_user_id e = lm_user_id m \<and> le_asset_id e = lm_asset_id m \<and> le_amount e = lm_amount m"
    by (auto simp: apply_ledger_Inr)
  from db'(2) update_balance_frame [OF up] assms(3)
  show ?thesis by (intro update_balance_ledger [OF assms(1) up db'(1)]) (auto simp: ledger_sum_def)
qed

lemma apply_ledgers_inv:
  assumes "\<forall>m \<in> set ms. lm_amount m = lm_available_delta m + lm_locked_delta m"
  shows "ledger_inv db \<Longrightarrow> apply_ledgers ms db = Inr (x, db') \<Longrightarrow> ledger_inv db'"
  using assms by (induction ms arbitrary: db) (auto simp: tx_bind_Inr dest: apply_ledger_inv)

lemma fill_mutations_balanced: "m \<in> set (fill_mutations seq fl t k) \<Longrightarrow> lm_amount m = lm_available_delta m + lm_locked_delta m"
  by (auto simp: fill_mutations_def Let_def trade_mutation_def split: prod.splits order_side.splits)

section \<open>What every handler of the worker keeps\<close>

lemma mark_processed_frame:
  assumes "mark_processed seq db = Inr ((), db')"
  shows "db_balances db' = db_balances db" and "db_ledger_entries db' = db_ledger_entries db"
    and "db_engine_events db' = update_rows (\<lambda>row. ev_seq row = seq) (\<lambda>row. row\<lparr>ev_processed := True\<rparr>) (db_engine_events db)"
    and "db_orders db' = db_orders db" and "db_trades db' = db_trades db" and "db_markets db' = db_markets db"
  using assms by (auto simp: mark_processed_def Let_def)

locale settlement_handler =
  fixes handle :: "int \<Rightarrow> 'e \<Rightarrow> ('d::linordered_field, unit) tx"
  assumes handle_ledger: "ledger_inv db \<Longrightarrow> handle seq e db = Inr ((), db') \<Longrightarrow> ledger_inv db'"
    and handle_events: "handle seq e db = Inr ((), db') \<Longrightarrow> db_engine_events db' = db_engine_events db"
begin

lemma handled_and_marked:
  assumes "tx_bind (handle seq e) (\<lambda>_. mark_processed seq) db = Inr ((), db')" and "ledger_inv db"
  shows "ledger_inv db'" and "map ev_seq (db_engine_events db') = map ev_seq (db_engine_events db)"
    and "\<forall>row \<in> set (db_engine_events db'). ev_seq row = seq \<longrightarrow> ev_processed row"
proof -
  from assms(1) obtain db1 where h: "handle seq e db = Inr ((), db1)" and m: "mark_processed seq db1 = Inr ((), db')"
    by (auto simp: tx_bind_Inr)
  note frame = mark_processed_frame [OF m]
  from handle_ledger [OF assms(2) h] frame show "ledger_inv db'" by (simp add: ledger_inv_cong [of db' db1])
  from frame(3) handle_events [OF h] show "map ev_seq (db_engine_events db') = map ev_seq (db_engine_events db)"
    by (auto simp: update_rows_def)
  from frame(3) show "\<forall>row \<in> set (db_engine_events db'). ev_seq row = seq \<longrightarrow> ev_processed row"
    by (simp add: ball_update_rows)
qed

end

lemma settle_order_accepted_cases:
  assumes "settle_order_accepted seq e db = Inr ((), db')"
  obtains (duplicate) "db' = db"
  | (entered) m where "fetch_market (eo_symbol (oa_order e)) db = Inr (m, db)"
      and "insert_order (oa_order e) (mw_id m) db = Inr (True, db')" and "snd (lock_obligation (oa_order e) m) \<le> 0"
  | (locked) m db1 mu where "fetch_market (eo_symbol (oa_order e)) db = Inr (m, db)"
      and "insert_order (oa_order e) (mw_id m) db = Inr (True, db1)" and "0 < snd (lock_obligation (oa_order e) m)"
      and "apply_ledger mu db1 = Inr ((), db')" and "lm_user_id mu = eo_user_id (oa_order e)"
      and "lm_asset_id mu = fst (lock_obligation (oa_order e) m)" and "lm_amount mu = 0"
      and "lm_available_delta mu = - snd (lock_obligation (oa_order e) m)"
      and "lm_locked_delta mu = snd (lock_obligation (oa_order e) m)"
proof -
  from assms obtain m db0 ins db1 where f: "fetch_market (eo_symbol (oa_order e)) db = Inr (m, db0)"
    and i: "insert_order (oa_order e) (mw_id m) db0 = Inr (ins, db1)"
    and rest: "(if \<not> ins then tx_return () else
         let (asset_id, obligation) = lock_obligation (oa_order e) m
         in if 0 < obligation then
              apply_ledger
                \<lparr>lm_user_id = eo_user_id (oa_order e), lm_asset_id = asset_id, lm_kind = ''lock'', lm_amount = 0,
                 lm_available_delta = - obligation, lm_locked_delta = obligation, lm_reference_type = ''order'',
                 lm_reference_id = Some (eo_id (oa_order e)), lm_engine_seq = Some seq\<rparr>
            else tx_return ()) db1 = Inr ((), db')"
    unfolding settle_order_accepted_def tx_bind_Inr by blast
  have db0: "db0 = db" using f by (rule fetch_market_Inr_db)
  show thesis
  proof (cases ins)
    case False
    with i db0 have "db1 = db" by (auto simp: insert_order_def Let_def split: if_splits)
    with rest False duplicate show thesis by simp
  next
    case True
    show thesis
    proof (cases "0 < snd (lock_obligation (oa_order e) m)")
      case pos: True
      show thesis by (rule locked) (use f i rest True pos db0 in \<open>auto simp: case_prod_beta\<close>)
    next
      case False
      with rest True entered f i db0 show thesis by (simp add: case_prod_beta)
    qed
  qed
qed

lemma settle_fill_cases:
  assumes "settle_fill seq fl db = Inr ((), db')"
  obtains (duplicate) "db' = db" and "\<exists>t \<in> set (db_trades db). tr_engine_seq t = seq"
  | (fresh) taker maker db1 db2 db3 where "\<forall>t \<in> set (db_trades db). tr_engine_seq t \<noteq> seq"
      and "fetch_order (tf_taker_order_id fl) db = Inr (taker, db)" and "fetch_order (tf_maker_order_id fl) db = Inr (maker, db)"
      and "insert_trade seq fl (ow_market_id taker) db = Inr ((), db1)"
      and "apply_ledgers (fill_mutations seq fl taker maker) db1 = Inr ((), db2)"
      and "update_order_fill taker (tf_price fl) (tf_quantity fl) db2 = Inr ((), db3)"
      and "update_order_fill maker (tf_price fl) (tf_quantity fl) db3 = Inr ((), db')"
proof (cases "\<exists>t \<in> set (db_trades db). tr_engine_seq t = seq")
  case True
  with assms duplicate show thesis by (simp add: settle_fill_def)
next
  case False
  with assms obtain taker d0 maker d1 d2 d3 d4 where
    steps: "fetch_order (tf_taker_order_id fl) db = Inr (taker, d0)" "fetch_order (tf_maker_order_id fl) d0 = Inr (maker, d1)"
      "insert_trade seq fl (ow_market_id taker) d1 = Inr ((), d2)" "apply_fill_ledger seq fl taker maker d2 = Inr ((), d3)"
      "update_order_fill taker (tf_price fl) (tf_quantity fl) d3 = Inr ((), d4)"
      "update_order_fill maker (tf_price fl) (tf_quantity fl) d4 = Inr ((), db')"
    by (fastforce simp: settle_fill_def tx_bind_Inr)
  have "d0 = db" "d1 = d0" using steps(1,2) by (auto dest: fetch_order_Inr_db)
  with steps False fresh show thesis by (simp add: apply_fill_ledger_def)
qed

definition unlock_obligation :: "'d::linordered_field order_row \<Rightarrow> 'd" where
  "unlock_obligation ord =
     (let remaining = (case ow_quantity ord of None \<Rightarrow> 0 | Some quantity \<Rightarrow> quantity - ow_filled_quantity ord)
      in if ow_side ord = ''buy'' then (case ow_price ord of None \<Rightarrow> 0 | Some price \<Rightarrow> price * remaining) else remaining)"

lemma settle_cancel_cases:
  assumes "settle_cancel seq e db = Inr ((), db')"
  obtains (final) ord where "fetch_order (oc_order_id e) db = Inr (ord, db)" and "ow_status ord \<in> {''canceled'', ''filled''}"
      and "db' = db"
  | (open_order) ord db1 where "fetch_order (oc_order_id e) db = Inr (ord, db)" and "ow_status ord \<notin> {''canceled'', ''filled''}"
      and "db' = db1\<lparr>db_orders := update_rows (\<lambda>r. od_id r = oc_order_id e) (set_status ''canceled'') (db_orders db1)\<rparr>"
      and "if 0 < unlock_obligation ord then
             \<exists>mu. apply_ledger mu db = Inr ((), db1) \<and> lm_user_id mu = ow_user_id ord
               \<and> lm_asset_id mu = (if ow_side ord = ''buy'' then ow_quote_asset_id ord else ow_base_asset_id ord)
               \<and> lm_amount mu = 0 \<and> lm_available_delta mu = unlock_obligation ord
               \<and> lm_locked_delta mu = - unlock_obligation ord
           else db1 = db"
proof -
  from assms obtain ord d0 where f: "fetch_order (oc_order_id e) db = Inr (ord, d0)"
    by (auto simp: settle_cancel_def tx_bind_Inr)
  then have d0: "d0 = db" by (rule fetch_order_Inr_db)
  note run = assms [unfolded settle_cancel_def tx_bind_run [where m = "fetch_order (oc_order_id e)", OF f [unfolded d0]] unlock_obligation_def [symmetric]]
  show thesis
  proof (cases "ow_status ord \<in> {''canceled'', ''filled''}")
    case True
    with run f d0 final show thesis by auto
  next
    case False
    then have "\<not> (ow_status ord = ''canceled'' \<or> ow_status ord = ''filled'')" by simp
    note run1 = run [unfolded if_not_P [OF this] Let_def tx_bind_Inr]
    then obtain d1 where "(if 0 < unlock_obligation ord then apply_ledger
         \<lparr>lm_user_id = ow_user_id ord, lm_asset_id = (if ow_side ord = ''buy'' then ow_quote_asset_id ord else ow_base_asset_id ord),
          lm_kind = ''unlock'', lm_amount = 0, lm_available_delta = unlock_obligation ord, lm_locked_delta = - unlock_obligation ord,
          lm_reference_type = ''order'', lm_reference_id = Some (oc_order_id e), lm_engine_seq = Some seq\<rparr>
         else tx_return ()) db = Inr ((), d1)"
      and "db' = d1\<lparr>db_orders := update_rows (\<lambda>r. od_id r = oc_order_id e) (set_status ''canceled'') (db_orders d1)\<rparr>"
      unfolding unlock_obligation_def Let_def by auto
    with False f d0 show thesis by (intro open_order [of ord d1]) (auto split: if_splits)
  qed
qed

lemma settle_order_accepted_ledger:
  assumes inv: "ledger_inv db" and eq: "settle_order_accepted seq e db = Inr ((), db')"
  shows "ledger_inv db'"
  using eq
proof (cases rule: settle_order_accepted_cases)
  case (entered m)
  with inv insert_order_frame [OF entered(2)] show ?thesis by (simp add: ledger_inv_cong [of db' db])
next
  case (locked m db1 mu)
  with inv insert_order_frame [OF locked(2)] have "ledger_inv db1" by (simp add: ledger_inv_cong [of db1 db])
  from apply_ledger_inv [OF this locked(4)] locked show ?thesis by simp
qed (use inv in simp)

lemma settle_fill_ledger:
  assumes inv: "ledger_inv db" and eq: "settle_fill seq fl db = Inr ((), db')"
  shows "ledger_inv db'"
  using eq
proof (cases rule: settle_fill_cases)
  case (fresh taker maker db1 db2 db3)
  from inv insert_trade_frame [OF fresh(4)] have "ledger_inv db1" by (simp add: ledger_inv_cong [of db1 db])
  then have "ledger_inv db2" using fresh(5) by (rule apply_ledgers_inv [rotated]) (blast intro: fill_mutations_balanced)
  with update_order_fill_frame [OF fresh(6)] update_order_fill_frame [OF fresh(7)] show ?thesis
    by (simp add: ledger_inv_cong [of db' db2])
qed (use inv in simp)

lemma settle_cancel_ledger:
  assumes inv: "ledger_inv db" and eq: "settle_cancel seq e db = Inr ((), db')"
  shows "ledger_inv db'"
  using eq
proof (cases rule: settle_cancel_cases)
  case (open_order ord db1)
  have "ledger_inv db1" using open_order(4) inv by (auto split: if_splits intro: apply_ledger_inv)
  with open_order(3) show ?thesis by (simp add: ledger_inv_def ledger_sum_def)
qed (use inv in simp)

interpretation accepted: settlement_handler settle_order_accepted
  by unfold_locales (auto intro: settle_order_accepted_ledger settle_order_accepted_events)

interpretation filled: settlement_handler settle_fill
  by unfold_locales (auto intro: settle_fill_ledger settle_fill_events)

interpretation cancelled: settlement_handler settle_cancel
  by unfold_locales (auto intro: settle_cancel_ledger settle_cancel_events)

interpretation event: settlement_handler settle_event
proof
  fix db db' :: "'a db" and seq e
  show "ledger_inv db'" if "ledger_inv db" "settle_event seq e db = Inr ((), db')"
    using that by (cases e) (auto intro: accepted.handle_ledger filled.handle_ledger cancelled.handle_ledger)
  show "db_engine_events db' = db_engine_events db" if "settle_event seq e db = Inr ((), db')"
    using that by (rule settle_event_events)
qed

lemma process_next_inv: "ledger_inv db \<Longrightarrow> process_next codec db = (db', r) \<Longrightarrow> ledger_inv db'"
  by (auto simp: process_next_def split: option.splits sum.splits dest: event.handled_and_marked(1))

lemma process_loop_keeps:
  assumes "\<And>db db' r. P db \<Longrightarrow> process_next codec db = (db', r) \<Longrightarrow> P db'"
  shows "P db \<Longrightarrow> process_loop codec n db = (db', r) \<Longrightarrow> P db'"
proof (induction "unprocessed db" arbitrary: n db rule: less_induct)
  case less
  obtain d r0 where p: "process_next codec db = (d, r0)" by fastforce
  have d: "P d" using less.prems(1) p by (rule assms)
  show ?case
  proof (cases "r0 = Inr True")
    case True
    with p less.prems(2) have "process_loop codec (saturating_succ n) d = (db', r)" by (simp add: process_loop.simps [of _ n])
    with less.hyps [OF _ d] process_next_decreases p True show ?thesis by blast
  next
    case False
    with p less.prems(2) have "db' = d" by (auto simp: process_loop.simps [of _ n] split: sum.splits bool.splits)
    with d show ?thesis by simp
  qed
qed

section \<open>Movements of value\<close>

definition accounts_distinct :: "'d::linordered_field db \<Rightarrow> bool" where
  "accounts_distinct db \<longleftrightarrow> distinct (map account_key (db_balances db))"

lemma held_cong: "db_balances db' = db_balances db \<Longrightarrow> held ca cl S db' = held ca cl S db"
  by (simp add: held_def)

lemma apply_ledger_held:
  assumes dist: "accounts_distinct db" and eq: "apply_ledger m db = Inr (x, db')"
  shows "held ca cl S db' = held ca cl S db +
      (if S (lm_user_id m, lm_asset_id m) then ca * lm_available_delta m + cl * lm_locked_delta m else 0)"
    and "accounts_distinct db'"
proof -
  let ?k = "(lm_user_id m, lm_asset_id m)" and ?f = "credit (lm_available_delta m) (lm_locked_delta m)"
  from eq obtain b where b: "List.find (\<lambda>b. account_key b = ?k) (db_balances db) = Some b"
    and rows: "db_balances db' = update_rows (\<lambda>b. account_key b = ?k) ?f (db_balances db)"
    by (auto simp: apply_ledger_Inr update_balance_Inr is_account_key)
  have k: "account_key b = ?k" using find_SomeD [OF b] by simp
  have "held ca cl S db' = held ca cl S db
      - (if S (account_key b) then ca * ba_available b + cl * ba_locked b else 0)
      + (if S (account_key (?f b)) then ca * ba_available (?f b) + cl * ba_locked (?f b) else 0)"
    unfolding held_def rows
    by (rule credited.sum_updated [OF dist [unfolded accounts_distinct_def] b])
  then show "held ca cl S db' = held ca cl S db +
      (if S (lm_user_id m, lm_asset_id m) then ca * lm_available_delta m + cl * lm_locked_delta m else 0)"
    using k by (auto simp: credited.keeps_key) (auto simp: credit_def algebra_simps)
  show "accounts_distinct db'" using dist rows by (simp add: accounts_distinct_def)
qed

lemma apply_ledgers_held:
  "accounts_distinct db \<Longrightarrow> apply_ledgers ms db = Inr (x, db') \<Longrightarrow>
     held ca cl S db' = held ca cl S db +
       sum_list (map (\<lambda>m. if S (lm_user_id m, lm_asset_id m) then ca * lm_available_delta m + cl * lm_locked_delta m else 0) ms)"
proof (induction ms arbitrary: db)
  case (Cons m ms)
  then obtain db1 where m: "apply_ledger m db = Inr ((), db1)" and rest: "apply_ledgers ms db1 = Inr (x, db')"
    by (auto simp: tx_bind_Inr)
  note step = apply_ledger_held [OF Cons.prems(1) m]
  from Cons.IH [OF step(2) rest] step(1) [of ca cl S] show ?case by simp
qed simp

definition fill_buyer :: "'d trade_fill \<Rightarrow> 'd order_row \<Rightarrow> 'd order_row \<Rightarrow> 'd order_row" where
  "fill_buyer fl taker maker = (case tf_taker_side fl of WBuy \<Rightarrow> taker | WSell \<Rightarrow> maker)"

definition fill_seller :: "'d trade_fill \<Rightarrow> 'd order_row \<Rightarrow> 'd order_row \<Rightarrow> 'd order_row" where
  "fill_seller fl taker maker = (case tf_taker_side fl of WBuy \<Rightarrow> maker | WSell \<Rightarrow> taker)"

lemma settle_fill_held:
  assumes dist: "accounts_distinct db" and eq: "settle_fill seq fl db = Inr ((), db')"
    and fresh: "\<forall>t \<in> set (db_trades db). tr_engine_seq t \<noteq> seq"
    and taker: "fetch_order (tf_taker_order_id fl) db = Inr (taker, db)"
    and maker: "fetch_order (tf_maker_order_id fl) db = Inr (maker, db)"
  shows "held ca cl S db' = held ca cl S db +
    sum_list (map (\<lambda>m. if S (lm_user_id m, lm_asset_id m) then ca * lm_available_delta m + cl * lm_locked_delta m else 0)
      (fill_mutations seq fl taker maker))"
  using eq
proof (cases rule: settle_fill_cases)
  case duplicate
  with fresh show ?thesis by blast
next
  case (fresh tk mk db1 db2 db3)
  with taker maker have eqs: "tk = taker" "mk = maker" by simp_all
  from dist insert_trade_frame [OF fresh(4)] have d1: "accounts_distinct db1" by (simp add: accounts_distinct_def)
  have "held ca cl S db' = held ca cl S db2"
    using update_order_fill_frame [OF fresh(6)] update_order_fill_frame [OF fresh(7)] by (simp add: held_def)
  moreover have "held ca cl S db1 = held ca cl S db" using insert_trade_frame [OF fresh(4)] by (simp add: held_def)
  ultimately show ?thesis using apply_ledgers_held [OF d1 fresh(5), of ca cl S] by (simp add: eqs)
qed

text \<open>
  C15. Settling a fill moves the base quantity from seller to buyer and the notional from buyer to
  seller; over all accounts each of the two assets loses exactly the fee charged in it, which no account
  receives, and no other asset changes.
\<close>

theorem fill_conserves_value:
  assumes "ledger_inv db" and "settle_fill seq fl db = Inr ((), db')"
    and "\<forall>t \<in> set (db_trades db). tr_engine_seq t \<noteq> seq"
    and "fetch_order (tf_taker_order_id fl) db = Inr (taker, db)" and "fetch_order (tf_maker_order_id fl) db = Inr (maker, db)"
    and "ow_base_asset_id taker = base" "ow_base_asset_id maker = base"
    and "ow_quote_asset_id taker = quote" "ow_quote_asset_id maker = quote" and "base \<noteq> quote"
    and "ow_user_id taker \<noteq> ow_user_id maker"
  defines "buyer \<equiv> ow_user_id (fill_buyer fl taker maker)" and "seller \<equiv> ow_user_id (fill_seller fl taker maker)"
    and "taker_fee \<equiv> fee_amount (tf_quantity fl) (ow_taker_fee_bps taker)"
    and "maker_fee \<equiv> fee_amount (tf_price fl * tf_quantity fl) (ow_maker_fee_bps maker)"
  shows "asset_total db' base = asset_total db base - taker_fee
    \<and> asset_total db' quote = asset_total db quote - maker_fee
    \<and> (\<forall>a. a \<noteq> base \<and> a \<noteq> quote \<longrightarrow> asset_total db' a = asset_total db a)
    \<and> holding db' buyer base = holding db buyer base + tf_quantity fl - taker_fee
    \<and> holding db' seller base = holding db seller base - tf_quantity fl
    \<and> holding db' buyer quote = holding db buyer quote - tf_price fl * tf_quantity fl
    \<and> holding db' seller quote = holding db seller quote + tf_price fl * tf_quantity fl - maker_fee"
proof -
  have dist: "accounts_distinct db" using assms(1) by (simp add: ledger_inv_def accounts_distinct_def)
  note step = settle_fill_held [OF dist assms(2-5)]
    and defs = asset_total_def holding_def fill_mutations_def trade_mutation_def Let_def
      buyer_def seller_def taker_fee_def maker_fee_def fill_buyer_def fill_seller_def
  show ?thesis using assms(6-11)
    by (intro conjI allI impI; cases "tf_taker_side fl") (auto simp: defs step)
qed

section \<open>Fills on the orders\<close>

definition involves :: "uuid \<Rightarrow> 'd trade_record \<Rightarrow> bool" where
  "involves i t \<longleftrightarrow> tr_taker_order_id t = i \<or> tr_maker_order_id t = i"

definition traded :: "'d::linordered_field db \<Rightarrow> uuid \<Rightarrow> ('d trade_record \<Rightarrow> 'd) \<Rightarrow> 'd" where
  "traded db i g = sum_list (map g (filter (involves i) (db_trades db)))"

definition order_accounted :: "'d::linordered_field db \<Rightarrow> 'd order_record \<Rightarrow> bool" where
  "order_accounted db r \<longleftrightarrow> od_filled_quantity r = traded db (od_id r) tr_quantity
     \<and> (case od_avg_fill_price r of None \<Rightarrow> 0 | Some avg \<Rightarrow> avg) * od_filled_quantity r
         = traded db (od_id r) (\<lambda>t. tr_price t * tr_quantity t)"

definition fills_inv :: "'d::linordered_field db \<Rightarrow> bool" where
  "fills_inv db \<longleftrightarrow> distinct (map od_id (db_orders db)) \<and> distinct (map tr_engine_seq (db_trades db))
     \<and> (\<forall>t \<in> set (db_trades db). tr_taker_order_id t \<in> od_id ` set (db_orders db) \<and> tr_maker_order_id t \<in> od_id ` set (db_orders db))
     \<and> (\<forall>r \<in> set (db_orders db). order_accounted db r)"

interpretation filled_row: keyed_update od_id i "set_fill q p s"
  for i and q p :: "'d::linordered_field" and s
  by unfold_locales (simp add: set_fill_def)

interpretation status_row: keyed_update od_id i "set_status s"
  for i s
  by unfold_locales (simp add: set_status_def)

lemma fetch_order_Inr:
  "fetch_order i db = Inr (ow, db) \<Longrightarrow>
     \<exists>r \<in> set (db_orders db). od_id r = i \<and> ow_id ow = i \<and> ow_filled_quantity ow = od_filled_quantity r
       \<and> ow_avg_fill_price ow = od_avg_fill_price r \<and> ow_status ow = od_status r \<and> ow_quantity ow = od_quantity r"
  by (auto simp: fetch_order_def tx_bind_Inr fetch_one_Inr dest!: find_SomeD)

lemma update_order_fill_Inr:
  "update_order_fill ow p q db = Inr (x, db') \<Longrightarrow>
     \<exists>s. ow_filled_quantity ow + q \<noteq> 0 \<and>
       db' = db\<lparr>db_orders := update_rows (\<lambda>r. od_id r = ow_id ow)
         (set_fill (ow_filled_quantity ow + q)
           (((case ow_avg_fill_price ow of None \<Rightarrow> 0 | Some avg \<Rightarrow> avg) * ow_filled_quantity ow + p * q) / (ow_filled_quantity ow + q)) s)
         (db_orders db)\<rparr>"
  by (auto simp: update_order_fill_def Let_def split: if_splits)

lemma traded_insert:
  "db_trades db' = db_trades db @ [t] \<Longrightarrow> traded db' i g = traded db i g + (if involves i t then g t else 0)"
  by (simp add: traded_def)

lemma order_accounted_cong:
  "(\<And>g. traded db' (od_id r) g = traded db (od_id r) g) \<Longrightarrow> order_accounted db' r = order_accounted db r"
  by (simp add: order_accounted_def)

lemma order_accounted_fill:
  assumes old: "order_accounted db r" and tr: "\<And>g. traded db' (od_id r) g = traded db (od_id r) g + g t"
    and nz: "od_filled_quantity r + tr_quantity t \<noteq> 0"
  shows "order_accounted db' (set_fill (od_filled_quantity r + tr_quantity t)
    (((case od_avg_fill_price r of None \<Rightarrow> 0 | Some avg \<Rightarrow> avg) * od_filled_quantity r + tr_price t * tr_quantity t)
       / (od_filled_quantity r + tr_quantity t)) s r)"
proof -
  have "x / (od_filled_quantity r + tr_quantity t) * (od_filled_quantity r + tr_quantity t) = x" for x
    using nz by simp
  with nz conjunct2 [OF old [unfolded order_accounted_def]] show ?thesis
    by (simp add: order_accounted_def set_fill_def tr conjunct1 [OF old [unfolded order_accounted_def]])
qed

lemma settle_fill_accounts:
  assumes inv: "fills_inv db" and eq: "settle_fill seq fl db = Inr ((), db')"
    and ne: "tf_taker_order_id fl \<noteq> tf_maker_order_id fl"
  shows "fills_inv db'"
  using eq
proof (cases rule: settle_fill_cases)
  case (fresh tk mk db1 db2 db3)
  let ?p = "tf_price fl" and ?q = "tf_quantity fl"
  let ?f = "\<lambda>ow s. set_fill (ow_filled_quantity ow + ?q)
      (((case ow_avg_fill_price ow of None \<Rightarrow> 0 | Some avg \<Rightarrow> avg) * ow_filled_quantity ow + ?p * ?q) / (ow_filled_quantity ow + ?q)) s"
  from fresh(1,4) obtain t where t: "db_trades db1 = db_trades db @ [t]" "tr_engine_seq t = seq" "tr_price t = ?p" "tr_quantity t = ?q"
      "tr_taker_order_id t = tf_taker_order_id fl" "tr_maker_order_id t = tf_maker_order_id fl"
    by (auto simp: insert_trade_def Let_def split: if_splits)
  obtain s1 s2 where nz: "ow_filled_quantity tk + ?q \<noteq> 0" "ow_filled_quantity mk + ?q \<noteq> 0"
    and d3: "db3 = db2\<lparr>db_orders := update_rows (\<lambda>r. od_id r = ow_id tk) (?f tk s1) (db_orders db2)\<rparr>"
    and d': "db' = db3\<lparr>db_orders := update_rows (\<lambda>r. od_id r = ow_id mk) (?f mk s2) (db_orders db3)\<rparr>"
    using update_order_fill_Inr [OF fresh(6)] update_order_fill_Inr [OF fresh(7)] by blast
  have orders: "db_orders db' = update_rows (\<lambda>r. od_id r = ow_id mk) (?f mk s2)
      (update_rows (\<lambda>r. od_id r = ow_id tk) (?f tk s1) (db_orders db))"
    using d3 d' insert_trade_frame [OF fresh(4)] apply_ledgers_frame [OF fresh(5)] by simp
  have trades: "db_trades db' = db_trades db @ [t]" using d3 d' t(1) apply_ledgers_frame [OF fresh(5)] by simp
  obtain rt rm where rt: "rt \<in> set (db_orders db)" "od_id rt = tf_taker_order_id fl" "ow_id tk = od_id rt"
      "ow_filled_quantity tk = od_filled_quantity rt" "ow_avg_fill_price tk = od_avg_fill_price rt"
    and rm: "rm \<in> set (db_orders db)" "od_id rm = tf_maker_order_id fl" "ow_id mk = od_id rm"
      "ow_filled_quantity mk = od_filled_quantity rm" "ow_avg_fill_price mk = od_avg_fill_price rm"
    using fetch_order_Inr [OF fresh(2)] fetch_order_Inr [OF fresh(3)] by metis
  have dist: "distinct (map od_id (db_orders db))" using inv by (simp add: fills_inv_def)
  have same: "r = rt" if "r \<in> set (db_orders db)" "od_id r = od_id rt" for r
    using dist that rt(1) by (auto simp: distinct_map inj_on_def)
  have same': "r = rm" if "r \<in> set (db_orders db)" "od_id r = od_id rm" for r
    using dist that rm(1) by (auto simp: distinct_map inj_on_def)
  have accounted: "order_accounted db' (if od_id r = od_id rm then ?f mk s2 r else if od_id r = od_id rt then ?f tk s1 r else r)"
    if r: "r \<in> set (db_orders db)" for r
  proof -
    have old: "order_accounted db r" using inv r by (simp add: fills_inv_def)
    have tr: "traded db' i g = traded db i g + (if i = od_id rt \<or> i = od_id rm then g t else 0)" for i g
      using traded_insert [OF trades, of i g] t rt(2) rm(2) by (auto simp: involves_def)
    show ?thesis
    proof (cases "od_id r = od_id rm")
      case True
      with same' r have "r = rm" by blast
      with old tr nz rm t order_accounted_fill [of db r db' t] show ?thesis by simp
    next
      case False
      show ?thesis
      proof (cases "od_id r = od_id rt")
        case True
        with same r have "r = rt" by blast
        with old tr nz rt t False order_accounted_fill [of db r db' t] show ?thesis by simp
      next
        case not_taker: False
        with False have "order_accounted db' r" using old by (simp add: order_accounted_cong [of db' r db] tr)
        with False not_taker show ?thesis by simp
      qed
    qed
  qed
  have "\<forall>r \<in> set (db_orders db'). order_accounted db' r"
    unfolding orders ball_update_rows
  proof
    fix r assume "r \<in> set (db_orders db)"
    from accounted [OF this] ne rt(2,3) rm(2,3)
    show "order_accounted db' (if od_id (if od_id r = ow_id tk then ?f tk s1 r else r) = ow_id mk
        then ?f mk s2 (if od_id r = ow_id tk then ?f tk s1 r else r) else if od_id r = ow_id tk then ?f tk s1 r else r)"
      by (cases "od_id r = ow_id tk") (auto simp: filled_row.keeps_key)
  qed
  moreover have "od_id ` set (db_orders db') = od_id ` set (db_orders db)"
    unfolding orders by simp
  moreover have "distinct (map od_id (db_orders db'))" unfolding orders using dist by simp
  moreover have "distinct (map tr_engine_seq (db_trades db'))"
    using inv fresh(1) trades t(2) by (auto simp: fills_inv_def)
  moreover have "\<forall>x \<in> set (db_trades db'). tr_taker_order_id x \<in> od_id ` set (db_orders db) \<and> tr_maker_order_id x \<in> od_id ` set (db_orders db)"
    using inv trades t(5,6) rt(1,2) rm(1,2) by (auto simp: fills_inv_def image_iff intro: rev_bexI)
  ultimately show ?thesis by (simp add: fills_inv_def)
qed (use inv in simp)

lemma fills_inv_cong:
  "db_orders db' = db_orders db \<Longrightarrow> db_trades db' = db_trades db \<Longrightarrow> fills_inv db' = fills_inv db"
  by (simp add: fills_inv_def order_accounted_def traded_def)

lemma insert_order_accounts:
  assumes inv: "fills_inv db" and eq: "insert_order ord m db = Inr (True, db')"
  shows "fills_inv db'"
proof -
  from eq obtain row where o: "db_orders db' = db_orders db @ [row]" and tr: "db_trades db' = db_trades db"
    and row: "od_id row = eo_id ord" "od_filled_quantity row = 0" and new: "\<forall>r \<in> set (db_orders db). od_id r \<noteq> od_id row"
    by (auto simp: insert_order_def Let_def split: if_splits)
  have same: "traded db' i g = traded db i g" for i g by (simp add: traded_def tr)
  have "filter (involves (od_id row)) (db_trades db) = []"
    using inv new by (fastforce simp: fills_inv_def involves_def filter_empty_conv)
  then have "order_accounted db' row" by (simp add: order_accounted_def traded_def row tr)
  moreover have "\<forall>r \<in> set (db_orders db). order_accounted db' r"
    using inv by (simp add: fills_inv_def order_accounted_cong [of db' _ db] same)
  ultimately show ?thesis using inv new by (auto simp: fills_inv_def o tr)
qed

lemma settle_order_accepted_accounts:
  assumes inv: "fills_inv db" and eq: "settle_order_accepted seq e db = Inr ((), db')"
  shows "fills_inv db'"
  using eq
proof (cases rule: settle_order_accepted_cases)
  case (entered m)
  with inv show ?thesis by (blast intro: insert_order_accounts)
next
  case (locked m db1 mu)
  from insert_order_accounts [OF inv locked(2)] apply_ledger_frame [OF locked(4)] show ?thesis
    by (simp add: fills_inv_cong [of db' db1])
qed (use inv in simp)

lemma settle_cancel_accounts:
  assumes inv: "fills_inv db" and eq: "settle_cancel seq e db = Inr ((), db')"
  shows "fills_inv db'"
  using eq
proof (cases rule: settle_cancel_cases)
  case (open_order ord db1)
  have f1: "db_orders db1 = db_orders db \<and> db_trades db1 = db_trades db"
    using open_order(4) by (auto split: if_splits dest: apply_ledger_frame)
  have rows: "db_orders db' = update_rows (\<lambda>r. od_id r = oc_order_id e) (set_status ''canceled'') (db_orders db)"
    and tr: "db_trades db' = db_trades db" using open_order(3) f1 by simp_all
  have keys: "od_id ` set (db_orders db') = od_id ` set (db_orders db)"
    unfolding rows by simp
  have "order_accounted db' r = order_accounted db r" for r by (simp add: order_accounted_def traded_def tr)
  moreover have "order_accounted db (set_status s r) = order_accounted db r" for s r
    by (simp add: order_accounted_def set_status_def)
  moreover have "\<forall>r \<in> set (db_orders db). order_accounted db r" using inv by (simp add: fills_inv_def)
  ultimately have "\<forall>r \<in> set (db_orders db'). order_accounted db' r" unfolding rows ball_update_rows by simp
  moreover have "distinct (map od_id (db_orders db'))" using inv unfolding rows by (simp add: fills_inv_def)
  ultimately show ?thesis using inv unfolding fills_inv_def keys tr by simp
qed (use inv in simp)

text \<open>No stored fill names one order as both taker and maker; the engine never emits such a fill.\<close>

definition no_self_fills :: "'d event_codec \<Rightarrow> 'd::linordered_field db \<Rightarrow> bool" where
  "no_self_fills codec db \<longleftrightarrow> (\<forall>row \<in> set (db_engine_events db).
     case decode codec (stored_event row) of
       Inr (FillEvent fl) \<Rightarrow> tf_taker_order_id fl \<noteq> tf_maker_order_id fl
     | _ \<Rightarrow> True)"

lemma stored_event_processed [simp]: "stored_event (row\<lparr>ev_processed := b\<rparr>) = stored_event row"
  by (simp add: stored_event_def)

lemma process_next_accounts:
  assumes inv: "fills_inv db" "no_self_fills codec db" and eq: "process_next codec db = (db', r)"
  shows "fills_inv db' \<and> no_self_fills codec db'"
proof (cases "r = Inr True")
  case True
  with eq have "process_next codec db = (db', Inr True)" by simp
  then show ?thesis
  proof (rule process_next_True)
    fix stored ev db1
    assume n: "fetch_next_event db = Some stored" and dec: "decode codec stored = Inr ev"
      and se: "settle_event (st_seq stored) ev db = Inr ((), db1)" and mk: "mark_processed (st_seq stored) db1 = Inr ((), db')"
    obtain row where row: "row \<in> set (db_engine_events db)" "stored = stored_event row"
      by (rule fetch_next_event_Some [OF n])
    note frame = mark_processed_frame [OF mk]
    have self: "tf_taker_order_id fl \<noteq> tf_maker_order_id fl" if "ev = FillEvent fl" for fl
      using inv(2) [unfolded no_self_fills_def, rule_format, OF row(1)] dec that row(2) by simp
    have "fills_inv db1"
      using se self inv(1)
      by (cases ev) (auto intro: settle_order_accepted_accounts settle_fill_accounts settle_cancel_accounts)
    then have "fills_inv db'" using frame by (simp add: fills_inv_cong [of db' db1])
    moreover have "no_self_fills codec db'"
      using inv(2) frame(3) event.handle_events [OF se] by (simp add: no_self_fills_def ball_update_rows)
    ultimately show ?thesis ..
  qed
next
  case False
  with eq inv show ?thesis by (auto simp: process_next_def split: option.splits sum.splits)
qed


section \<open>Locks\<close>

lemma held_single:
  assumes "accounts_distinct db" and "List.find (\<lambda>b. account_key b = k) (db_balances db) = Some b"
  shows "held ca cl (\<lambda>k'. k' = k) db = ca * ba_available b + cl * ba_locked b"
proof -
  have "sum_list (map (\<lambda>b. if account_key b = k then ca * ba_available b + cl * ba_locked b else 0) rows) =
      ca * ba_available b + cl * ba_locked b"
    if "distinct (map account_key rows)" "List.find (\<lambda>b. account_key b = k) rows = Some b" for rows :: "'a balance_record list"
    using that
  proof (induction rows)
    case (Cons x rows)
    show ?case
    proof (cases "account_key x = k")
      case True
      have "sum_list (map (\<lambda>b. if account_key b = k then ca * ba_available b + cl * ba_locked b else 0) ys) = 0"
        if "k \<notin> account_key ` set ys" for ys :: "'a balance_record list"
        using that by (induction ys) auto
      with True Cons.prems show ?thesis by simp
    next
      case False
      with Cons show ?thesis by simp
    qed
  qed simp
  with assms show ?thesis by (simp add: held_def accounts_distinct_def)
qed

lemma apply_ledger_locked_covered:
  assumes dist: "accounts_distinct db" and eq: "apply_ledger m db = Inr (x, db')"
  shows "0 \<le> locked_amount db (lm_user_id m) (lm_asset_id m) + lm_locked_delta m"
proof -
  let ?k = "(lm_user_id m, lm_asset_id m)"
  from eq obtain b where b: "List.find (\<lambda>b. account_key b = ?k) (db_balances db) = Some b"
    and chk: "balance_checks (credit (lm_available_delta m) (lm_locked_delta m) b)"
    by (auto simp: apply_ledger_Inr update_balance_Inr is_account_key)
  from held_single [OF dist b, of 0 1] chk show ?thesis by (simp add: locked_amount_def balance_checks_def credit_def)
qed

lemma settle_fill_needs_lock:
  assumes dist: "accounts_distinct db" and eq: "settle_fill seq fl db = Inr ((), db')"
    and new: "\<forall>t \<in> set (db_trades db). tr_engine_seq t \<noteq> seq"
    and taker: "fetch_order (tf_taker_order_id fl) db = Inr (taker, db)"
    and maker: "fetch_order (tf_maker_order_id fl) db = Inr (maker, db)"
  shows "tf_price fl * tf_quantity fl \<le>
    locked_amount db (ow_user_id (fill_buyer fl taker maker)) (ow_quote_asset_id (fill_buyer fl taker maker))"
  using eq
proof (cases rule: settle_fill_cases)
  case (fresh tk mk db1 db2 db3)
  with taker maker have eqs: "tk = taker" "mk = maker" by simp_all
  let ?b = "fill_buyer fl taker maker"
  obtain m1 m2 m3 ms where ms: "fill_mutations seq fl taker maker = m1 # m2 # m3 # ms" and l: "lm_locked_delta m1 = 0" "lm_locked_delta m2 = 0"
    and m3: "lm_locked_delta m3 = - (tf_price fl * tf_quantity fl)" "lm_user_id m3 = ow_user_id ?b" "lm_asset_id m3 = ow_quote_asset_id ?b"
    by (cases "tf_taker_side fl") (auto simp: fill_mutations_def trade_mutation_def fill_buyer_def Let_def)
  from fresh(5) [unfolded eqs ms] obtain e1 e2 e3 where a: "apply_ledger m1 db1 = Inr ((), e1)" "apply_ledger m2 e1 = Inr ((), e2)"
    "apply_ledger m3 e2 = Inr ((), e3)" by (auto simp: tx_bind_Inr)
  have d1: "accounts_distinct db1" "locked_amount db1 u a = locked_amount db u a" for u a
    using dist insert_trade_frame [OF fresh(4)] by (simp_all add: accounts_distinct_def locked_amount_def held_def)
  note s1 = apply_ledger_held [OF d1(1) a(1)]
  note s2 = apply_ledger_held [OF s1(2) a(2)]
  have "locked_amount e2 u a = locked_amount db u a" for u a
    using l s1(1) [of 0 1 "\<lambda>k. k = (u, a)"] s2(1) [of 0 1 "\<lambda>k. k = (u, a)"] d1(2) by (simp add: locked_amount_def)
  with apply_ledger_locked_covered [OF s2(2) a(3)] m3 show ?thesis by simp
qed (use new in blast)

lemma process_available_error:
  "process_next codec db = (db', Inl e) \<Longrightarrow> process_available codec db = (db', Inl e)"
  by (simp add: process_available_def process_loop.simps [of _ _ db])

text \<open>
  A fill whose notional exceeds what the buyer has locked in the quote asset can never be settled, and
  settlement stops there: while it is the next event every run fails, changes nothing and reaches no later event.
\<close>

theorem fill_beyond_lock_blocks:
  assumes "accounts_distinct db" and "fetch_next_event db = Some stored" and "decode codec stored = Inr (FillEvent fl)"
    and "\<forall>t \<in> set (db_trades db). tr_engine_seq t \<noteq> st_seq stored"
    and "fetch_order (tf_taker_order_id fl) db = Inr (taker, db)" and "fetch_order (tf_maker_order_id fl) db = Inr (maker, db)"
    and "locked_amount db (ow_user_id (fill_buyer fl taker maker)) (ow_quote_asset_id (fill_buyer fl taker maker))
           < tf_price fl * tf_quantity fl"
  shows "\<exists>e. process_available codec db = (db, Inl (Database e))"
proof (cases "settle_fill (st_seq stored) fl db")
  case (Inl e)
  with assms(2,3) have "process_next codec db = (db, Inl (Database e))" by (simp add: process_next_def tx_bind_def)
  then show ?thesis by (blast intro: process_available_error)
next
  case (Inr r)
  then obtain db' where "settle_fill (st_seq stored) fl db = Inr ((), db')" by (cases r) auto
  from settle_fill_needs_lock [OF assms(1) this assms(4-6)] assms(7) show ?thesis by simp
qed

lemma fetch_market_Inr:
  "fetch_market symbol db = Inr (m, db) \<Longrightarrow>
     \<exists>r \<in> set (db_markets db). mk_symbol r = symbol \<and> mw_id m = mk_id r \<and> mw_base_asset_id m = mk_base_asset_id r
       \<and> mw_quote_asset_id m = mk_quote_asset_id r"
  by (auto simp: fetch_market_def tx_bind_Inr fetch_one_Inr dest!: find_SomeD)

text \<open>What \<open>fetch_order\<close> reads of an order that \<open>insert_order\<close> has just written.\<close>

lemma fetch_inserted_order:
  assumes ids: "distinct (map mk_id (db_markets db))" and m: "fetch_market (eo_symbol ord) db = Inr (m, db)"
    and ins: "insert_order ord (mw_id m) db = Inr (True, db1)"
    and keep: "db_orders db2 = db_orders db1" "db_markets db2 = db_markets db1"
  obtains ow where "fetch_order (eo_id ord) db2 = Inr (ow, db2)" and "ow_id ow = eo_id ord" and "ow_user_id ow = eo_user_id ord"
    and "ow_status ow = ''new''" and "ow_quantity ow = Some (eo_quantity ord)" and "ow_price ow = eo_price ord"
    and "ow_side ow = order_side_db (eo_side ord)" and "ow_filled_quantity ow = 0" and "ow_avg_fill_price ow = None"
    and "ow_base_asset_id ow = mw_base_asset_id m" and "ow_quote_asset_id ow = mw_quote_asset_id m"
    and "ow_market_id ow = mw_id m"
proof -
  from ins have new: "\<forall>r \<in> set (db_orders db). od_id r \<noteq> eo_id ord" and mk: "db_markets db1 = db_markets db"
    by (auto simp: insert_order_def Let_def split: if_splits)
  from ins obtain row where o: "db_orders db1 = db_orders db @ [row]"
    and row: "od_id row = eo_id ord" "od_user_id row = eo_user_id ord" "od_status row = ''new''" "od_quantity row = Some (eo_quantity ord)"
      "od_price row = eo_price ord" "od_side row = order_side_db (eo_side ord)" "od_filled_quantity row = 0" "od_avg_fill_price row = None"
      "od_market_id row = mw_id m"
    by (auto simp: insert_order_def Let_def split: if_splits)
  have f: "List.find (\<lambda>r. od_id r = eo_id ord) (db_orders db2) = Some row"
    using new row(1) unfolding keep o by (simp add: find_append_new)
  obtain mr where mr: "mr \<in> set (db_markets db)" "mw_id m = mk_id mr" "mw_base_asset_id m = mk_base_asset_id mr"
    "mw_quote_asset_id m = mk_quote_asset_id mr" using fetch_market_Inr [OF m] by blast
  have "List.find (\<lambda>x. mk_id x = mw_id m) (db_markets db2) = Some mr"
    using find_by_key [OF ids mr(1)] mr(2) by (simp add: keep mk)
  with f row mr that show thesis by (simp add: fetch_order_def tx_bind_def fetch_one_def tx_return_def)
qed

lemma lock_is_unlock:
  assumes "ow_side ow = order_side_db (eo_side ord)" and "ow_price ow = eo_price ord" and "ow_quantity ow = Some (eo_quantity ord)"
    and "ow_filled_quantity ow = 0" and "ow_base_asset_id ow = mw_base_asset_id m" and "ow_quote_asset_id ow = mw_quote_asset_id m"
  shows "unlock_obligation ow = snd (lock_obligation ord m)"
    and "(if ow_side ow = ''buy'' then ow_quote_asset_id ow else ow_base_asset_id ow) = fst (lock_obligation ord m)"
  using assms by (cases "eo_side ord"; simp add: unlock_obligation_def lock_obligation_def split: option.splits)+

lemma apply_ledger_balances:
  "apply_ledger m db = Inr (x, db') \<Longrightarrow> db_balances db' = update_rows (is_account (lm_user_id m) (lm_asset_id m))
     (credit (lm_available_delta m) (lm_locked_delta m)) (db_balances db)"
  by (auto simp: apply_ledger_Inr update_balance_Inr)

lemma credit_undo:
  "update_rows (is_account u a) (credit o1 (- o1)) (update_rows (is_account u a) (credit (- o1) o1) rows) = rows"
proof -
  have "credit o1 (- o1) (credit (- o1) o1 b) = b" "is_account u a (credit (- o1) o1 b) = is_account u a b" for b :: "'a balance_record"
    by (simp_all add: credit_def is_account_def)
  then show ?thesis by (simp add: update_rows_def map_idI)
qed

text \<open>
  C17. Locking and releasing are inverse: an order that settlement enters and then cancels without a fill in between
  leaves every balance as it was.
\<close>

theorem accept_cancel_roundtrip:
  assumes ids: "distinct (map mk_id (db_markets db))" and new: "\<forall>r \<in> set (db_orders db). od_id r \<noteq> eo_id ord"
    and acc: "settle_order_accepted s1 \<lparr>oa_order = ord\<rparr> db = Inr ((), db1)"
    and can: "settle_cancel s2 \<lparr>oc_order_id = eo_id ord, oc_reason = why\<rparr> db1 = Inr ((), db2)"
  shows "db_balances db2 = db_balances db"
  using acc
proof (cases rule: settle_order_accepted_cases)
  case duplicate
  with can new show ?thesis by (auto elim!: settle_cancel_cases dest!: fetch_order_Inr)
next
  case (entered m)
  then have m: "fetch_market (eo_symbol ord) db = Inr (m, db)" and i: "insert_order ord (mw_id m) db = Inr (True, db1)" by simp_all
  obtain ow where ow: "fetch_order (eo_id ord) db1 = Inr (ow, db1)" "unlock_obligation ow = snd (lock_obligation ord m)"
    by (rule fetch_inserted_order [OF ids m i refl refl], rule_tac ow = ow in that, assumption, rule lock_is_unlock(1)) assumption+
  from can show ?thesis
    by (cases rule: settle_cancel_cases) (use ow entered(3) insert_order_frame [OF i] in auto)
next
  case (locked m db0 mu)
  then have m: "fetch_market (eo_symbol ord) db = Inr (m, db)" and i: "insert_order ord (mw_id m) db = Inr (True, db0)" by simp_all
  note led = locked(4)
  have keep: "db_orders db1 = db_orders db0" "db_markets db1 = db_markets db0" using apply_ledger_frame [OF led] by simp_all
  show ?thesis
  proof (rule fetch_inserted_order [OF ids m i keep])
    fix ow assume f: "fetch_order (eo_id ord) db1 = Inr (ow, db1)" and st: "ow_status ow = ''new''" and u: "ow_user_id ow = eo_user_id ord"
      and rest: "ow_quantity ow = Some (eo_quantity ord)" "ow_price ow = eo_price ord" "ow_side ow = order_side_db (eo_side ord)"
        "ow_filled_quantity ow = 0" "ow_base_asset_id ow = mw_base_asset_id m" "ow_quote_asset_id ow = mw_quote_asset_id m"
    note un = lock_is_unlock [OF rest(3,2,1,4-6)]
    from can show ?thesis
    proof (cases rule: settle_cancel_cases)
      case (open_order ow' e1)
      then have "ow' = ow" using f by simp
      with open_order(4) locked(3) un obtain nu where nu: "apply_ledger nu db1 = Inr ((), e1)" "lm_user_id nu = ow_user_id ow"
        "lm_asset_id nu = fst (lock_obligation ord m)" "lm_available_delta nu = snd (lock_obligation ord m)"
        "lm_locked_delta nu = - snd (lock_obligation ord m)" by auto
      from apply_ledger_balances [OF nu(1)] apply_ledger_balances [OF led] nu(2-5) locked(5-9) u insert_order_frame [OF i] open_order(3)
      show ?thesis by (simp add: credit_undo)
    qed (use f st in simp)
  qed
qed

lemma settled_fill_status:
  assumes eq: "settle_fill seq fl db = Inr ((), db')" and new: "\<forall>t \<in> set (db_trades db). tr_engine_seq t \<noteq> seq"
    and tk: "fetch_order (tf_taker_order_id fl) db = Inr (tk, db)" and ne: "tf_taker_order_id fl \<noteq> tf_maker_order_id fl"
    and full: "ow_quantity tk = Some wanted" "wanted \<le> ow_filled_quantity tk + tf_quantity fl"
  obtains ow where "fetch_order (tf_taker_order_id fl) db' = Inr (ow, db')" and "ow_status ow = ''filled''"
  using eq
proof (cases rule: settle_fill_cases)
  case (fresh tk' mk db1 db2 db3)
  then have tk': "tk' = tk" using tk by simp
  from tk obtain r mr where r: "List.find (\<lambda>r. od_id r = tf_taker_order_id fl) (db_orders db) = Some r"
    and mr: "List.find (\<lambda>m. mk_id m = od_market_id r) (db_markets db) = Some mr" and idr: "ow_id tk = od_id r"
    by (auto simp: fetch_order_def tx_bind_Inr fetch_one_Inr)
  with find_SomeD [OF r] have id: "ow_id tk = od_id r" "od_id r = tf_taker_order_id fl" by simp_all
  have mkid: "ow_id mk = tf_maker_order_id fl" using fetch_order_Inr [OF fresh(3)] by auto
  have o2: "db_orders db2 = db_orders db" "db_markets db2 = db_markets db"
    using insert_trade_frame [OF fresh(4)] apply_ledgers_frame [OF fresh(5)] by simp_all
  from fresh(6) [unfolded tk'] full obtain p q where
    d3: "db_orders db3 = update_rows (\<lambda>r. od_id r = ow_id tk) (set_fill q p ''filled'') (db_orders db)" "db_markets db3 = db_markets db"
    by (auto simp: update_order_fill_def Let_def o2 split: if_splits)
  from update_order_fill_Inr [OF fresh(7)] obtain p' q' s' where
    d': "db_orders db' = update_rows (\<lambda>r. od_id r = ow_id mk) (set_fill q' p' s') (db_orders db3)" "db_markets db' = db_markets db3"
    by auto
  have "List.find (\<lambda>x. od_id x = tf_taker_order_id fl) (db_orders db') = Some (set_fill q p ''filled'' r)"
    using r ne id mkid by (simp add: d' d3 filled_row.find_updated)
  moreover have "List.find (\<lambda>m. mk_id m = od_market_id (set_fill q p ''filled'' r)) (db_markets db') = Some mr"
    using mr by (simp add: d' d3 set_fill_def)
  ultimately show thesis by (intro that, simp add: fetch_order_def tx_bind_def fetch_one_def tx_return_def set_fill_def, simp)
qed (use new in blast)

lemma settle_cancel_final:
  "fetch_order (oc_order_id e) db = Inr (ow, db) \<Longrightarrow> ow_status ow \<in> {''canceled'', ''filled''} \<Longrightarrow> settle_cancel seq e db = Inr ((), db)"
  by (auto simp: settle_cancel_def tx_bind_def tx_return_def)

text \<open>
  A buy order that fills completely below its limit keeps the difference locked: the lock taken at the limit price
  is only reduced by the traded notional, and as the order is final, a cancellation event releases nothing.
\<close>

theorem price_improvement_stays_locked:
  assumes dist: "accounts_distinct db" and ids: "distinct (map mk_id (db_markets db))"
    and new: "\<forall>r \<in> set (db_orders db). od_id r \<noteq> eo_id ord"
    and m: "fetch_market (eo_symbol ord) db = Inr (m, db)" and side: "eo_side ord = WBuy" and price: "eo_price ord = Some limit"
    and acc: "settle_order_accepted s1 \<lparr>oa_order = ord\<rparr> db = Inr ((), db1)"
    and fl: "tf_taker_order_id fl = eo_id ord" "tf_taker_side fl = WBuy" "tf_quantity fl = eo_quantity ord"
      "tf_maker_order_id fl \<noteq> eo_id ord" and maker: "fetch_order (tf_maker_order_id fl) db1 = Inr (maker, db1)"
    and assets: "ow_base_asset_id maker \<noteq> mw_quote_asset_id m"
    and fresh: "\<forall>t \<in> set (db_trades db1). tr_engine_seq t \<noteq> s2" and fill: "settle_fill s2 fl db1 = Inr ((), db2)"
  shows "locked_amount db2 (eo_user_id ord) (mw_quote_asset_id m) =
      locked_amount db (eo_user_id ord) (mw_quote_asset_id m) + (limit - tf_price fl) * tf_quantity fl
    \<and> settle_cancel s3 \<lparr>oc_order_id = eo_id ord, oc_reason = why\<rparr> db2 = Inr ((), db2)"
proof -
  let ?u = "eo_user_id ord" and ?q = "mw_quote_asset_id m" and ?o = "limit * eo_quantity ord"
  from acc have "\<exists>db0. insert_order ord (mw_id m) db = Inr (True, db0) \<and> db_orders db1 = db_orders db0 \<and> db_markets db1 = db_markets db0
    \<and> accounts_distinct db1 \<and> locked_amount db1 ?u ?q = locked_amount db ?u ?q + ?o"
  proof (cases rule: settle_order_accepted_cases)
    case duplicate
    with fill fresh new fl(1) show ?thesis by (auto elim!: settle_fill_cases dest!: fetch_order_Inr)
  next
    case (entered m')
    with m have i: "insert_order ord (mw_id m) db = Inr (True, db1)" and o: "?o \<le> 0"
      by (simp_all add: lock_obligation_def side price)
    from i price have "0 < limit" "0 < eo_quantity ord"
      by (auto simp: insert_order_def order_checks_def positive_or_null_def Let_def split: if_splits)
    then have "0 < ?o" by simp
    with o show ?thesis by simp
  next
    case (locked m' db0 mu)
    with m have mm: "m' = m" and i: "insert_order ord (mw_id m) db = Inr (True, db0)" by simp_all
    have d0: "accounts_distinct db0" "locked_amount db0 ?u ?q = locked_amount db ?u ?q"
      using dist insert_order_frame [OF i] by (simp_all add: accounts_distinct_def locked_amount_def held_def)
    from apply_ledger_held [OF d0(1) locked(4)] d0(2) locked(5-9) i apply_ledger_frame [OF locked(4)] show ?thesis
      by (intro exI [of _ db0]) (simp add: locked_amount_def lock_obligation_def side price mm)
  qed
  then obtain db0 where i: "insert_order ord (mw_id m) db = Inr (True, db0)" and keep: "db_orders db1 = db_orders db0" "db_markets db1 = db_markets db0"
    and d1: "accounts_distinct db1" and lk: "locked_amount db1 ?u ?q = locked_amount db ?u ?q + ?o" by blast
  show ?thesis
  proof (rule fetch_inserted_order [OF ids m i keep])
    fix ow assume f: "fetch_order (eo_id ord) db1 = Inr (ow, db1)" and u: "ow_user_id ow = ?u" and qty: "ow_quantity ow = Some (eo_quantity ord)"
      "ow_filled_quantity ow = 0" and as: "ow_quote_asset_id ow = ?q"
    have f': "fetch_order (tf_taker_order_id fl) db1 = Inr (ow, db1)" using f fl(1) by simp
    have "locked_amount db2 ?u ?q = locked_amount db1 ?u ?q - tf_price fl * tf_quantity fl"
      using settle_fill_held [OF d1 fill fresh f' maker, of 0 1 "\<lambda>k. k = (?u, ?q)"] assets u as fl(2)
      by (simp add: locked_amount_def fill_mutations_def trade_mutation_def Let_def)
    moreover obtain ow2 where "fetch_order (tf_taker_order_id fl) db2 = Inr (ow2, db2)" "ow_status ow2 = ''filled''"
      by (rule settled_fill_status [OF fill fresh f' _ qty(1)]) (use fl qty in auto)
    ultimately show ?thesis using lk fl(1,3) by (simp add: settle_cancel_final algebra_simps)
  qed
qed

section \<open>A concrete exchange\<close>

text \<open>User 2 has an order to sell two units at 90; user 1 holds 1000 of the quote asset and buys at up to 100.\<close>

definition sample_sell_row :: "real order_record" where
  "sample_sell_row = \<lparr>od_id = 101, od_user_id = 2, od_market_id = 5, od_client_order_id = None, od_side = ''sell'', od_type = ''limit'',
     od_status = ''new'', od_price = Some 90, od_stop_price = None, od_quantity = Some 2, od_quote_quantity = None,
     od_display_quantity = None, od_filled_quantity = 0, od_avg_fill_price = None\<rparr>"

definition sample_adjustment :: "uuid \<Rightarrow> uuid \<Rightarrow> real \<Rightarrow> real ledger_record" where
  "sample_adjustment u a x = \<lparr>le_user_id = u, le_asset_id = a, le_kind = ''adjustment'', le_amount = x, le_available_after = x,
     le_locked_after = 0, le_reference_type = ''bootstrap'', le_reference_id = None, le_engine_seq = None\<rparr>"

definition sample_db :: "real db" where
  "sample_db =
     \<lparr>db_users = [\<lparr>us_id = 1, us_email = ''ann@example.com'', us_password_hash = ''h1'', us_status = ''active'', us_kyc_level = 0,
          us_email_verified = False, us_totp_enabled = False, us_totp_secret_encrypted = None, us_is_admin = False, us_is_mm = False\<rparr>,
        \<lparr>us_id = 2, us_email = ''bob@example.com'', us_password_hash = ''h2'', us_status = ''active'', us_kyc_level = 0,
          us_email_verified = False, us_totp_enabled = False, us_totp_secret_encrypted = None, us_is_admin = False, us_is_mm = False\<rparr>],
      db_refresh_tokens = [],
      db_assets = [\<lparr>at_id = 10, at_symbol = ''BTC'', at_status = ''active'', at_faucet_max = 1\<rparr>,
                   \<lparr>at_id = 20, at_symbol = ''USDT'', at_status = ''active'', at_faucet_max = 1000\<rparr>],
      db_markets = [\<lparr>mk_id = 5, mk_symbol = ''BTCUSDT'', mk_base_asset_id = 10, mk_quote_asset_id = 20, mk_status = ''trading'',
                     mk_tick_size = 1, mk_lot_size = 1, mk_min_notional = 1, mk_maker_fee_bps = 10, mk_taker_fee_bps = 10\<rparr>],
      db_balances = [\<lparr>ba_user_id = 1, ba_asset_id = 10, ba_available = 0, ba_locked = 0\<rparr>,
                     \<lparr>ba_user_id = 1, ba_asset_id = 20, ba_available = 1000, ba_locked = 0\<rparr>,
                     \<lparr>ba_user_id = 2, ba_asset_id = 10, ba_available = 3, ba_locked = 2\<rparr>,
                     \<lparr>ba_user_id = 2, ba_asset_id = 20, ba_available = 0, ba_locked = 0\<rparr>],
      db_orders = [sample_sell_row], db_trades = [], 
      db_ledger_entries = [sample_adjustment 1 20 1000, sample_adjustment 2 10 5], db_deposits = [],
      db_engine_events = [\<lparr>ev_seq = 3, ev_event_type = ''orderAccepted'', ev_payload = ''buy'', ev_processed = False\<rparr>,
                          \<lparr>ev_seq = 4, ev_event_type = ''fill'', ev_payload = ''fill'', ev_processed = False\<rparr>],
      db_worker_state = [(''settlement'', 2)],
      db_api_keys = [], db_audit_log = [], db_klines = []\<rparr>"

definition sample_buy :: "real engine_order" where
  "sample_buy = \<lparr>eo_id = 102, eo_user_id = 1, eo_symbol = ''BTCUSDT'', eo_side = WBuy, eo_order_type = WLimit, eo_price = Some 100,
     eo_quantity = 2, eo_stp_mode = WDecrement, eo_stop_price = None, eo_oco_linked_id = None, eo_display_qty = None\<rparr>"

definition sample_fill :: "real trade_fill" where
  "sample_fill = \<lparr>tf_trade_id = 900, tf_symbol = ''BTCUSDT'', tf_taker_order_id = 102, tf_maker_order_id = 101, tf_price = 90,
     tf_quantity = 2, tf_taker_side = WBuy, tf_ts = ''t''\<rparr>"

definition sample_codec :: "real event_codec" where
  "sample_codec = \<lparr>from_engine_event = (\<lambda>j. if j = ''buy'' then Some (OrderAccepted \<lparr>oa_order = sample_buy\<rparr>)
       else if j = ''fill'' then Some (FillEvent sample_fill) else None),
     from_sequenced_event = (\<lambda>_. None), to_event_value = (\<lambda>_. None)\<rparr>"

lemmas settle_eval = tx_bind_def tx_return_def fetch_one_def fetch_market_def fetch_order_def insert_order_def insert_trade_def
  order_checks_def positive_or_null_def order_references_def trade_checks_def lock_obligation_def apply_ledger_def
  update_balance_def is_account_def balance_checks_def credit_def update_rows_def Let_def

definition sample_buy_row :: "real order_record" where
  "sample_buy_row = \<lparr>od_id = 102, od_user_id = 1, od_market_id = 5, od_client_order_id = None, od_side = ''buy'', od_type = ''limit'',
     od_status = ''new'', od_price = Some 100, od_stop_price = None, od_quantity = Some 2, od_quote_quantity = None,
     od_display_quantity = None, od_filled_quantity = 0, od_avg_fill_price = None\<rparr>"

definition sample_accepted :: "real db" where
  "sample_accepted = sample_db
     \<lparr>db_orders := [sample_sell_row, sample_buy_row],
      db_balances := [\<lparr>ba_user_id = 1, ba_asset_id = 10, ba_available = 0, ba_locked = 0\<rparr>,
                      \<lparr>ba_user_id = 1, ba_asset_id = 20, ba_available = 800, ba_locked = 200\<rparr>,
                      \<lparr>ba_user_id = 2, ba_asset_id = 10, ba_available = 3, ba_locked = 2\<rparr>,
                      \<lparr>ba_user_id = 2, ba_asset_id = 20, ba_available = 0, ba_locked = 0\<rparr>],
      db_ledger_entries := [sample_adjustment 1 20 1000, sample_adjustment 2 10 5,
        \<lparr>le_user_id = 1, le_asset_id = 20, le_kind = ''lock'', le_amount = 0, le_available_after = 800, le_locked_after = 200,
         le_reference_type = ''order'', le_reference_id = Some 102, le_engine_seq = Some 3\<rparr>]\<rparr>"

lemma sample_accept: "settle_order_accepted 3 \<lparr>oa_order = sample_buy\<rparr> sample_db = Inr ((), sample_accepted)"
  by (simp add: settle_order_accepted_def settle_eval sample_db_def sample_buy_def sample_sell_row_def sample_accepted_def sample_buy_row_def)

lemma sample_fill_settles: "\<exists>db'. settle_fill 4 sample_fill sample_accepted = Inr ((), db')"
  by (simp add: settle_fill_def apply_fill_ledger_def fill_mutations_def trade_mutation_def update_order_fill_def set_fill_def fee_amount_def
      BPS_DENOMINATOR_def settle_eval sample_db_def sample_fill_def sample_sell_row_def sample_accepted_def sample_buy_row_def)

lemma sample_distinct: "accounts_distinct sample_db" "accounts_distinct sample_accepted"
  by (simp_all add: accounts_distinct_def sample_db_def sample_accepted_def account_key_def)

lemma sample_ledger_inv: "ledger_inv sample_db"
  by (auto simp: ledger_inv_def ledger_sum_def balance_checks_def sample_db_def account_key_def sample_adjustment_def)

lemma sample_taker:
  obtains ow where "fetch_order 102 sample_accepted = Inr (ow, sample_accepted)" and "ow_user_id ow = 1" and "ow_base_asset_id ow = 10"
    and "ow_quote_asset_id ow = 20" and "ow_taker_fee_bps ow = 10"
  by (simp add: settle_eval sample_accepted_def sample_db_def sample_buy_row_def sample_sell_row_def)

lemma sample_maker:
  obtains ow where "fetch_order 101 sample_accepted = Inr (ow, sample_accepted)" and "ow_user_id ow = 2" and "ow_base_asset_id ow = 10"
    and "ow_quote_asset_id ow = 20" and "ow_maker_fee_bps ow = 10"
  by (simp add: settle_eval sample_accepted_def sample_db_def sample_buy_row_def sample_sell_row_def)

lemma sample_accepted_inv: "ledger_inv sample_accepted"
  using sample_ledger_inv sample_accept by (rule accepted.handle_ledger)

theorem fill_conserves_value_witness:
  "\<exists>db'. settle_fill 4 sample_fill sample_accepted = Inr ((), db')
     \<and> asset_total db' 10 = asset_total sample_accepted 10 - 2 / 1000 \<and> holding db' 2 20 = holding sample_accepted 2 20 + 180 - 18 / 100"
proof -
  obtain db' where s: "settle_fill 4 sample_fill sample_accepted = Inr ((), db')" using sample_fill_settles by blast
  obtain tk where tk: "fetch_order 102 sample_accepted = Inr (tk, sample_accepted)" "ow_user_id tk = 1" "ow_base_asset_id tk = 10"
    "ow_quote_asset_id tk = 20" "ow_taker_fee_bps tk = 10" by (rule sample_taker)
  obtain mk where mk: "fetch_order 101 sample_accepted = Inr (mk, sample_accepted)" "ow_user_id mk = 2" "ow_base_asset_id mk = 10"
    "ow_quote_asset_id mk = 20" "ow_maker_fee_bps mk = 10" by (rule sample_maker)
  have tr: "\<forall>t \<in> set (db_trades sample_accepted). tr_engine_seq t \<noteq> 4" by (simp add: sample_accepted_def sample_db_def)
  have ids: "tf_taker_order_id sample_fill = 102" "tf_maker_order_id sample_fill = 101" by (simp_all add: sample_fill_def)
  from fill_conserves_value [OF sample_accepted_inv s tr, of tk mk 10 20] tk mk ids s show ?thesis
    by (auto simp: sample_fill_def fill_seller_def fee_amount_def BPS_DENOMINATOR_def)
qed

lemma sample_fills_inv: "fills_inv sample_db"
  by (simp add: fills_inv_def order_accounted_def traded_def sample_db_def sample_sell_row_def)


theorem accept_cancel_roundtrip_witness:
  "\<exists>db2. settle_cancel 5 \<lparr>oc_order_id = 102, oc_reason = WAdminCancel\<rparr> sample_accepted = Inr ((), db2)
     \<and> db_balances db2 = db_balances sample_db \<and> db_balances sample_accepted \<noteq> db_balances sample_db"
proof -
  have c: "\<exists>db2. settle_cancel 5 \<lparr>oc_order_id = 102, oc_reason = WAdminCancel\<rparr> sample_accepted = Inr ((), db2)"
    by (simp add: settle_cancel_def settle_eval sample_accepted_def sample_db_def sample_buy_row_def sample_sell_row_def)
  then obtain db2 where c: "settle_cancel 5 \<lparr>oc_order_id = 102, oc_reason = WAdminCancel\<rparr> sample_accepted = Inr ((), db2)" by blast
  have ids: "eo_id sample_buy = 102" by (simp add: sample_buy_def)
  have "db_balances sample_accepted \<noteq> db_balances sample_db" by (simp add: sample_accepted_def sample_db_def)
  moreover have "db_balances db2 = db_balances sample_db"
    by (rule accept_cancel_roundtrip [OF _ _ sample_accept, unfolded ids, OF _ _ c]) (simp_all add: sample_db_def sample_sell_row_def)
  ultimately show ?thesis using c by blast
qed

theorem price_improvement_stays_locked_witness:
  "\<exists>db2. settle_fill 4 sample_fill sample_accepted = Inr ((), db2) \<and> locked_amount db2 1 20 = locked_amount sample_db 1 20 + 20"
proof -
  obtain db2 where s: "settle_fill 4 sample_fill sample_accepted = Inr ((), db2)" using sample_fill_settles by blast
  obtain mk where mk: "fetch_order 101 sample_accepted = Inr (mk, sample_accepted)" "ow_base_asset_id mk = 10" by (rule sample_maker)
  let ?m = "\<lparr>mw_id = 5, mw_base_asset_id = 10, mw_quote_asset_id = 20\<rparr>"
  have m: "fetch_market (eo_symbol sample_buy) sample_db = Inr (?m, sample_db)"
    by (simp add: sample_buy_def settle_eval sample_db_def)
  have fl: "tf_taker_order_id sample_fill = eo_id sample_buy" "tf_taker_side sample_fill = WBuy"
    "tf_quantity sample_fill = eo_quantity sample_buy" "tf_maker_order_id sample_fill \<noteq> eo_id sample_buy"
    by (simp_all add: sample_fill_def sample_buy_def)
  have mk': "fetch_order (tf_maker_order_id sample_fill) sample_accepted = Inr (mk, sample_accepted)"
    using mk(1) by (simp add: sample_fill_def)
  have tr: "\<forall>t \<in> set (db_trades sample_accepted). tr_engine_seq t \<noteq> 4" by (simp add: sample_accepted_def sample_db_def)
  have "locked_amount db2 (eo_user_id sample_buy) (mw_quote_asset_id ?m) =
      locked_amount sample_db (eo_user_id sample_buy) (mw_quote_asset_id ?m) + (100 - tf_price sample_fill) * tf_quantity sample_fill
    \<and> settle_cancel 5 \<lparr>oc_order_id = eo_id sample_buy, oc_reason = WAdminCancel\<rparr> db2 = Inr ((), db2)"
    by (rule price_improvement_stays_locked [OF sample_distinct(1) _ _ m _ _ sample_accept fl mk' _ _ s])
      (simp_all add: sample_db_def sample_sell_row_def sample_buy_def mk(2) tr)
  with s show ?thesis by (simp add: sample_buy_def sample_fill_def)
qed

text \<open>The same market with a buy order that has locked only 100 of the 180 its fill costs.\<close>

definition sample_underlocked :: "real db" where
  "sample_underlocked = sample_accepted
     \<lparr>db_balances := [\<lparr>ba_user_id = 1, ba_asset_id = 10, ba_available = 0, ba_locked = 0\<rparr>,
                      \<lparr>ba_user_id = 1, ba_asset_id = 20, ba_available = 900, ba_locked = 100\<rparr>,
                      \<lparr>ba_user_id = 2, ba_asset_id = 10, ba_available = 3, ba_locked = 2\<rparr>,
                      \<lparr>ba_user_id = 2, ba_asset_id = 20, ba_available = 0, ba_locked = 0\<rparr>],
      db_engine_events := [\<lparr>ev_seq = 4, ev_event_type = ''fill'', ev_payload = ''fill'', ev_processed = False\<rparr>]\<rparr>"

theorem fill_beyond_lock_blocks_witness:
  "\<exists>e. process_available sample_codec sample_underlocked = (sample_underlocked, Inl (Database e))"
proof -
  have n: "fetch_next_event sample_underlocked = Some \<lparr>st_seq = 4, st_event_type = ''fill'', st_payload = ''fill''\<rparr>"
    by (simp add: fetch_next_event_def sample_underlocked_def stored_event_def)
  have d: "decode sample_codec \<lparr>st_seq = 4, st_event_type = ''fill'', st_payload = ''fill''\<rparr> = Inr (FillEvent sample_fill)"
    by (simp add: decode_def sample_codec_def)
  have dist: "accounts_distinct sample_underlocked" by (simp add: accounts_distinct_def account_key_def sample_underlocked_def)
  have "\<exists>tk. fetch_order (tf_taker_order_id sample_fill) sample_underlocked = Inr (tk, sample_underlocked) \<and> ow_user_id tk = 1 \<and> ow_quote_asset_id tk = 20"
    "\<exists>mk. fetch_order (tf_maker_order_id sample_fill) sample_underlocked = Inr (mk, sample_underlocked)"
    by (simp_all add: settle_eval sample_fill_def sample_underlocked_def sample_accepted_def sample_db_def sample_buy_row_def sample_sell_row_def)
  then obtain tk mk where o: "fetch_order (tf_taker_order_id sample_fill) sample_underlocked = Inr (tk, sample_underlocked)"
    "ow_user_id tk = 1" "ow_quote_asset_id tk = 20"
    "fetch_order (tf_maker_order_id sample_fill) sample_underlocked = Inr (mk, sample_underlocked)" by blast
  show ?thesis
    by (rule fill_beyond_lock_blocks [OF dist n d _ o(1,4)])
      (simp_all add: o(2,3) fill_buyer_def sample_fill_def locked_amount_def held_def sample_underlocked_def account_key_def
        sample_accepted_def sample_db_def)
qed

end
