(* ===== verification/Engine_Client.thy ===== *)
theory Engine_Client
  imports Proto_Types
begin

text \<open>
  The API's error values (\<open>services/api/src/errors.rs\<close>) and its client for the engine
  (\<open>services/api/src/engine_client.rs\<close>): the typed calls over the multiplexed connection, and
  the bookkeeping that pairs responses with waiting callers. The transport (\<open>send\<close> up to the
  answer of the socket) is the parameter \<open>send\<close>.
\<close>

datatype error_code =
  InvalidEmail | WeakPassword | EmailTaken | InvalidCredentials | MfaRequired | MfaInvalid | TokenExpired | TokenInvalid | Forbidden
| InsufficientBalance | MarketHalted | MarketUnknown | OrderNotFound | PostOnlyRejected | FokNotFilled | SelfTradePrevented
| StopPriceInvalid | LotSize | TickSize | MinNotional | IdempotencyConflict
| RateLimited | SigTimestamp | SigReplay | SigInvalid
| NotFound | EngineTimeout | Internal

record api_error =
  ae_status :: nat
  ae_code :: error_code
  ae_message :: string
  ae_details :: "string option"
  ae_request_id :: "uuid option"

definition api_error_new :: "nat \<Rightarrow> error_code \<Rightarrow> string \<Rightarrow> api_error" where
  "api_error_new status code message =
     \<lparr>ae_status = status, ae_code = code, ae_message = message, ae_details = None, ae_request_id = None\<rparr>"

definition with_request_id :: "api_error \<Rightarrow> uuid \<Rightarrow> api_error" where
  "with_request_id e request_id = e\<lparr>ae_request_id := Some request_id\<rparr>"

definition internal :: api_error where
  "internal = api_error_new 500 Internal ''Something went wrong''"

section \<open>Typed calls\<close>

datatype engine_client_error =
  ClientIo | ClientSerialization | ClientTimeout | ClientUnexpected | ClientRejected string string

type_synonym 'd engine_send = "'d engine_request \<Rightarrow> uuid \<Rightarrow> engine_client_error + 'd engine_response"

definition client_ping :: "'d engine_send \<Rightarrow> uuid \<Rightarrow> engine_client_error + unit" where
  "client_ping send request_id =
     (case send (Ping \<lparr>pi_request_id = request_id\<rparr>) request_id of
        Inl e \<Rightarrow> Inl e
      | Inr (Pong p) \<Rightarrow> if po_request_id p = request_id then Inr () else Inl ClientUnexpected
      | Inr _ \<Rightarrow> Inl ClientUnexpected)"

definition client_place :: "'d engine_send \<Rightarrow> 'd place_request \<Rightarrow> engine_client_error + 'd order_ack" where
  "client_place send req =
     (case send (Place req) (pr_request_id req) of
        Inl e \<Rightarrow> Inl e
      | Inr (Ack r) \<Rightarrow> (case ar_result r of AckOrder ack \<Rightarrow> Inr ack | _ \<Rightarrow> Inl ClientUnexpected)
      | Inr (Reject r) \<Rightarrow> Inl (ClientRejected (rj_code r) (rj_message r))
      | Inr _ \<Rightarrow> Inl ClientUnexpected)"

definition client_cancel :: "'d engine_send \<Rightarrow> cancel_request \<Rightarrow> engine_client_error + cancel_ack" where
  "client_cancel send req =
     (case send (Cancel req) (cr_request_id req) of
        Inl e \<Rightarrow> Inl e
      | Inr (Ack r) \<Rightarrow> (case ar_result r of AckCancel ack \<Rightarrow> Inr ack | _ \<Rightarrow> Inl ClientUnexpected)
      | Inr (Reject r) \<Rightarrow> Inl (ClientRejected (rj_code r) (rj_message r))
      | Inr _ \<Rightarrow> Inl ClientUnexpected)"

definition client_cancel_all :: "'d engine_send \<Rightarrow> cancel_all_request \<Rightarrow> engine_client_error + cancel_all_ack" where
  "client_cancel_all send req =
     (case send (CancelAll req) (ca_request_id req) of
        Inl e \<Rightarrow> Inl e
      | Inr (Ack r) \<Rightarrow> (case ar_result r of AckCancelAll ack \<Rightarrow> Inr ack | _ \<Rightarrow> Inl ClientUnexpected)
      | Inr (Reject r) \<Rightarrow> Inl (ClientRejected (rj_code r) (rj_message r))
      | Inr _ \<Rightarrow> Inl ClientUnexpected)"

definition client_halt_market :: "'d engine_send \<Rightarrow> market_control_request \<Rightarrow> engine_client_error + market_status_ack" where
  "client_halt_market send req =
     (case send (HaltMarket req) (mc_request_id req) of
        Inl e \<Rightarrow> Inl e
      | Inr (Ack r) \<Rightarrow> (case ar_result r of AckMarketStatus ack \<Rightarrow> Inr ack | _ \<Rightarrow> Inl ClientUnexpected)
      | Inr (Reject r) \<Rightarrow> Inl (ClientRejected (rj_code r) (rj_message r))
      | Inr _ \<Rightarrow> Inl ClientUnexpected)"

definition client_resume_market :: "'d engine_send \<Rightarrow> market_control_request \<Rightarrow> engine_client_error + market_status_ack" where
  "client_resume_market send req =
     (case send (ResumeMarket req) (mc_request_id req) of
        Inl e \<Rightarrow> Inl e
      | Inr (Ack r) \<Rightarrow> (case ar_result r of AckMarketStatus ack \<Rightarrow> Inr ack | _ \<Rightarrow> Inl ClientUnexpected)
      | Inr (Reject r) \<Rightarrow> Inl (ClientRejected (rj_code r) (rj_message r))
      | Inr _ \<Rightarrow> Inl ClientUnexpected)"

definition client_snapshot :: "'d engine_send \<Rightarrow> snapshot_request \<Rightarrow> engine_client_error + 'd book_snapshot" where
  "client_snapshot send req =
     (case send (Snapshot req) (sr_request_id req) of
        Inl e \<Rightarrow> Inl e
      | Inr (Ack r) \<Rightarrow> (case ar_result r of AckSnapshot snap \<Rightarrow> Inr snap | _ \<Rightarrow> Inl ClientUnexpected)
      | Inr _ \<Rightarrow> Inl ClientUnexpected)"

section \<open>Dispatching responses\<close>

definition response_id :: "'d engine_response \<Rightarrow> uuid option" where
  "response_id response =
     (case response of
        Ack r \<Rightarrow> Some (ar_request_id r)
      | Reject r \<Rightarrow> Some (rj_request_id r)
      | Pong r \<Rightarrow> Some (po_request_id r)
      | Event _ \<Rightarrow> None)"

text \<open>
  What a waiting caller receives: its response, or an error because the sender was dropped. The
  reader loop runs over the frames of one connection; \<open>None\<close> is a frame that cannot be read.
\<close>

record 'd client_state =
  cs_pending :: "uuid list"
  cs_delivered :: "(uuid \<times> 'd engine_response) list"
  cs_dropped :: "uuid list"
  cs_events :: "'d sequenced_engine_event list"
  cs_connected :: bool

definition reader_stop :: "'d client_state \<Rightarrow> 'd client_state" where
  "reader_stop st = st\<lparr>cs_connected := False, cs_dropped := cs_dropped st @ cs_pending st, cs_pending := []\<rparr>"

fun reader_loop :: "'d engine_response option list \<Rightarrow> 'd client_state \<Rightarrow> 'd client_state" where
  "reader_loop [] st = reader_stop st"
| "reader_loop (None # frames) st = reader_stop st"
| "reader_loop (Some response # frames) st =
     (case response of
        Event seq_event \<Rightarrow> reader_loop frames (st\<lparr>cs_events := cs_events st @ [seq_event]\<rparr>)
      | _ \<Rightarrow>
          (case response_id response of
             None \<Rightarrow> reader_loop frames st
           | Some i \<Rightarrow>
               if i \<in> set (cs_pending st) then
                 reader_loop frames (st\<lparr>cs_pending := remove1 i (cs_pending st), cs_delivered := cs_delivered st @ [(i, response)]\<rparr>)
               else reader_loop frames st))"

section \<open>Every waiting caller gets one outcome\<close>

lemma reader_loop_outcomes:
  "mset (map fst (cs_delivered (reader_loop frames st))) + mset (cs_dropped (reader_loop frames st)) =
     mset (map fst (cs_delivered st)) + mset (cs_dropped st) + mset (cs_pending st)
   \<and> cs_pending (reader_loop frames st) = [] \<and> \<not> cs_connected (reader_loop frames st)"
proof (induction frames st rule: reader_loop.induct)
  case (3 response frames st)
  show ?case
  proof (cases response)
    case (Event ev)
    with 3 show ?thesis by simp
  qed (use 3 in \<open>auto simp: response_id_def\<close>)
qed (simp_all add: reader_stop_def)

definition matched :: "(uuid \<times> 'd engine_response) list \<Rightarrow> bool" where
  "matched delivered \<longleftrightarrow> (\<forall>(i, r) \<in> set delivered. response_id r = Some i)"

lemma matched_snoc: "matched (ds @ [(i, r)]) \<longleftrightarrow> matched ds \<and> response_id r = Some i"
  by (auto simp: matched_def)

lemma reader_loop_ids: "matched (cs_delivered st) \<Longrightarrow> matched (cs_delivered (reader_loop frames st))"
proof (induction frames st rule: reader_loop.induct)
  case (3 response frames st)
  show ?case
  proof (cases response)
    case (Event ev)
    with 3 show ?thesis by simp
  qed (use 3 in \<open>simp_all add: response_id_def matched_snoc\<close>)
qed (simp_all add: reader_stop_def)

text \<open>
  C19. When the connection to the engine ends, every caller that was waiting has exactly one outcome: its own response, or an
  error because its channel was dropped. No caller receives the response to another request and none is left waiting.
\<close>

theorem every_caller_gets_one_outcome:
  assumes "distinct (cs_pending st)" and "cs_delivered st = []" and "cs_dropped st = []"
  shows "distinct (map fst (cs_delivered (reader_loop frames st)) @ cs_dropped (reader_loop frames st))
    \<and> set (map fst (cs_delivered (reader_loop frames st))) \<union> set (cs_dropped (reader_loop frames st)) = set (cs_pending st)
    \<and> (\<forall>(i, r) \<in> set (cs_delivered (reader_loop frames st)). response_id r = Some i)
    \<and> cs_pending (reader_loop frames st) = []"
proof -
  let ?st = "reader_loop frames st"
  have m: "mset (map fst (cs_delivered ?st) @ cs_dropped ?st) = mset (cs_pending st)" "cs_pending ?st = []"
    using reader_loop_outcomes [of frames st] assms(2,3) by simp_all
  have "distinct (map fst (cs_delivered ?st) @ cs_dropped ?st)" using mset_eq_imp_distinct_iff [OF m(1)] assms(1) by blast
  moreover have "set (map fst (cs_delivered ?st) @ cs_dropped ?st) = set (cs_pending st)" by (rule mset_eq_setD [OF m(1)])
  moreover have "\<forall>(i, r) \<in> set (cs_delivered ?st). response_id r = Some i" using reader_loop_ids [of st frames] assms(2) by (simp add: matched_def)
  ultimately show ?thesis using m(2) by (simp only: set_append)
qed

definition sample_client :: "int client_state" where
  "sample_client = \<lparr>cs_pending = [1, 2], cs_delivered = [], cs_dropped = [], cs_events = [], cs_connected = True\<rparr>"

theorem every_caller_gets_one_outcome_witness:
  "distinct (map fst (cs_delivered (reader_loop [Some (Pong \<lparr>po_request_id = 2\<rparr>), None] sample_client)) @
     cs_dropped (reader_loop [Some (Pong \<lparr>po_request_id = 2\<rparr>), None] sample_client))
   \<and> cs_dropped (reader_loop [Some (Pong \<lparr>po_request_id = 2\<rparr>), None] sample_client) = [1]"
proof -
  have "distinct (cs_pending sample_client)" "cs_delivered sample_client = []" "cs_dropped sample_client = []"
    by (simp_all add: sample_client_def)
  from every_caller_gets_one_outcome [OF this, of "[Some (Pong \<lparr>po_request_id = 2\<rparr>), None]"] show ?thesis
    by (simp add: sample_client_def response_id_def reader_stop_def)
qed

end
