(* ===== verification/Order_Api.thy ===== *)
theory Order_Api
  imports Settlement_Ledger Engine_Client
begin

text \<open>
  The order endpoints of the API (\<open>services/api/src/handlers/orders.rs\<close>) and their repository
  (\<open>repositories/orders.rs\<close>). Each repository call is its own transaction, so a handler that fails
  half-way leaves the effects of the calls before. The engine connection, the decimal parser
  and printer and the new order identifier are parameters; JSON rendering and listing by time are left out.
\<close>

section \<open>Repository\<close>

record 'd api_order_row =
  ao_row :: "'d order_record"
  ao_symbol :: string

definition with_symbol :: "'d db \<Rightarrow> 'd order_record \<Rightarrow> 'd api_order_row option" where
  "with_symbol db r =
     map_option (\<lambda>m. \<lparr>ao_row = r, ao_symbol = mk_symbol m\<rparr>) (List.find (\<lambda>m. mk_id m = od_market_id r) (db_markets db))"

definition order_insert :: "'d::linordered_field order_record \<Rightarrow> ('d, 'd api_order_row) tx" where
  "order_insert row = (\<lambda>db.
     if \<not> order_checks row then Inl ConstraintViolation
     else if \<exists>r \<in> set (db_orders db). od_id r = od_id row then Inl ConstraintViolation
     else if od_client_order_id row \<noteq> None \<and>
        (\<exists>r \<in> set (db_orders db). od_user_id r = od_user_id row \<and> od_client_order_id r = od_client_order_id row)
       then Inl ConstraintViolation
     else if \<not> order_references db row then Inl ConstraintViolation
     else
       (case with_symbol db row of
          None \<Rightarrow> Inl RowNotFound
        | Some r \<Rightarrow> Inr (r, db\<lparr>db_orders := db_orders db @ [row]\<rparr>)))"

text \<open>The first row of a joined query.\<close>

definition fetch_optional :: "('d order_record \<Rightarrow> bool) \<Rightarrow> 'd db \<Rightarrow> 'd api_order_row option" where
  "fetch_optional P db =
     (case List.map_filter (with_symbol db) (filter P (db_orders db)) of [] \<Rightarrow> None | r # _ \<Rightarrow> Some r)"

definition find_by_id :: "'d db \<Rightarrow> uuid \<Rightarrow> uuid \<Rightarrow> 'd api_order_row option" where
  "find_by_id db order_id user_id = fetch_optional (\<lambda>r. od_id r = order_id \<and> od_user_id r = user_id) db"

definition find_by_client_order_id :: "'d db \<Rightarrow> uuid \<Rightarrow> string \<Rightarrow> 'd api_order_row option" where
  "find_by_client_order_id db user_id client_order_id =
     fetch_optional (\<lambda>r. od_user_id r = user_id \<and> od_client_order_id r = Some client_order_id) db"

definition update_status :: "uuid \<Rightarrow> string \<Rightarrow> 'd db \<Rightarrow> 'd db" where
  "update_status order_id status db =
     db\<lparr>db_orders := update_rows (\<lambda>r. od_id r = order_id) (set_status status) (db_orders db)\<rparr>"

definition try_lock_balance :: "uuid \<Rightarrow> uuid \<Rightarrow> 'd \<Rightarrow> ('d::linordered_field, bool) tx" where
  "try_lock_balance user_id asset_id amount = (\<lambda>db.
     let selected = (\<lambda>b. is_account user_id asset_id b \<and> amount \<le> ba_available b)
     in case List.find selected (db_balances db) of
          None \<Rightarrow> Inr (False, db)
        | Some b \<Rightarrow>
            if balance_checks (credit (- amount) amount b)
            then Inr (True, db\<lparr>db_balances := update_rows selected (credit (- amount) amount) (db_balances db)\<rparr>)
            else Inl ConstraintViolation)"

definition unlock_balance :: "uuid \<Rightarrow> uuid \<Rightarrow> 'd \<Rightarrow> ('d::linordered_field, unit) tx" where
  "unlock_balance user_id asset_id amount = (\<lambda>db.
     case List.find (is_account user_id asset_id) (db_balances db) of
       None \<Rightarrow> Inr ((), db)
     | Some b \<Rightarrow>
         if balance_checks (credit amount (- amount) b)
         then Inr ((), db\<lparr>db_balances := update_rows (is_account user_id asset_id) (credit amount (- amount)) (db_balances db)\<rparr>)
         else Inl ConstraintViolation)"

definition get_market_assets :: "'d db \<Rightarrow> string \<Rightarrow> (uuid \<times> uuid \<times> uuid \<times> string) option" where
  "get_market_assets db symbol =
     map_option (\<lambda>m. (mk_id m, mk_base_asset_id m, mk_quote_asset_id m, mk_status m))
       (List.find (\<lambda>m. mk_symbol m = symbol) (db_markets db))"

section \<open>Input and output\<close>

record place_order_input =
  pi_client_order_id :: "string option"
  pi_market :: string
  pi_side :: string
  pi_order_type :: string
  pi_price :: "string option"
  pi_stop_price :: "string option"
  pi_quantity :: "string option"
  pi_quote_quantity :: "string option"
  pi_display_quantity :: "string option"

record fill_response =
  fr_trade_id :: uuid
  fr_price :: string
  fr_quantity :: string
  fr_side :: string
  fr_ts :: string

record order_response =
  op_id :: uuid
  op_client_order_id :: "string option"
  op_market :: string
  op_side :: string
  op_order_type :: string
  op_status :: string
  op_price :: "string option"
  op_stop_price :: "string option"
  op_quantity :: "string option"
  op_quote_quantity :: "string option"
  op_filled_quantity :: string
  op_avg_fill_price :: "string option"
  op_fills :: "fill_response list"

record 'd api_ports =
  ap_send :: "'d engine_send"
  ap_parse :: "string \<Rightarrow> 'd option"
  ap_to_string :: "'d \<Rightarrow> string"

text \<open>ASCII case mapping, which is what \<open>to_uppercase\<close> and \<open>to_lowercase\<close> do on ASCII text.\<close>

definition to_lowercase :: "string \<Rightarrow> string" where
  "to_lowercase = map (\<lambda>c. if (65::nat) \<le> of_char c \<and> of_char c \<le> (90::nat) then char_of (of_char c + 32 :: nat) else c)"

definition to_uppercase :: "string \<Rightarrow> string" where
  "to_uppercase = map (\<lambda>c. if (97::nat) \<le> of_char c \<and> of_char c \<le> (122::nat) then char_of (of_char c - 32 :: nat) else c)"

fun status_text :: "order_status \<Rightarrow> string" where
  "status_text NewStatus = ''new''"
| "status_text Partial = ''partial''"
| "status_text Filled = ''filled''"
| "status_text Canceled = ''canceled''"
| "status_text Rejected = ''rejected''"

fun order_type_str :: "engine_order_type \<Rightarrow> string" where
  "order_type_str WLimit = ''limit''"
| "order_type_str WIceberg = ''limit''"
| "order_type_str WMarket = ''market''"
| "order_type_str WIoc = ''ioc''"
| "order_type_str WFok = ''fok''"
| "order_type_str WPostOnly = ''post_only''"
| "order_type_str WStopLimit = ''stop_limit''"
| "order_type_str WStopMarket = ''stop_market''"
| "order_type_str WOco = ''oco''"

definition api_fail :: "nat \<Rightarrow> error_code \<Rightarrow> string \<Rightarrow> uuid \<Rightarrow> api_error" where
  "api_fail status code message request_id = with_request_id (api_error_new status code message) request_id"

definition parse_side_type :: "string \<Rightarrow> string \<Rightarrow> uuid \<Rightarrow> api_error + order_side \<times> engine_order_type" where
  "parse_side_type side order_type request_id =
     (case map_of [(''buy'', WBuy), (''sell'', WSell)] (to_lowercase side) of
        None \<Rightarrow> Inl (api_fail 400 Internal ''side must be buy or sell'' request_id)
      | Some engine_side \<Rightarrow>
          (case map_of [(''limit'', WLimit), (''market'', WMarket), (''ioc'', WIoc), (''fok'', WFok), (''post_only'', WPostOnly),
                        (''stop_limit'', WStopLimit), (''stop_market'', WStopMarket), (''oco'', WOco)] (to_lowercase order_type) of
             None \<Rightarrow> Inl (api_fail 400 Internal ''Unknown order type'' request_id)
           | Some engine_type \<Rightarrow> Inr (engine_side, engine_type)))"

definition parse_optional_decimal :: "'d api_ports \<Rightarrow> string option \<Rightarrow> string \<Rightarrow> uuid \<Rightarrow> api_error + 'd option" where
  "parse_optional_decimal ports raw field request_id =
     (case raw of
        None \<Rightarrow> Inr None
      | Some s \<Rightarrow>
          (case ap_parse ports s of
             Some d \<Rightarrow> Inr (Some d)
           | None \<Rightarrow> Inl (api_fail 400 Internal (''Invalid decimal for '' @ field) request_id)))"

definition balance_lock_params ::
  "order_side \<Rightarrow> engine_order_type \<Rightarrow> 'd::linordered_field option \<Rightarrow> 'd \<Rightarrow> 'd option \<Rightarrow> uuid \<Rightarrow> uuid \<Rightarrow> (uuid \<times> 'd) option" where
  "balance_lock_params side order_type price quantity quote_quantity base_asset_id quote_asset_id =
     (if order_type = WStopLimit \<or> order_type = WStopMarket then None
      else
        (case side of
           WBuy \<Rightarrow>
             (case price of
                None \<Rightarrow> (case quote_quantity of None \<Rightarrow> None | Some qq \<Rightarrow> Some (quote_asset_id, qq))
              | Some p \<Rightarrow> Some (quote_asset_id, p * quantity))
         | WSell \<Rightarrow> Some (base_asset_id, quantity)))"

definition order_to_response :: "'d api_ports \<Rightarrow> 'd api_order_row \<Rightarrow> 'd trade_fill list \<Rightarrow> order_response" where
  "order_to_response ports row fills =
     (let r = ao_row row; show_opt = map_option (ap_to_string ports)
      in \<lparr>op_id = od_id r, op_client_order_id = od_client_order_id r, op_market = ao_symbol row, op_side = od_side r,
          op_order_type = od_type r, op_status = od_status r, op_price = show_opt (od_price r), op_stop_price = show_opt (od_stop_price r),
          op_quantity = show_opt (od_quantity r), op_quote_quantity = show_opt (od_quote_quantity r),
          op_filled_quantity = ap_to_string ports (od_filled_quantity r), op_avg_fill_price = show_opt (od_avg_fill_price r),
          op_fills = map (\<lambda>f. \<lparr>fr_trade_id = tf_trade_id f, fr_price = ap_to_string ports (tf_price f),
            fr_quantity = ap_to_string ports (tf_quantity f), fr_side = order_side_db (tf_taker_side f), fr_ts = tf_ts f\<rparr>) fills\<rparr>)"

definition map_engine_reject :: "string \<Rightarrow> uuid \<Rightarrow> api_error" where
  "map_engine_reject code request_id =
     (if code = ''POST_ONLY_REJECTED'' then api_fail 409 PostOnlyRejected ''Post-only order would cross the book'' request_id
      else if code = ''FOK_NOT_FILLED'' then api_fail 409 FokNotFilled ''FOK order could not be fully filled'' request_id
      else if code = ''SELF_TRADE_PREVENTED'' then api_fail 409 SelfTradePrevented ''Self-trade prevented'' request_id
      else if code = ''STOP_PRICE_INVALID'' then api_fail 400 StopPriceInvalid ''Stop price is on the wrong side of last price'' request_id
      else if code = ''MARKET_HALTED'' then api_fail 409 MarketHalted ''Market is halted'' request_id
      else api_fail 400 Internal ''Order rejected by engine'' request_id)"

section \<open>Placing an order\<close>

record 'd parsed_order =
  pd_side :: order_side
  pd_type :: engine_order_type
  pd_price :: "'d option"
  pd_stop_price :: "'d option"
  pd_quantity :: 'd
  pd_quote_quantity :: "'d option"
  pd_display_quantity :: "'d option"

definition effective_qty ::
  "order_side \<Rightarrow> engine_order_type \<Rightarrow> 'd option \<Rightarrow> 'd option \<Rightarrow> uuid \<Rightarrow> api_error + 'd" where
  "effective_qty side order_type quantity quote_quantity request_id =
     (if order_type = WMarket \<and> side = WBuy then
        (case quote_quantity of Some q \<Rightarrow> Inr q | None \<Rightarrow> Inl (api_fail 400 Internal ''Market buy requires quoteQuantity'' request_id))
      else if order_type = WMarket then
        (case quantity of Some q \<Rightarrow> Inr q | None \<Rightarrow> Inl (api_fail 400 Internal ''Market sell requires quantity'' request_id))
      else
        (case quantity of Some q \<Rightarrow> Inr q | None \<Rightarrow> Inl (api_fail 400 Internal ''quantity is required for this order type'' request_id)))"

text \<open>The validation part of the handler: everything between the idempotency check and the market lookup.\<close>

definition validate_input ::
  "'d::linordered_field api_ports \<Rightarrow> uuid \<Rightarrow> place_order_input \<Rightarrow> api_error + 'd parsed_order" where
  "validate_input ports request_id input =
     (case parse_side_type (pi_side input) (pi_order_type input) request_id of Inl e \<Rightarrow> Inl e | Inr (side, order_type) \<Rightarrow>
      case parse_optional_decimal ports (pi_price input) ''price'' request_id of Inl e \<Rightarrow> Inl e | Inr price \<Rightarrow>
      case parse_optional_decimal ports (pi_stop_price input) ''stopPrice'' request_id of Inl e \<Rightarrow> Inl e | Inr stop_price \<Rightarrow>
      case parse_optional_decimal ports (pi_quantity input) ''quantity'' request_id of Inl e \<Rightarrow> Inl e | Inr quantity \<Rightarrow>
      case parse_optional_decimal ports (pi_quote_quantity input) ''quoteQuantity'' request_id of Inl e \<Rightarrow> Inl e | Inr quote_quantity \<Rightarrow>
      case parse_optional_decimal ports (pi_display_quantity input) ''displayQuantity'' request_id of Inl e \<Rightarrow> Inl e | Inr display_quantity \<Rightarrow>
      case effective_qty side order_type quantity quote_quantity request_id of Inl e \<Rightarrow> Inl e | Inr qty \<Rightarrow>
        if qty \<le> 0 then Inl (api_fail 400 Internal ''quantity must be positive'' request_id)
        else if order_type \<in> {WLimit, WPostOnly, WIoc, WFok} \<and> price = None
          then Inl (api_fail 400 Internal ''price is required for this order type'' request_id)
        else Inr \<lparr>pd_side = side, pd_type = order_type, pd_price = price, pd_stop_price = stop_price, pd_quantity = qty,
                  pd_quote_quantity = quote_quantity, pd_display_quantity = display_quantity\<rparr>)"

text \<open>
  The lock of the caller's balance: \<open>Inl\<close> is the error the handler returns. On an engine failure
  the handler spawns a task that undoes the lock; the task is the second component of the result.
\<close>

type_synonym 'd unlock_task = "(uuid \<times> uuid \<times> 'd) option"

definition lock_for_order ::
  "uuid \<Rightarrow> (uuid \<times> 'd) option \<Rightarrow> uuid \<Rightarrow> 'd::linordered_field db \<Rightarrow> api_error + 'd db" where
  "lock_for_order user_id lock request_id db =
     (case lock of
        None \<Rightarrow> Inr db
      | Some (asset_id, amount) \<Rightarrow>
          (case try_lock_balance user_id asset_id amount db of
             Inl _ \<Rightarrow> Inl (with_request_id internal request_id)
           | Inr (True, db') \<Rightarrow> Inr db'
           | Inr (False, _) \<Rightarrow> Inl (api_fail 402 InsufficientBalance ''Insufficient balance'' request_id)))"

definition pending_row :: "uuid \<Rightarrow> uuid \<Rightarrow> uuid \<Rightarrow> place_order_input \<Rightarrow> 'd::linordered_field parsed_order \<Rightarrow> 'd order_record" where
  "pending_row order_id user_id market_id input p =
     \<lparr>od_id = order_id, od_user_id = user_id, od_market_id = market_id, od_client_order_id = pi_client_order_id input,
      od_side = to_lowercase (pi_side input), od_type = order_type_str (pd_type p), od_status = ''pending'', od_price = pd_price p,
      od_stop_price = pd_stop_price p, od_quantity = Some (pd_quantity p), od_quote_quantity = pd_quote_quantity p,
      od_display_quantity = pd_display_quantity p, od_filled_quantity = 0, od_avg_fill_price = None\<rparr>"

definition engine_place_request :: "uuid \<Rightarrow> uuid \<Rightarrow> uuid \<Rightarrow> string \<Rightarrow> 'd parsed_order \<Rightarrow> 'd place_request" where
  "engine_place_request request_id order_id user_id symbol p =
     \<lparr>pr_request_id = request_id,
      pr_order = \<lparr>eo_id = order_id, eo_user_id = user_id, eo_symbol = symbol, eo_side = pd_side p, eo_order_type = pd_type p,
        eo_price = pd_price p, eo_quantity = pd_quantity p, eo_stp_mode = WDecrement, eo_stop_price = pd_stop_price p,
        eo_oco_linked_id = None, eo_display_qty = pd_display_quantity p\<rparr>\<rparr>"

definition engine_failure :: "engine_client_error \<Rightarrow> uuid \<Rightarrow> api_error" where
  "engine_failure err request_id =
     (case err of
        ClientTimeout \<Rightarrow> api_fail 503 EngineTimeout ''Engine did not respond in time'' request_id
      | ClientRejected code message \<Rightarrow> map_engine_reject code request_id
      | _ \<Rightarrow> with_request_id internal request_id)"

definition api_place_order ::
  "'d::linordered_field api_ports \<Rightarrow> uuid \<Rightarrow> uuid \<Rightarrow> uuid \<Rightarrow> place_order_input option \<Rightarrow> 'd db \<Rightarrow>
     'd db \<times> 'd unlock_task \<times> (api_error + nat \<times> order_response)" where
  "api_place_order ports user_id request_id order_id payload db =
     (case payload of
        None \<Rightarrow> (db, None, Inl (api_fail 400 Internal ''Invalid JSON body'' request_id))
      | Some input \<Rightarrow>
          (let symbol = to_uppercase (pi_market input) in
           case (case pi_client_order_id input of None \<Rightarrow> None | Some cid \<Rightarrow> find_by_client_order_id db user_id cid) of
             Some existing \<Rightarrow> (db, None, Inr (200, order_to_response ports existing []))
           | None \<Rightarrow>
               (case validate_input ports request_id input of
                  Inl e \<Rightarrow> (db, None, Inl e)
                | Inr p \<Rightarrow>
                    (case get_market_assets db symbol of
                       None \<Rightarrow> (db, None, Inl (api_fail 404 MarketUnknown ''Market not found'' request_id))
                     | Some (market_id, base_asset_id, quote_asset_id, status) \<Rightarrow>
                         if status = ''halted'' \<or> status = ''delisted''
                         then (db, None, Inl (api_fail 409 MarketHalted ''Market is halted'' request_id))
                         else
                           (let lock = balance_lock_params (pd_side p) (pd_type p) (pd_price p) (pd_quantity p)
                                         (pd_quote_quantity p) base_asset_id quote_asset_id in
                            case lock_for_order user_id lock request_id db of
                              Inl e \<Rightarrow> (db, None, Inl e)
                            | Inr db1 \<Rightarrow>
                                (case order_insert (pending_row order_id user_id market_id input p) db1 of
                                   Inl _ \<Rightarrow> (db1, None, Inl (with_request_id internal request_id))
                                 | Inr (_, db2) \<Rightarrow>
                                     (case client_place (ap_send ports) (engine_place_request request_id order_id user_id symbol p) of
                                        Inl err \<Rightarrow> (db2, map_option (\<lambda>(asset_id, amount). (user_id, asset_id, amount)) lock,
                                                    Inl (engine_failure err request_id))
                                      | Inr ack \<Rightarrow>
                                          (let db3 = update_status order_id (status_text (ak_status ack)) db2
                                           in case find_by_id db3 order_id user_id of
                                                None \<Rightarrow> (db3, None, Inl (with_request_id internal request_id))
                                              | Some row \<Rightarrow> (db3, None, Inr (201, order_to_response ports row (ak_fills ack)))))))))))"

text \<open>The spawned task; a failed unlock is only logged.\<close>

definition run_unlock_task :: "'d::linordered_field unlock_task \<Rightarrow> 'd db \<Rightarrow> 'd db" where
  "run_unlock_task task db =
     (case task of
        None \<Rightarrow> db
      | Some (user_id, asset_id, amount) \<Rightarrow>
          (case unlock_balance user_id asset_id amount db of Inl _ \<Rightarrow> db | Inr (_, db') \<Rightarrow> db'))"

section \<open>Reading and cancelling\<close>

definition api_get_order ::
  "'d api_ports \<Rightarrow> uuid \<Rightarrow> uuid \<Rightarrow> uuid \<Rightarrow> 'd db \<Rightarrow> api_error + order_response" where
  "api_get_order ports user_id request_id order_id db =
     (case find_by_id db order_id user_id of
        None \<Rightarrow> Inl (api_fail 404 OrderNotFound ''Order not found'' request_id)
      | Some row \<Rightarrow> Inr (order_to_response ports row []))"

definition api_cancel_order ::
  "'d::linordered_field api_ports \<Rightarrow> uuid \<Rightarrow> uuid \<Rightarrow> uuid \<Rightarrow> 'd db \<Rightarrow> 'd db \<times> (api_error + nat \<times> order_response)" where
  "api_cancel_order ports user_id request_id order_id db =
     (case find_by_id db order_id user_id of
        None \<Rightarrow> (db, Inl (api_fail 404 OrderNotFound ''Order not found'' request_id))
      | Some row \<Rightarrow>
          if od_status (ao_row row) \<in> {''filled'', ''canceled'', ''rejected''} then (db, Inr (200, order_to_response ports row []))
          else
            (case client_cancel (ap_send ports) \<lparr>cr_request_id = request_id, cr_symbol = ao_symbol row, cr_order_id = order_id\<rparr> of
               Inl err \<Rightarrow>
                 (db, Inl (if err = ClientTimeout then api_fail 503 EngineTimeout ''Engine did not respond in time'' request_id
                           else with_request_id internal request_id))
             | Inr ack \<Rightarrow>
                 (let db' = update_status order_id (status_text (ck_status ack)) db;
                      updated = (case find_by_id db' order_id user_id of None \<Rightarrow> row | Some r \<Rightarrow> r)
                  in (db', Inr (200, order_to_response ports updated [])))))"

definition api_cancel_all_orders ::
  "'d api_ports \<Rightarrow> uuid \<Rightarrow> uuid \<Rightarrow> string option \<Rightarrow> api_error + uuid list" where
  "api_cancel_all_orders ports user_id request_id market =
     (case client_cancel_all (ap_send ports)
             \<lparr>ca_request_id = request_id, ca_user_id = user_id, ca_symbol = map_option to_uppercase market\<rparr> of
        Inl err \<Rightarrow> Inl (if err = ClientTimeout then api_fail 503 EngineTimeout ''Engine did not respond in time'' request_id
                         else with_request_id internal request_id)
      | Inr ack \<Rightarrow> Inr (cl_order_ids ack))"

end
