(* ===== verification/Auth_Repository.thy ===== *)
theory Auth_Repository
  imports Exchange_Db
begin

text \<open>
  The persistence boundary of authentication: the rows and the trait \<open>AuthRepository\<close> of
  \<open>services/api/src/repositories/mod.rs\<close>, the production implementation over the exchange database
  (\<open>repositories/postgres.rs\<close>) and the in-memory one (\<open>repositories/memory.rs\<close>).
  \<open>Arc<dyn AuthRepository>\<close> is a record of operations on a store; the locale \<open>auth_store\<close> is the contract the
  service relies on, and both implementations are shown to honour it. Connection failures are not modelled,
  so the two stores never answer a query with an error.
\<close>

section \<open>Rows\<close>

datatype account_status = Active | Frozen | Closed

record auth_user =
  au_id :: uuid
  au_email :: string
  au_password_hash :: string
  au_status :: account_status
  au_kyc_level :: int
  au_totp_enabled :: bool

record refresh_token =
  rt_id :: uuid
  rt_user_id :: uuid
  rt_session_id :: uuid
  rt_token_hash :: string
  rt_family_id :: uuid
  rt_expires_at :: int
  rt_revoked_at :: "int option"

record create_user_input =
  cu_id :: uuid
  cu_email :: string
  cu_password_hash :: string

record create_refresh_token_input =
  ct_id :: uuid
  ct_user_id :: uuid
  ct_session_id :: uuid
  ct_token_hash :: string
  ct_family_id :: uuid
  ct_expires_at :: int

datatype repository_error = RepoEmailTaken | RepoUnavailable

definition from_db :: "string \<Rightarrow> account_status" where
  "from_db value =
     (if value = ''active'' then Active else if value = ''frozen'' then Frozen else Closed)"

text \<open>The trait: queries read the store, commands return the new one.\<close>

record 's auth_repository =
  create_user :: "create_user_input \<Rightarrow> 's \<Rightarrow> 's \<times> (repository_error + auth_user)"
  find_user_by_email :: "string \<Rightarrow> 's \<Rightarrow> repository_error + auth_user option"
  insert_refresh_token :: "create_refresh_token_input \<Rightarrow> 's \<Rightarrow> 's \<times> (repository_error + unit)"
  find_refresh_token :: "string \<Rightarrow> 's \<Rightarrow> repository_error + refresh_token option"
  find_user_by_id :: "uuid \<Rightarrow> 's \<Rightarrow> repository_error + auth_user option"
  revoke_refresh_token :: "uuid \<Rightarrow> int \<Rightarrow> 's \<Rightarrow> 's \<times> (repository_error + unit)"
  revoke_refresh_family :: "uuid \<Rightarrow> int \<Rightarrow> 's \<Rightarrow> 's \<times> (repository_error + unit)"

section \<open>The Postgres repository\<close>

text \<open>A unique violation is SQL state 23505; every other database error is unavailability.\<close>

datatype sqlx_error = UniqueViolation | OtherDatabaseError

fun map_sqlx :: "sqlx_error \<Rightarrow> repository_error" where
  "map_sqlx UniqueViolation = RepoEmailTaken"
| "map_sqlx OtherDatabaseError = RepoUnavailable"

definition user_of_row :: "user_row \<Rightarrow> auth_user" where
  "user_of_row row =
     \<lparr>au_id = us_id row, au_email = us_email row, au_password_hash = us_password_hash row,
      au_status = from_db (us_status row), au_kyc_level = us_kyc_level row, au_totp_enabled = us_totp_enabled row\<rparr>"

definition token_of_row :: "refresh_token_row \<Rightarrow> refresh_token" where
  "token_of_row row =
     \<lparr>rt_id = rr_id row, rt_user_id = rr_user_id row, rt_session_id = rr_session_id row, rt_token_hash = rr_token_hash row,
      rt_family_id = rr_family_id row, rt_expires_at = rr_expires_at row, rt_revoked_at = rr_revoked_at row\<rparr>"

definition seed_zero_balances :: "uuid \<Rightarrow> 'd::linordered_field db \<Rightarrow> 'd db" where
  "seed_zero_balances user_id db =
     db\<lparr>db_balances := fold
          (\<lambda>asset rows. if List.find (is_account user_id (at_id asset)) rows \<noteq> None then rows
             else rows @ [\<lparr>ba_user_id = user_id, ba_asset_id = at_id asset, ba_available = 0, ba_locked = 0\<rparr>])
          (filter (\<lambda>asset. at_status asset = ''active'') (db_assets db)) (db_balances db)\<rparr>"

definition pg_create_user :: "create_user_input \<Rightarrow> 'd::linordered_field db \<Rightarrow> 'd db \<times> (repository_error + auth_user)" where
  "pg_create_user input db =
     (if \<exists>u \<in> set (db_users db). us_id u = cu_id input \<or> us_email u = cu_email input
      then (db, Inl (map_sqlx UniqueViolation))
      else let row = \<lparr>us_id = cu_id input, us_email = cu_email input, us_password_hash = cu_password_hash input,
                      us_status = ''active'', us_kyc_level = 0, us_email_verified = False, us_totp_enabled = False, us_totp_secret_encrypted = None, us_is_admin = False, us_is_mm = False\<rparr>
           in (seed_zero_balances (us_id row) (db\<lparr>db_users := db_users db @ [row]\<rparr>), Inr (user_of_row row)))"

definition pg_find_user_by_email :: "string \<Rightarrow> 'd db \<Rightarrow> repository_error + auth_user option" where
  "pg_find_user_by_email email db = Inr (map_option user_of_row (List.find (\<lambda>u. us_email u = email) (db_users db)))"

definition pg_insert_refresh_token :: "create_refresh_token_input \<Rightarrow> 'd db \<Rightarrow> 'd db \<times> (repository_error + unit)" where
  "pg_insert_refresh_token input db =
     (if \<exists>t \<in> set (db_refresh_tokens db). rr_id t = ct_id input \<or> rr_token_hash t = ct_token_hash input
      then (db, Inl (map_sqlx UniqueViolation))
      else if \<forall>u \<in> set (db_users db). us_id u \<noteq> ct_user_id input then (db, Inl (map_sqlx OtherDatabaseError))
      else (db\<lparr>db_refresh_tokens := db_refresh_tokens db @
              [\<lparr>rr_id = ct_id input, rr_user_id = ct_user_id input, rr_session_id = ct_session_id input,
                rr_token_hash = ct_token_hash input, rr_family_id = ct_family_id input,
                rr_expires_at = ct_expires_at input, rr_revoked_at = None\<rparr>]\<rparr>, Inr ()))"

definition pg_find_refresh_token :: "string \<Rightarrow> 'd db \<Rightarrow> repository_error + refresh_token option" where
  "pg_find_refresh_token token_hash db =
     Inr (map_option token_of_row (List.find (\<lambda>t. rr_token_hash t = token_hash) (db_refresh_tokens db)))"

definition pg_find_user_by_id :: "uuid \<Rightarrow> 'd db \<Rightarrow> repository_error + auth_user option" where
  "pg_find_user_by_id user_id db = Inr (map_option user_of_row (List.find (\<lambda>u. us_id u = user_id) (db_users db)))"

text \<open>\<open>SET revoked_at = COALESCE(revoked_at, $2)\<close>.\<close>

definition revoke_row :: "int \<Rightarrow> refresh_token_row \<Rightarrow> refresh_token_row" where
  "revoke_row revoked_at t =
     t\<lparr>rr_revoked_at := (case rr_revoked_at t of None \<Rightarrow> Some revoked_at | Some earlier \<Rightarrow> Some earlier)\<rparr>"

definition pg_revoke_refresh_token :: "uuid \<Rightarrow> int \<Rightarrow> 'd db \<Rightarrow> 'd db \<times> (repository_error + unit)" where
  "pg_revoke_refresh_token token_id revoked_at db =
     (db\<lparr>db_refresh_tokens := update_rows (\<lambda>t. rr_id t = token_id) (revoke_row revoked_at) (db_refresh_tokens db)\<rparr>, Inr ())"

definition pg_revoke_refresh_family :: "uuid \<Rightarrow> int \<Rightarrow> 'd db \<Rightarrow> 'd db \<times> (repository_error + unit)" where
  "pg_revoke_refresh_family family_id revoked_at db =
     (db\<lparr>db_refresh_tokens := update_rows (\<lambda>t. rr_family_id t = family_id) (revoke_row revoked_at) (db_refresh_tokens db)\<rparr>, Inr ())"

definition pg_auth_repository :: "'d::linordered_field db auth_repository" where
  "pg_auth_repository =
     \<lparr>create_user = pg_create_user, find_user_by_email = pg_find_user_by_email,
      insert_refresh_token = pg_insert_refresh_token, find_refresh_token = pg_find_refresh_token,
      find_user_by_id = pg_find_user_by_id, revoke_refresh_token = pg_revoke_refresh_token,
      revoke_refresh_family = pg_revoke_refresh_family\<rparr>"

section \<open>The in-memory repository\<close>

record memory_inner =
  mi_users_by_id :: "uuid \<rightharpoonup> auth_user"
  mi_user_id_by_email :: "string \<rightharpoonup> uuid"
  mi_refresh_by_hash :: "string \<rightharpoonup> refresh_token"

definition memory_insert_user :: "auth_user \<Rightarrow> memory_inner \<Rightarrow> memory_inner" where
  "memory_insert_user user inner =
     inner\<lparr>mi_user_id_by_email := (mi_user_id_by_email inner)(au_email user \<mapsto> au_id user),
           mi_users_by_id := (mi_users_by_id inner)(au_id user \<mapsto> user)\<rparr>"

definition memory_create_user :: "create_user_input \<Rightarrow> memory_inner \<Rightarrow> memory_inner \<times> (repository_error + auth_user)" where
  "memory_create_user input inner =
     (if mi_user_id_by_email inner (cu_email input) \<noteq> None then (inner, Inl RepoEmailTaken)
      else let user = \<lparr>au_id = cu_id input, au_email = cu_email input, au_password_hash = cu_password_hash input,
                       au_status = Active, au_kyc_level = 0, au_totp_enabled = False\<rparr>
           in (memory_insert_user user inner, Inr user))"

definition memory_find_user_by_email :: "string \<Rightarrow> memory_inner \<Rightarrow> repository_error + auth_user option" where
  "memory_find_user_by_email email inner =
     Inr (case mi_user_id_by_email inner email of None \<Rightarrow> None | Some i \<Rightarrow> mi_users_by_id inner i)"

definition memory_insert_refresh_token ::
  "create_refresh_token_input \<Rightarrow> memory_inner \<Rightarrow> memory_inner \<times> (repository_error + unit)" where
  "memory_insert_refresh_token input inner =
     (inner\<lparr>mi_refresh_by_hash := (mi_refresh_by_hash inner)(ct_token_hash input \<mapsto>
        \<lparr>rt_id = ct_id input, rt_user_id = ct_user_id input, rt_session_id = ct_session_id input,
         rt_token_hash = ct_token_hash input, rt_family_id = ct_family_id input, rt_expires_at = ct_expires_at input,
         rt_revoked_at = None\<rparr>)\<rparr>, Inr ())"

definition memory_find_refresh_token :: "string \<Rightarrow> memory_inner \<Rightarrow> repository_error + refresh_token option" where
  "memory_find_refresh_token token_hash inner = Inr (mi_refresh_by_hash inner token_hash)"

definition memory_find_user_by_id :: "uuid \<Rightarrow> memory_inner \<Rightarrow> repository_error + auth_user option" where
  "memory_find_user_by_id user_id inner = Inr (mi_users_by_id inner user_id)"

definition revoke_where :: "(refresh_token \<Rightarrow> bool) \<Rightarrow> int \<Rightarrow> refresh_token \<Rightarrow> refresh_token" where
  "revoke_where P revoked_at token =
     (if P token \<and> rt_revoked_at token = None then token\<lparr>rt_revoked_at := Some revoked_at\<rparr> else token)"

definition memory_revoke_refresh_token :: "uuid \<Rightarrow> int \<Rightarrow> memory_inner \<Rightarrow> memory_inner \<times> (repository_error + unit)" where
  "memory_revoke_refresh_token token_id revoked_at inner =
     (inner\<lparr>mi_refresh_by_hash := map_option (revoke_where (\<lambda>t. rt_id t = token_id) revoked_at) \<circ> mi_refresh_by_hash inner\<rparr>, Inr ())"

definition memory_revoke_refresh_family :: "uuid \<Rightarrow> int \<Rightarrow> memory_inner \<Rightarrow> memory_inner \<times> (repository_error + unit)" where
  "memory_revoke_refresh_family family_id revoked_at inner =
     (inner\<lparr>mi_refresh_by_hash := map_option (revoke_where (\<lambda>t. rt_family_id t = family_id) revoked_at) \<circ> mi_refresh_by_hash inner\<rparr>, Inr ())"

definition memory_auth_repository :: "memory_inner auth_repository" where
  "memory_auth_repository =
     \<lparr>create_user = memory_create_user, find_user_by_email = memory_find_user_by_email,
      insert_refresh_token = memory_insert_refresh_token, find_refresh_token = memory_find_refresh_token,
      find_user_by_id = memory_find_user_by_id, revoke_refresh_token = memory_revoke_refresh_token,
      revoke_refresh_family = memory_revoke_refresh_family\<rparr>"

section \<open>The contract\<close>

text \<open>The rows a successful insert stands for.\<close>

definition new_user :: "create_user_input \<Rightarrow> auth_user" where
  "new_user input =
     \<lparr>au_id = cu_id input, au_email = cu_email input, au_password_hash = cu_password_hash input, au_status = Active,
      au_kyc_level = 0, au_totp_enabled = False\<rparr>"

definition new_token :: "create_refresh_token_input \<Rightarrow> refresh_token" where
  "new_token input =
     \<lparr>rt_id = ct_id input, rt_user_id = ct_user_id input, rt_session_id = ct_session_id input,
      rt_token_hash = ct_token_hash input, rt_family_id = ct_family_id input, rt_expires_at = ct_expires_at input,
      rt_revoked_at = None\<rparr>"

text \<open>
  What the service relies on, over the three lookups \<open>users\<close> (by id), \<open>logins\<close> (by email) and \<open>tokens\<close> (by hash)
  that the queries answer from.
\<close>

locale auth_store =
  fixes repo :: "'s auth_repository" and ok :: "'s \<Rightarrow> bool"
    and users :: "'s \<Rightarrow> uuid \<rightharpoonup> auth_user" and logins :: "'s \<Rightarrow> string \<rightharpoonup> auth_user" and tokens :: "'s \<Rightarrow> string \<rightharpoonup> refresh_token"
  assumes find_user_by_id: "find_user_by_id repo i s = Inr (users s i)"
    and find_user_by_email: "find_user_by_email repo e s = Inr (logins s e)"
    and find_refresh_token: "find_refresh_token repo h s = Inr (tokens s h)"
    and login_is_user: "ok s \<Longrightarrow> logins s e = Some u \<longleftrightarrow> users s (au_id u) = Some u \<and> au_email u = e"
    and user_id: "ok s \<Longrightarrow> users s i = Some u \<Longrightarrow> au_id u = i"
    and create_user_taken: "ok s \<Longrightarrow> logins s (cu_email input) \<noteq> None \<Longrightarrow> create_user repo input s = (s, Inl RepoEmailTaken)"
    and create_user_Inl: "create_user repo input s = (s', Inl err) \<Longrightarrow> s' = s"
    and create_user_Inr: "ok s \<Longrightarrow> users s (cu_id input) = None \<Longrightarrow> create_user repo input s = (s', Inr u) \<Longrightarrow>
      u = new_user input \<and> logins s (cu_email input) = None \<and> ok s' \<and> users s' = (users s)(cu_id input \<mapsto> u) \<and> tokens s' = tokens s"
    and insert_token_Inl: "insert_refresh_token repo t s = (s', Inl err) \<Longrightarrow> s' = s"
    and insert_token_Inr: "ok s \<Longrightarrow> insert_refresh_token repo t s = (s', Inr x) \<Longrightarrow>
      ok s' \<and> users s' = users s \<and> tokens s' = (tokens s)(ct_token_hash t \<mapsto> new_token t)"
    and revoke_token: "ok s \<Longrightarrow> revoke_refresh_token repo i now s = (s', res) \<Longrightarrow>
      res = Inr () \<and> ok s' \<and> users s' = users s
      \<and> tokens s' = (\<lambda>h. map_option (revoke_where (\<lambda>t. rt_id t = i) now) (tokens s h))"
    and revoke_family: "ok s \<Longrightarrow> revoke_refresh_family repo f now s = (s', res) \<Longrightarrow>
      res = Inr () \<and> ok s' \<and> users s' = users s
      \<and> tokens s' = (\<lambda>h. map_option (revoke_where (\<lambda>t. rt_family_id t = f) now) (tokens s h))"
begin

text \<open>The email lookup follows the id lookup, so token operations cannot change who may log in.\<close>

lemma logins_cong: "ok s \<Longrightarrow> ok s' \<Longrightarrow> users s' = users s \<Longrightarrow> logins s' = logins s"
  by (rule ext) (metis login_is_user not_Some_eq)

lemma created_login:
  assumes "ok s" and "users s (cu_id input) = None" and "create_user repo input s = (s', Inr u)"
  shows "logins s' = (logins s)(cu_email input \<mapsto> u)"
proof
  note made = create_user_Inr [OF assms]
  have u: "au_id u = cu_id input" "au_email u = cu_email input" using made by (simp_all add: new_user_def)
  fix e
  have "logins s' e = Some v \<longleftrightarrow> ((logins s)(cu_email input \<mapsto> u)) e = Some v" for v
    using made u assms(1,2) login_is_user [of s' e v] login_is_user [of s e v] by auto
  then show "logins s' e = ((logins s)(cu_email input \<mapsto> u)) e"
    by (metis not_Some_eq)
qed

end

section \<open>Both repositories honour the contract\<close>

definition pg_ok :: "'d db \<Rightarrow> bool" where
  "pg_ok db \<longleftrightarrow> distinct (map us_id (db_users db)) \<and> distinct (map us_email (db_users db))
     \<and> distinct (map rr_token_hash (db_refresh_tokens db))"

definition pg_users :: "'d db \<Rightarrow> uuid \<rightharpoonup> auth_user" where
  "pg_users db i = map_option user_of_row (List.find (\<lambda>u. us_id u = i) (db_users db))"

definition pg_logins :: "'d db \<Rightarrow> string \<rightharpoonup> auth_user" where
  "pg_logins db e = map_option user_of_row (List.find (\<lambda>u. us_email u = e) (db_users db))"

definition pg_tokens :: "'d db \<Rightarrow> string \<rightharpoonup> refresh_token" where
  "pg_tokens db h = map_option token_of_row (List.find (\<lambda>t. rr_token_hash t = h) (db_refresh_tokens db))"

lemma find_key_snoc:
  "key y \<notin> key ` set rows \<Longrightarrow>
     List.find (\<lambda>x. key x = k) (rows @ [y]) = (if k = key y then Some y else List.find (\<lambda>x. key x = k) rows)"
  by (induction rows) auto

lemma find_key_iff:
  "distinct (map key rows) \<Longrightarrow> List.find (\<lambda>y. key y = k) rows = Some x \<longleftrightarrow> x \<in> set rows \<and> key x = k"
  using find_by_key [of key rows x] find_SomeD [of "\<lambda>y. key y = k" rows x] by auto

lemma find_key_None: "List.find (\<lambda>y. key y = k) rows = None \<longleftrightarrow> k \<notin> key ` set rows"
  by (auto simp: find_None_iff)

lemma find_update_rows:
  assumes "\<And>r. key (f r) = key r"
  shows "List.find (\<lambda>r. key r = k) (update_rows P f rows) =
    map_option (\<lambda>r. if P r then f r else r) (List.find (\<lambda>r. key r = k) rows)"
  using assms by (induction rows) (auto simp: update_rows_def)

lemma map_key_update_rows:
  assumes "\<And>r. key (f r) = key r"
  shows "map key (update_rows P f rows) = map key rows"
  using assms by (simp add: update_rows_def)

lemma seed_zero_balances_frame [simp]:
  "db_users (seed_zero_balances i db) = db_users db" "db_refresh_tokens (seed_zero_balances i db) = db_refresh_tokens db"
  by (simp_all add: seed_zero_balances_def)

lemma revoke_row_keeps [simp]:
  "rr_token_hash (revoke_row now t) = rr_token_hash t" "rr_id (revoke_row now t) = rr_id t"
  "rr_family_id (revoke_row now t) = rr_family_id t"
  by (simp_all add: revoke_row_def)

lemma token_of_revoked_row:
  "token_of_row (if P (token_of_row t) then revoke_row now t else t) = revoke_where P now (token_of_row t)"
  by (simp add: revoke_row_def token_of_row_def revoke_where_def split: option.split)

lemma pg_login_is_user:
  assumes "pg_ok db"
  shows "pg_logins db e = Some u \<longleftrightarrow> pg_users db (au_id u) = Some u \<and> au_email u = e"
proof -
  have d: "distinct (map us_id (db_users db))" "distinct (map us_email (db_users db))" using assms by (simp_all add: pg_ok_def)
  have "pg_logins db e = Some u \<longleftrightarrow> (\<exists>r \<in> set (db_users db). us_email r = e \<and> user_of_row r = u)"
    by (auto simp: pg_logins_def find_key_iff [OF d(2)])
  moreover have "pg_users db (au_id u) = Some u \<longleftrightarrow> (\<exists>r \<in> set (db_users db). us_id r = au_id u \<and> user_of_row r = u)"
    by (auto simp: pg_users_def find_key_iff [OF d(1)])
  ultimately show ?thesis by (auto simp: user_of_row_def)
qed

lemma pg_create_user_Inr:
  assumes "pg_ok db" and "pg_create_user input db = (db', Inr u)"
  shows "u = new_user input \<and> pg_logins db (cu_email input) = None \<and> pg_ok db'
    \<and> pg_users db' = (pg_users db)(cu_id input \<mapsto> u) \<and> pg_tokens db' = pg_tokens db"
proof -
  from assms(2) have fresh: "\<forall>r \<in> set (db_users db). us_id r \<noteq> cu_id input \<and> us_email r \<noteq> cu_email input"
    by (auto simp: pg_create_user_def split: if_splits)
  with assms(2) have u: "u = new_user input"
    and users: "db_users db' = db_users db @ [\<lparr>us_id = cu_id input, us_email = cu_email input, us_password_hash = cu_password_hash input,
                      us_status = ''active'', us_kyc_level = 0, us_email_verified = False, us_totp_enabled = False, us_totp_secret_encrypted = None, us_is_admin = False, us_is_mm = False\<rparr>]"
    and tokens: "db_refresh_tokens db' = db_refresh_tokens db"
    by (auto simp: pg_create_user_def Let_def user_of_row_def new_user_def from_db_def)
  have "us_id (\<lparr>us_id = cu_id input, us_email = e, us_password_hash = p, us_status = st, us_kyc_level = k, us_email_verified = v, us_totp_enabled = b,
      us_totp_secret_encrypted = c, us_is_admin = ad, us_is_mm = m\<rparr>) \<notin> us_id ` set (db_users db)" for e p st k v b c ad m
    using fresh by auto
  then have "pg_users db' = (pg_users db)(cu_id input \<mapsto> u)"
    unfolding pg_users_def users fun_eq_iff by (simp add: find_key_snoc u user_of_row_def new_user_def from_db_def)
  moreover have "pg_ok db'" using assms(1) fresh by (auto simp: pg_ok_def users tokens)
  moreover have "pg_logins db (cu_email input) = None" using fresh by (auto simp: pg_logins_def find_None_iff)
  ultimately show ?thesis using u by (simp add: pg_tokens_def fun_eq_iff tokens)
qed

lemma pg_insert_token_Inr:
  assumes "pg_ok db" and "pg_insert_refresh_token t db = (db', Inr x)"
  shows "pg_ok db' \<and> pg_users db' = pg_users db \<and> pg_tokens db' = (pg_tokens db)(ct_token_hash t \<mapsto> new_token t)"
proof -
  define row where "row = \<lparr>rr_id = ct_id t, rr_user_id = ct_user_id t, rr_session_id = ct_session_id t,
    rr_token_hash = ct_token_hash t, rr_family_id = ct_family_id t, rr_expires_at = ct_expires_at t, rr_revoked_at = None\<rparr>"
  from assms(2) have fresh: "\<forall>r \<in> set (db_refresh_tokens db). rr_token_hash r \<noteq> ct_token_hash t"
    and db': "db' = db\<lparr>db_refresh_tokens := db_refresh_tokens db @ [row]\<rparr>"
    by (auto simp: pg_insert_refresh_token_def row_def split: if_splits)
  have "pg_tokens db' = (pg_tokens db)(ct_token_hash t \<mapsto> new_token t)"
  proof -
    have "rr_token_hash row = ct_token_hash t" "token_of_row row = new_token t"
      by (simp_all add: row_def token_of_row_def new_token_def)
    moreover from this fresh have "rr_token_hash row \<notin> rr_token_hash ` set (db_refresh_tokens db)" by auto
    ultimately show ?thesis unfolding pg_tokens_def db' fun_eq_iff by (simp add: find_key_snoc)
  qed
  moreover have "pg_ok db'" using assms(1) fresh by (auto simp: pg_ok_def db' row_def)
  ultimately show ?thesis by (simp add: pg_users_def fun_eq_iff db')
qed

lemma pg_revoke_rows:
  assumes "pg_ok db" and P: "\<And>t. P t \<longleftrightarrow> Q (token_of_row t)"
    and db': "db' = db\<lparr>db_refresh_tokens := update_rows P (revoke_row now) (db_refresh_tokens db)\<rparr>"
  shows "pg_ok db' \<and> pg_users db' = pg_users db \<and> pg_tokens db' = (\<lambda>h. map_option (revoke_where Q now) (pg_tokens db h))"
proof -
  have "pg_tokens db' h = map_option (revoke_where Q now) (pg_tokens db h)" for h
    by (simp add: pg_tokens_def db' find_update_rows option.map_comp o_def P token_of_revoked_row)
  with assms(1) show ?thesis by (simp add: pg_ok_def pg_users_def fun_eq_iff db' map_key_update_rows)
qed

lemma pg_revoke_token:
  assumes "pg_ok db" and "pg_revoke_refresh_token i now db = (db', res)"
  shows "res = Inr () \<and> pg_ok db' \<and> pg_users db' = pg_users db
    \<and> pg_tokens db' = (\<lambda>h. map_option (revoke_where (\<lambda>t. rt_id t = i) now) (pg_tokens db h))"
proof -
  from assms(2) have "db' = db\<lparr>db_refresh_tokens := update_rows (\<lambda>t. rr_id t = i) (revoke_row now) (db_refresh_tokens db)\<rparr>" and "res = Inr ()"
    by (auto simp: pg_revoke_refresh_token_def)
  with pg_revoke_rows [OF assms(1) _ this(1), of "\<lambda>t. rt_id t = i"] show ?thesis by (simp add: token_of_row_def)
qed

lemma pg_revoke_family:
  assumes "pg_ok db" and "pg_revoke_refresh_family f now db = (db', res)"
  shows "res = Inr () \<and> pg_ok db' \<and> pg_users db' = pg_users db
    \<and> pg_tokens db' = (\<lambda>h. map_option (revoke_where (\<lambda>t. rt_family_id t = f) now) (pg_tokens db h))"
proof -
  from assms(2) have "db' = db\<lparr>db_refresh_tokens := update_rows (\<lambda>t. rr_family_id t = f) (revoke_row now) (db_refresh_tokens db)\<rparr>"
    and "res = Inr ()"
    by (auto simp: pg_revoke_refresh_family_def)
  with pg_revoke_rows [OF assms(1) _ this(1), of "\<lambda>t. rt_family_id t = f"] show ?thesis by (simp add: token_of_row_def)
qed

interpretation pg: auth_store pg_auth_repository pg_ok pg_users pg_logins pg_tokens
proof
  show "pg_logins db e = Some u \<longleftrightarrow> pg_users db (au_id u) = Some u \<and> au_email u = e" if "pg_ok db" for db :: "'d::linordered_field db" and e u
    using that by (rule pg_login_is_user)
  show "u = new_user input \<and> pg_logins db (cu_email input) = None \<and> pg_ok db' \<and> pg_users db' = (pg_users db)(cu_id input \<mapsto> u)
      \<and> pg_tokens db' = pg_tokens db"
    if "pg_ok db" "create_user pg_auth_repository input db = (db', Inr u)" for db db' :: "'d::linordered_field db" and input u
    using that by (simp add: pg_auth_repository_def pg_create_user_Inr)
  show "pg_ok db' \<and> pg_users db' = pg_users db \<and> pg_tokens db' = (pg_tokens db)(ct_token_hash t \<mapsto> new_token t)"
    if "pg_ok db" "insert_refresh_token pg_auth_repository t db = (db', Inr x)" for db db' :: "'d::linordered_field db" and t x
    using that by (simp add: pg_auth_repository_def pg_insert_token_Inr)
  show "res = Inr () \<and> pg_ok db' \<and> pg_users db' = pg_users db
      \<and> pg_tokens db' = (\<lambda>h. map_option (revoke_where (\<lambda>t. rt_id t = i) now) (pg_tokens db h))"
    if "pg_ok db" "revoke_refresh_token pg_auth_repository i now db = (db', res)" for db db' :: "'d::linordered_field db" and i now res
    using that by (simp add: pg_auth_repository_def pg_revoke_token)
  show "res = Inr () \<and> pg_ok db' \<and> pg_users db' = pg_users db
      \<and> pg_tokens db' = (\<lambda>h. map_option (revoke_where (\<lambda>t. rt_family_id t = f) now) (pg_tokens db h))"
    if "pg_ok db" "revoke_refresh_family pg_auth_repository f now db = (db', res)" for db db' :: "'d::linordered_field db" and f now res
    using that by (simp add: pg_auth_repository_def pg_revoke_family)
qed (auto simp: pg_auth_repository_def pg_find_user_by_id_def pg_users_def pg_find_user_by_email_def pg_logins_def
      pg_find_refresh_token_def pg_tokens_def pg_create_user_def pg_insert_refresh_token_def Let_def user_of_row_def
      dest!: find_SomeD split: if_splits)

definition memory_ok :: "memory_inner \<Rightarrow> bool" where
  "memory_ok inner \<longleftrightarrow> (\<forall>i u. mi_users_by_id inner i = Some u \<longrightarrow> au_id u = i \<and> mi_user_id_by_email inner (au_email u) = Some i)
     \<and> (\<forall>e i. mi_user_id_by_email inner e = Some i \<longrightarrow> (\<exists>u. mi_users_by_id inner i = Some u \<and> au_email u = e))"

definition memory_logins :: "memory_inner \<Rightarrow> string \<rightharpoonup> auth_user" where
  "memory_logins inner e = (case mi_user_id_by_email inner e of None \<Rightarrow> None | Some i \<Rightarrow> mi_users_by_id inner i)"

lemmas memory_defs = memory_auth_repository_def memory_create_user_def memory_find_user_by_email_def memory_find_user_by_id_def
  memory_insert_refresh_token_def memory_find_refresh_token_def memory_revoke_refresh_token_def memory_revoke_refresh_family_def
  memory_logins_def

lemma memory_okD:
  assumes "memory_ok inner"
  shows "mi_users_by_id inner i = Some u \<Longrightarrow> au_id u = i" and "mi_users_by_id inner i = Some u \<Longrightarrow> mi_user_id_by_email inner (au_email u) = Some i"
    and "mi_user_id_by_email inner e = Some i \<Longrightarrow> \<exists>u. mi_users_by_id inner i = Some u \<and> au_email u = e"
  using assms by (simp_all add: memory_ok_def)

lemma memory_login_is_user:
  assumes ok: "memory_ok inner"
  shows "memory_logins inner e = Some u \<longleftrightarrow> mi_users_by_id inner (au_id u) = Some u \<and> au_email u = e"
proof
  assume "memory_logins inner e = Some u"
  then obtain i where i: "mi_user_id_by_email inner e = Some i" "mi_users_by_id inner i = Some u"
    by (auto simp: memory_logins_def split: option.splits)
  from memory_okD(3) [OF ok i(1)] memory_okD(1) [OF ok i(2)] i(2)
  show "mi_users_by_id inner (au_id u) = Some u \<and> au_email u = e" by simp
next
  assume u: "mi_users_by_id inner (au_id u) = Some u \<and> au_email u = e"
  with memory_okD(2) [OF ok] show "memory_logins inner e = Some u" by (auto simp: memory_logins_def)
qed

lemma memory_create_user_Inr:
  assumes ok: "memory_ok s" and fresh: "mi_users_by_id s (cu_id input) = None" and made: "memory_create_user input s = (s', Inr u)"
  shows "u = new_user input \<and> memory_logins s (cu_email input) = None \<and> memory_ok s'
    \<and> mi_users_by_id s' = (mi_users_by_id s)(cu_id input \<mapsto> u) \<and> mi_refresh_by_hash s' = mi_refresh_by_hash s"
proof -
  from made have none: "mi_user_id_by_email s (cu_email input) = None" and u: "u = new_user input" and s': "s' = memory_insert_user u s"
    by (auto simp: memory_create_user_def new_user_def Let_def split: if_splits)
  have sel: "mi_users_by_id s' = (mi_users_by_id s)(cu_id input \<mapsto> u)"
      "mi_user_id_by_email s' = (mi_user_id_by_email s)(cu_email input \<mapsto> cu_id input)"
      "au_id u = cu_id input" "au_email u = cu_email input"
    unfolding s' u memory_insert_user_def new_user_def by simp_all
  have "memory_ok s'" unfolding memory_ok_def sel(1,2)
  proof (intro conjI allI impI)
    fix i v assume v: "((mi_users_by_id s)(cu_id input \<mapsto> u)) i = Some v"
    then show "au_id v = i" using memory_okD(1) [OF ok, of i v] sel(3) by (auto split: if_splits)
    from v show "((mi_user_id_by_email s)(cu_email input \<mapsto> cu_id input)) (au_email v) = Some i"
      using memory_okD(2) [OF ok, of i v] none sel(4) by (auto split: if_splits)
  next
    fix e i assume "((mi_user_id_by_email s)(cu_email input \<mapsto> cu_id input)) e = Some i"
    then show "\<exists>v. ((mi_users_by_id s)(cu_id input \<mapsto> u)) i = Some v \<and> au_email v = e"
      using memory_okD(3) [OF ok, of e i] fresh sel(4) by (auto split: if_splits)
  qed
  moreover have "mi_refresh_by_hash s' = mi_refresh_by_hash s" unfolding s' memory_insert_user_def by simp
  moreover have "memory_logins s (cu_email input) = None" using none unfolding memory_logins_def by simp
  ultimately show ?thesis using u sel(1) by blast
qed

interpretation memory: auth_store memory_auth_repository memory_ok mi_users_by_id memory_logins mi_refresh_by_hash
proof
  show "memory_logins s e = Some u \<longleftrightarrow> mi_users_by_id s (au_id u) = Some u \<and> au_email u = e" if "memory_ok s" for s e u
    using that by (rule memory_login_is_user)
  show "create_user memory_auth_repository input s = (s, Inl RepoEmailTaken)"
    if "memory_ok s" "memory_logins s (cu_email input) \<noteq> None" for s input
    using that by (simp add: memory_defs split: option.splits)
  show "u = new_user input \<and> memory_logins s (cu_email input) = None \<and> memory_ok s'
    \<and> mi_users_by_id s' = (mi_users_by_id s)(cu_id input \<mapsto> u) \<and> mi_refresh_by_hash s' = mi_refresh_by_hash s"
    if "memory_ok s" "mi_users_by_id s (cu_id input) = None" "create_user memory_auth_repository input s = (s', Inr u)" for s s' u input
    by (rule memory_create_user_Inr) (use that in \<open>simp_all add: memory_auth_repository_def\<close>)
  show "create_user memory_auth_repository input s = (s', Inl err) \<Longrightarrow> s' = s" for input s s' err
    by (auto simp: memory_defs Let_def split: if_splits)
  show "memory_ok s \<Longrightarrow> mi_users_by_id s i = Some u \<Longrightarrow> au_id u = i" for s i u
    by (rule memory_okD(1))
qed (auto simp: memory_defs memory_ok_def new_token_def o_def)

end
