(* ===== verification/Auth_Service.thy ===== *)
theory Auth_Service
  imports Auth_Repository Engine_Client
begin

text \<open>
  Authentication: the input rules of \<open>services/api/src/schemas.rs\<close>, token minting (\<open>auth/tokens.rs\<close>), the
  service of \<open>auth/service.rs\<close> over any \<open>AuthRepository\<close>, and the endpoints of \<open>handlers/auth.rs\<close>.
  Argon2, SHA-256, base64, JWT encoding and \<open>OffsetDateTime::checked_add\<close> are parameters (\<open>auth_ports\<close>); the UUIDs, clock
  readings and random bytes one request draws are its \<open>request_env\<close>. Times are seconds since the epoch.
  The response-time floor for a taken email is not modelled.
\<close>

section \<open>Schemas\<close>

definition ascii_lower :: "char \<Rightarrow> char" where
  "ascii_lower c = (let n = (of_char c :: nat) in if 65 \<le> n \<and> n \<le> 90 then char_of (n + 32) else c)"

definition is_lowercase :: "char \<Rightarrow> bool" where
  "is_lowercase c \<longleftrightarrow> (let n = (of_char c :: nat) in 97 \<le> n \<and> n \<le> 122)"

definition is_uppercase :: "char \<Rightarrow> bool" where
  "is_uppercase c \<longleftrightarrow> (let n = (of_char c :: nat) in 65 \<le> n \<and> n \<le> 90)"

definition is_ascii_digit :: "char \<Rightarrow> bool" where
  "is_ascii_digit c \<longleftrightarrow> (let n = (of_char c :: nat) in 48 \<le> n \<and> n \<le> 57)"

definition is_alphanumeric :: "char \<Rightarrow> bool" where
  "is_alphanumeric c \<longleftrightarrow> is_lowercase c \<or> is_uppercase c \<or> is_ascii_digit c"

definition normalize_email :: "string \<Rightarrow> string" where
  "normalize_email email = map ascii_lower (trim email)"

fun split_on :: "char \<Rightarrow> string \<Rightarrow> string list" where
  "split_on sep [] = [[]]"
| "split_on sep (c # cs) =
     (if c = sep then [] # split_on sep cs
      else case split_on sep cs of [] \<Rightarrow> [[c]] | part # parts \<Rightarrow> (c # part) # parts)"

text \<open>
  \<open>EMAIL_RE\<close>: one or more local characters, \<open>@\<close>, and at least two dot-separated labels. Neither
  part admits \<open>@\<close>, so the expression splits at the first one.
\<close>

definition local_char :: "char \<Rightarrow> bool" where
  "local_char c \<longleftrightarrow> is_alphanumeric c \<or> c = CHR 0x27 \<or> c = CHR 0x60 \<or> c \<in> set ''.!#$%&*+/=?^_{|}~-''"

definition label_char :: "char \<Rightarrow> bool" where
  "label_char c \<longleftrightarrow> is_alphanumeric c \<or> c = CHR ''-''"

definition email_re :: "string \<Rightarrow> bool" where
  "email_re s \<longleftrightarrow>
     (let sep = CHR ''@''; before = takeWhile (\<lambda>c. c \<noteq> sep) s; after = dropWhile (\<lambda>c. c \<noteq> sep) s;
          labels = split_on (CHR ''.'') (tl after)
      in before \<noteq> [] \<and> list_all local_char before \<and> after \<noteq> [] \<and> 2 \<le> length labels
         \<and> list_all (\<lambda>label. label \<noteq> [] \<and> list_all label_char label) labels)"

definition is_valid_email :: "string \<Rightarrow> bool" where
  "is_valid_email email \<longleftrightarrow>
     (let normalised = normalize_email email
      in length normalised \<le> 254 \<and> email_re normalised \<and> CHR 0x22 \<notin> set normalised)"

definition password_policy_failures :: "string \<Rightarrow> string list" where
  "password_policy_failures password =
     (if length password < 12 then [''min_length''] else []) @
     (if \<not> list_ex is_lowercase password then [''lowercase''] else []) @
     (if \<not> list_ex is_uppercase password then [''uppercase''] else []) @
     (if \<not> list_ex is_ascii_digit password then [''digit''] else []) @
     (if \<not> list_ex (\<lambda>c. \<not> is_alphanumeric c) password then [''symbol''] else [])"

record signup_input =
  si_email :: string
  si_password :: string

record login_input =
  li_email :: string
  li_password :: string

section \<open>Tokens\<close>

record token_config =
  tc_jwt_secret :: string
  tc_access_token_ttl :: nat
  tc_mfa_token_ttl :: nat
  tc_refresh_token_ttl :: nat

record access_claims =
  ac_sub :: uuid
  ac_sid :: uuid
  ac_kyc :: int
  ac_iat :: int
  ac_exp :: int
  ac_jti :: uuid

record mfa_claims =
  mc_sub :: uuid
  mc_sid :: uuid
  mc_purpose :: string
  mc_iat :: int
  mc_exp :: int
  mc_jti :: uuid

record token_pair =
  tp_access_token :: string
  tp_refresh_token :: string
  tp_refresh_token_hash :: string
  tp_refresh_expires_at :: int
  tp_expires_in :: nat

datatype token_error = JwtError | ExpiryOverflow

record auth_ports =
  pt_hash_password :: "string \<Rightarrow> u8 list \<Rightarrow> string option"
  pt_verify_password :: "string \<Rightarrow> string \<Rightarrow> bool option"
  pt_checked_add :: "int \<Rightarrow> int \<Rightarrow> int option"
  pt_encode_access :: "string \<Rightarrow> access_claims \<Rightarrow> string option"
  pt_encode_mfa :: "string \<Rightarrow> mfa_claims \<Rightarrow> string option"
  pt_sha256 :: "string \<Rightarrow> u8 list"
  pt_base64_url :: "u8 list \<Rightarrow> string"
  pt_missing_json :: "string list \<Rightarrow> string"

record request_env =
  rq_ids :: "nat \<Rightarrow> uuid"
  rq_clock :: "nat \<Rightarrow> int"
  rq_salt :: "u8 list"
  rq_random :: "u8 list"

definition hex_char :: "u8 \<Rightarrow> char" where
  "hex_char nibble = (let digits = ''0123456789abcdef'' in if unat nibble < length digits then digits ! unat nibble else CHR ''0'')"

definition hash_refresh_token :: "auth_ports \<Rightarrow> string \<Rightarrow> string" where
  "hash_refresh_token ports token =
     concat (map (\<lambda>byte. [hex_char (drop_bit 4 byte), hex_char (and byte 0x0f)]) (pt_sha256 ports token))"

definition add_duration :: "auth_ports \<Rightarrow> int \<Rightarrow> nat \<Rightarrow> int option" where
  "add_duration ports now duration = (if duration < 2 ^ 63 then pt_checked_add ports now (int duration) else None)"

definition mint_pair ::
  "auth_ports \<Rightarrow> token_config \<Rightarrow> u8 list \<Rightarrow> int \<Rightarrow> uuid \<Rightarrow> uuid \<Rightarrow> int \<Rightarrow> uuid \<Rightarrow> token_error + token_pair" where
  "mint_pair ports cfg random now user_id session_id kyc_level jwt_id =
     (case add_duration ports now (tc_access_token_ttl cfg) of
        None \<Rightarrow> Inl ExpiryOverflow
      | Some access_expires_at \<Rightarrow>
          (case add_duration ports now (tc_refresh_token_ttl cfg) of
             None \<Rightarrow> Inl ExpiryOverflow
           | Some refresh_expires_at \<Rightarrow>
               (case pt_encode_access ports (tc_jwt_secret cfg)
                       \<lparr>ac_sub = user_id, ac_sid = session_id, ac_kyc = kyc_level, ac_iat = now,
                        ac_exp = access_expires_at, ac_jti = jwt_id\<rparr> of
                  None \<Rightarrow> Inl JwtError
                | Some access_token \<Rightarrow>
                    (let refresh_token = pt_base64_url ports random
                     in Inr \<lparr>tp_access_token = access_token, tp_refresh_token = refresh_token,
                             tp_refresh_token_hash = hash_refresh_token ports refresh_token,
                             tp_refresh_expires_at = refresh_expires_at, tp_expires_in = tc_access_token_ttl cfg\<rparr>))))"

definition mint_mfa_token :: "auth_ports \<Rightarrow> token_config \<Rightarrow> int \<Rightarrow> uuid \<Rightarrow> uuid \<Rightarrow> uuid \<Rightarrow> token_error + string" where
  "mint_mfa_token ports cfg now user_id session_id jwt_id =
     (case add_duration ports now (tc_mfa_token_ttl cfg) of
        None \<Rightarrow> Inl ExpiryOverflow
      | Some expires_at \<Rightarrow>
          (case pt_encode_mfa ports (tc_jwt_secret cfg)
                  \<lparr>mc_sub = user_id, mc_sid = session_id, mc_purpose = ''mfa'', mc_iat = now, mc_exp = expires_at,
                   mc_jti = jwt_id\<rparr> of
             None \<Rightarrow> Inl JwtError
           | Some token \<Rightarrow> Inr token))"

section \<open>Login attempts\<close>

definition LOGIN_WINDOW_SECONDS :: int where
  "LOGIN_WINDOW_SECONDS = 15 * 60"

definition MAX_LOGIN_FAILURES :: "32 word" where
  "MAX_LOGIN_FAILURES = 5"

record failure_window =
  fw_count :: "32 word"
  fw_first_failure_at :: int

record login_attempts =
  la_by_email :: "string \<rightharpoonup> failure_window"
  la_by_ip :: "string \<rightharpoonup> failure_window"

definition increment_window :: "failure_window \<Rightarrow> failure_window" where
  "increment_window window =
     window\<lparr>fw_count := (if fw_count window = - 1 then fw_count window else fw_count window + 1)\<rparr>"

definition bump :: "string \<Rightarrow> int \<Rightarrow> (string \<rightharpoonup> failure_window) \<Rightarrow> (string \<rightharpoonup> failure_window)" where
  "bump key now windows =
     windows(key \<mapsto> increment_window
       (case windows key of None \<Rightarrow> \<lparr>fw_count = 0, fw_first_failure_at = now\<rparr> | Some window \<Rightarrow> window))"

definition attempts_record :: "string \<Rightarrow> string \<Rightarrow> int \<Rightarrow> login_attempts \<Rightarrow> login_attempts" where
  "attempts_record email ip_key now attempts =
     attempts\<lparr>la_by_email := bump email now (la_by_email attempts), la_by_ip := bump ip_key now (la_by_ip attempts)\<rparr>"

definition retain_recent :: "int \<Rightarrow> (string \<rightharpoonup> failure_window) \<Rightarrow> (string \<rightharpoonup> failure_window)" where
  "retain_recent now windows = (\<lambda>key. case windows key of None \<Rightarrow> None
     | Some window \<Rightarrow> if now - fw_first_failure_at window \<le> LOGIN_WINDOW_SECONDS then Some window else None)"

definition attempts_prune :: "int \<Rightarrow> login_attempts \<Rightarrow> login_attempts" where
  "attempts_prune now attempts =
     attempts\<lparr>la_by_email := retain_recent now (la_by_email attempts), la_by_ip := retain_recent now (la_by_ip attempts)\<rparr>"

definition is_locked :: "string \<Rightarrow> string \<Rightarrow> login_attempts \<Rightarrow> bool" where
  "is_locked email ip_key attempts \<longleftrightarrow>
     (case la_by_email attempts email of None \<Rightarrow> False | Some window \<Rightarrow> MAX_LOGIN_FAILURES \<le> fw_count window)
     \<or> (case la_by_ip attempts ip_key of None \<Rightarrow> False | Some window \<Rightarrow> MAX_LOGIN_FAILURES \<le> fw_count window)"

section \<open>The service\<close>

datatype auth_error =
  AuthInvalidEmail | AuthWeakPassword "string list" | AuthEmailTaken | AuthInvalidCredentials | AuthTooManyAttempts
| AuthTokenExpired | AuthTokenInvalid | AuthInternal

datatype login_outcome = Tokens token_pair | LoginMfaRequired string

record 's auth_state =
  sv_repository :: 's
  sv_attempts :: login_attempts

definition normalised_email_or_error :: "string \<Rightarrow> auth_error + string" where
  "normalised_email_or_error email =
     (let email' = normalize_email email in if is_valid_email email' then Inr email' else Inl AuthInvalidEmail)"

definition mint_and_store_pair_with_family ::
  "auth_ports \<Rightarrow> token_config \<Rightarrow> 's auth_repository \<Rightarrow> u8 list \<Rightarrow> int \<Rightarrow> uuid \<Rightarrow> uuid \<Rightarrow> uuid \<Rightarrow> uuid \<Rightarrow> int \<Rightarrow> uuid \<Rightarrow>
     's auth_state \<Rightarrow> 's auth_state \<times> (auth_error + token_pair)" where
  "mint_and_store_pair_with_family ports cfg repo random now user_id session_id family_id token_id kyc_level jwt_id st =
     (case mint_pair ports cfg random now user_id session_id kyc_level jwt_id of
        Inl _ \<Rightarrow> (st, Inl AuthInternal)
      | Inr pair \<Rightarrow>
          (case insert_refresh_token repo
                  \<lparr>ct_id = token_id, ct_user_id = user_id, ct_session_id = session_id,
                   ct_token_hash = tp_refresh_token_hash pair, ct_family_id = family_id,
                   ct_expires_at = tp_refresh_expires_at pair\<rparr> (sv_repository st) of
             (s, Inl _) \<Rightarrow> (st\<lparr>sv_repository := s\<rparr>, Inl AuthInternal)
           | (s, Inr _) \<Rightarrow> (st\<lparr>sv_repository := s\<rparr>, Inr pair)))"

definition auth_signup ::
  "auth_ports \<Rightarrow> token_config \<Rightarrow> 's auth_repository \<Rightarrow> request_env \<Rightarrow> signup_input \<Rightarrow> 's auth_state \<Rightarrow>
     's auth_state \<times> (auth_error + token_pair)" where
  "auth_signup ports cfg repo env input st =
     (case normalised_email_or_error (si_email input) of
        Inl e \<Rightarrow> (st, Inl e)
      | Inr email \<Rightarrow>
          (let missing = password_policy_failures (si_password input)
           in if missing \<noteq> [] then (st, Inl (AuthWeakPassword missing))
              else case pt_hash_password ports (si_password input) (rq_salt env) of
                     None \<Rightarrow> (st, Inl AuthInternal)
                   | Some password_hash \<Rightarrow>
                       (case create_user repo \<lparr>cu_id = rq_ids env 0, cu_email = email, cu_password_hash = password_hash\<rparr>
                               (sv_repository st) of
                          (s, Inl RepoEmailTaken) \<Rightarrow> (st\<lparr>sv_repository := s\<rparr>, Inl AuthEmailTaken)
                        | (s, Inl RepoUnavailable) \<Rightarrow> (st\<lparr>sv_repository := s\<rparr>, Inl AuthInternal)
                        | (s, Inr user) \<Rightarrow>
                            mint_and_store_pair_with_family ports cfg repo (rq_random env) (rq_clock env 0) (au_id user)
                              (rq_ids env 1) (rq_ids env 2) (rq_ids env 3) (au_kyc_level user) (rq_ids env 4)
                              (st\<lparr>sv_repository := s\<rparr>))))"

definition ensure_login_allowed :: "string \<Rightarrow> string \<Rightarrow> int \<Rightarrow> 's auth_state \<Rightarrow> 's auth_state \<times> (auth_error + unit)" where
  "ensure_login_allowed email ip_key now st =
     (let attempts = attempts_prune now (sv_attempts st); st' = st\<lparr>sv_attempts := attempts\<rparr>
      in if is_locked email ip_key attempts then (st', Inl AuthTooManyAttempts) else (st', Inr ()))"

definition record_login_failure :: "string \<Rightarrow> string \<Rightarrow> int \<Rightarrow> 's auth_state \<Rightarrow> 's auth_state" where
  "record_login_failure email ip_key now st = st\<lparr>sv_attempts := attempts_record email ip_key now (sv_attempts st)\<rparr>"

definition clear_login_failures :: "string \<Rightarrow> string \<Rightarrow> 's auth_state \<Rightarrow> 's auth_state" where
  "clear_login_failures email ip_key st =
     st\<lparr>sv_attempts := (sv_attempts st)\<lparr>la_by_email := (la_by_email (sv_attempts st))(email := None),
                                       la_by_ip := (la_by_ip (sv_attempts st))(ip_key := None)\<rparr>\<rparr>"

definition verify_login ::
  "auth_ports \<Rightarrow> 's auth_repository \<Rightarrow> string \<Rightarrow> string \<Rightarrow> 's \<Rightarrow> auth_error + auth_user" where
  "verify_login ports repo email password s =
     (case find_user_by_email repo email s of
        Inl _ \<Rightarrow> Inl AuthInternal
      | Inr None \<Rightarrow> Inl AuthInvalidCredentials
      | Inr (Some user) \<Rightarrow>
          if au_status user \<noteq> Active then Inl AuthInvalidCredentials
          else case pt_verify_password ports password (au_password_hash user) of
                 None \<Rightarrow> Inl AuthInternal
               | Some matches \<Rightarrow> if matches then Inr user else Inl AuthInvalidCredentials)"

definition auth_login ::
  "auth_ports \<Rightarrow> token_config \<Rightarrow> 's auth_repository \<Rightarrow> request_env \<Rightarrow> login_input \<Rightarrow> string \<Rightarrow> 's auth_state \<Rightarrow>
     's auth_state \<times> (auth_error + login_outcome)" where
  "auth_login ports cfg repo env input ip_key st =
     (case normalised_email_or_error (li_email input) of
        Inl e \<Rightarrow> (st, Inl e)
      | Inr email \<Rightarrow>
          (let now = rq_clock env 0
           in case ensure_login_allowed email ip_key now st of
                (st1, Inl e) \<Rightarrow> (st1, Inl e)
              | (st1, Inr _) \<Rightarrow>
                  (case verify_login ports repo email (li_password input) (sv_repository st1) of
                     Inl AuthInvalidCredentials \<Rightarrow> (record_login_failure email ip_key now st1, Inl AuthInvalidCredentials)
                   | Inl e \<Rightarrow> (st1, Inl e)
                   | Inr user \<Rightarrow>
                       (let st2 = clear_login_failures email ip_key st1; session_id = rq_ids env 0
                        in if au_totp_enabled user then
                             (case mint_mfa_token ports cfg (rq_clock env 1) (au_id user) session_id (rq_ids env 1) of
                                Inl _ \<Rightarrow> (st2, Inl AuthInternal)
                              | Inr mfa_token \<Rightarrow> (st2, Inr (LoginMfaRequired mfa_token)))
                           else
                             (case mint_and_store_pair_with_family ports cfg repo (rq_random env) (rq_clock env 1) (au_id user)
                                     session_id (rq_ids env 1) (rq_ids env 2) (au_kyc_level user) (rq_ids env 3) st2 of
                                (st3, Inl e) \<Rightarrow> (st3, Inl e)
                              | (st3, Inr pair) \<Rightarrow> (st3, Inr (Tokens pair)))))))"

definition auth_refresh ::
  "auth_ports \<Rightarrow> token_config \<Rightarrow> 's auth_repository \<Rightarrow> request_env \<Rightarrow> string \<Rightarrow> 's auth_state \<Rightarrow>
     's auth_state \<times> (auth_error + token_pair)" where
  "auth_refresh ports cfg repo env refresh_token st =
     (case find_refresh_token repo (hash_refresh_token ports refresh_token) (sv_repository st) of
        Inl _ \<Rightarrow> (st, Inl AuthInternal)
      | Inr None \<Rightarrow> (st, Inl AuthTokenInvalid)
      | Inr (Some stored) \<Rightarrow>
          (let now = rq_clock env 0
           in if rt_revoked_at stored \<noteq> None then
                (case revoke_refresh_family repo (rt_family_id stored) now (sv_repository st) of
                   (s, Inl _) \<Rightarrow> (st\<lparr>sv_repository := s\<rparr>, Inl AuthInternal)
                 | (s, Inr _) \<Rightarrow> (st\<lparr>sv_repository := s\<rparr>, Inl AuthTokenInvalid))
              else if rt_expires_at stored \<le> now then
                (case revoke_refresh_token repo (rt_id stored) now (sv_repository st) of
                   (s, Inl _) \<Rightarrow> (st\<lparr>sv_repository := s\<rparr>, Inl AuthInternal)
                 | (s, Inr _) \<Rightarrow> (st\<lparr>sv_repository := s\<rparr>, Inl AuthTokenExpired))
              else
                (case find_user_by_id repo (rt_user_id stored) (sv_repository st) of
                   Inl _ \<Rightarrow> (st, Inl AuthInternal)
                 | Inr None \<Rightarrow> (st, Inl AuthTokenInvalid)
                 | Inr (Some user) \<Rightarrow>
                     if au_status user \<noteq> Active then (st, Inl AuthTokenInvalid)
                     else
                       (case revoke_refresh_token repo (rt_id stored) now (sv_repository st) of
                          (s, Inl _) \<Rightarrow> (st\<lparr>sv_repository := s\<rparr>, Inl AuthInternal)
                        | (s, Inr _) \<Rightarrow>
                            mint_and_store_pair_with_family ports cfg repo (rq_random env) (rq_clock env 1) (au_id user)
                              (rt_session_id stored) (rt_family_id stored) (rq_ids env 0) (au_kyc_level user)
                              (rq_ids env 1) (st\<lparr>sv_repository := s\<rparr>)))))"

section \<open>Endpoints\<close>

record auth_tokens_response =
  tr_access_token :: string
  tr_refresh_token :: string
  tr_token_type :: string
  tr_expires_in :: nat

datatype login_response = LoginTokens auth_tokens_response | MfaRequiredResponse string

definition json_error :: "uuid \<Rightarrow> api_error" where
  "json_error request_id = with_request_id (api_error_new 400 Internal ''Invalid JSON body'') request_id"

definition invalid_email :: "uuid \<Rightarrow> api_error" where
  "invalid_email request_id = with_request_id (api_error_new 400 InvalidEmail ''Invalid email'') request_id"

definition token_invalid :: "uuid \<Rightarrow> api_error" where
  "token_invalid request_id = with_request_id (api_error_new 401 TokenInvalid ''Refresh token is invalid'') request_id"

definition weak_password :: "auth_ports \<Rightarrow> string list \<Rightarrow> uuid \<Rightarrow> api_error" where
  "weak_password ports missing request_id =
     with_request_id ((api_error_new 400 WeakPassword ''Password does not meet policy'')\<lparr>ae_details := Some (pt_missing_json ports missing)\<rparr>)
       request_id"

fun map_auth_error :: "auth_ports \<Rightarrow> auth_error \<Rightarrow> uuid \<Rightarrow> api_error" where
  "map_auth_error ports AuthInvalidEmail request_id = invalid_email request_id"
| "map_auth_error ports (AuthWeakPassword missing) request_id = weak_password ports missing request_id"
| "map_auth_error ports AuthEmailTaken request_id =
     with_request_id (api_error_new 409 EmailTaken ''Email is already registered'') request_id"
| "map_auth_error ports AuthInvalidCredentials request_id =
     with_request_id (api_error_new 401 InvalidCredentials ''Invalid credentials'') request_id"
| "map_auth_error ports AuthTooManyAttempts request_id =
     with_request_id (api_error_new 429 RateLimited ''Too many login attempts'') request_id"
| "map_auth_error ports AuthTokenExpired request_id =
     with_request_id (api_error_new 401 TokenExpired ''Refresh token expired'') request_id"
| "map_auth_error ports AuthTokenInvalid request_id = token_invalid request_id"
| "map_auth_error ports AuthInternal request_id = with_request_id internal request_id"

definition validate_signup :: "auth_ports \<Rightarrow> signup_input \<Rightarrow> uuid \<Rightarrow> api_error option" where
  "validate_signup ports input request_id =
     (let missing = password_policy_failures (si_password input)
      in if is_valid_email (si_email input) \<and> missing = [] then None
         else if missing \<noteq> [] then Some (weak_password ports missing request_id)
         else Some (invalid_email request_id))"

definition client_ip_key :: "string option \<Rightarrow> string" where
  "client_ip_key forwarded_for =
     (case forwarded_for of
        None \<Rightarrow> ''unknown''
      | Some value \<Rightarrow> (let first = trim (hd (split_on (CHR '','') value)) in if first = [] then ''unknown'' else first))"

definition tokens_response :: "token_pair \<Rightarrow> auth_tokens_response" where
  "tokens_response pair =
     \<lparr>tr_access_token = tp_access_token pair, tr_refresh_token = tp_refresh_token pair, tr_token_type = ''Bearer'',
      tr_expires_in = tp_expires_in pair\<rparr>"

definition signup_endpoint ::
  "auth_ports \<Rightarrow> token_config \<Rightarrow> 's auth_repository \<Rightarrow> request_env \<Rightarrow> uuid \<Rightarrow> signup_input option \<Rightarrow> 's auth_state \<Rightarrow>
     's auth_state \<times> (api_error + nat \<times> auth_tokens_response)" where
  "signup_endpoint ports cfg repo env request_id payload st =
     (case payload of
        None \<Rightarrow> (st, Inl (json_error request_id))
      | Some input \<Rightarrow>
          (case validate_signup ports input request_id of
             Some e \<Rightarrow> (st, Inl e)
           | None \<Rightarrow>
               (case auth_signup ports cfg repo env input st of
                  (st', Inl e) \<Rightarrow> (st', Inl (map_auth_error ports e request_id))
                | (st', Inr pair) \<Rightarrow> (st', Inr (201, tokens_response pair)))))"

definition login_endpoint ::
  "auth_ports \<Rightarrow> token_config \<Rightarrow> 's auth_repository \<Rightarrow> request_env \<Rightarrow> uuid \<Rightarrow> string option \<Rightarrow> login_input option \<Rightarrow>
     's auth_state \<Rightarrow> 's auth_state \<times> (api_error + nat \<times> login_response)" where
  "login_endpoint ports cfg repo env request_id forwarded_for payload st =
     (case payload of
        None \<Rightarrow> (st, Inl (json_error request_id))
      | Some input \<Rightarrow>
          if \<not> is_valid_email (li_email input) then (st, Inl (invalid_email request_id))
          else
            (case auth_login ports cfg repo env input (client_ip_key forwarded_for) st of
               (st', Inl e) \<Rightarrow> (st', Inl (map_auth_error ports e request_id))
             | (st', Inr (Tokens pair)) \<Rightarrow> (st', Inr (200, LoginTokens (tokens_response pair)))
             | (st', Inr (LoginMfaRequired mfa_token)) \<Rightarrow> (st', Inr (200, MfaRequiredResponse mfa_token))))"

definition refresh_endpoint ::
  "auth_ports \<Rightarrow> token_config \<Rightarrow> 's auth_repository \<Rightarrow> request_env \<Rightarrow> uuid \<Rightarrow> string option \<Rightarrow> 's auth_state \<Rightarrow>
     's auth_state \<times> (api_error + nat \<times> auth_tokens_response)" where
  "refresh_endpoint ports cfg repo env request_id payload st =
     (case payload of
        None \<Rightarrow> (st, Inl (json_error request_id))
      | Some refresh_token \<Rightarrow>
          if length refresh_token < 32 then (st, Inl (token_invalid request_id))
          else
            (case auth_refresh ports cfg repo env refresh_token st of
               (st', Inl e) \<Rightarrow> (st', Inl (map_auth_error ports e request_id))
             | (st', Inr pair) \<Rightarrow> (st', Inr (200, tokens_response pair))))"

end
