(* ===== verification/Api_Keys.thy ===== *)
theory Api_Keys
  imports Order_Api Auth_Service
begin

text \<open>
  API keys and signed requests: the queries of \<open>services/api/src/repositories/account.rs\<close> on \<open>api_keys\<close>, the endpoints of
  \<open>handlers/api_keys.rs\<close>, the HMAC middleware (\<open>extractors/hmac.rs\<close>) and the two extractors that turn a request
  into a caller (\<open>extractors/auth.rs\<close>, \<open>extractors/api_caller.rs\<close>). The functions of pgcrypto, HMAC-SHA256, base64, UUID text and
  JWT decoding are parameters (\<open>key_ports\<close>).
\<close>

section \<open>The table\<close>

record key_ports =
  kp_encrypt :: "string \<Rightarrow> string \<Rightarrow> u8 list \<Rightarrow> string"
  kp_decrypt :: "string \<Rightarrow> string \<Rightarrow> string option"
  kp_base64_url :: "u8 list \<Rightarrow> string"
  kp_parse_uuid :: "string \<Rightarrow> uuid option"
  kp_uuid_to_string :: "uuid \<Rightarrow> string"
  kp_hmac :: "string \<Rightarrow> string \<Rightarrow> u8 list"
  kp_decode_access :: "string \<Rightarrow> string \<Rightarrow> string + access_claims"

record api_key_row =
  kr_id :: uuid
  kr_user_id :: uuid
  kr_label :: string
  kr_permissions :: "string list"
  kr_created_at :: int

definition api_key_row_of :: "api_key_record \<Rightarrow> api_key_row" where
  "api_key_row_of k =
     \<lparr>kr_id = ak_id k, kr_user_id = ak_user_id k, kr_label = ak_label k, kr_permissions = ak_permissions k,
      kr_created_at = ak_created_at k\<rparr>"

definition active_key :: "uuid \<Rightarrow> api_key_record \<Rightarrow> bool" where
  "active_key key_id k \<longleftrightarrow> ak_id k = key_id \<and> ak_revoked_at k = None"

definition find_api_key :: "'d db \<Rightarrow> uuid \<Rightarrow> api_key_row option" where
  "find_api_key db key_id = map_option api_key_row_of (List.find (active_key key_id) (db_api_keys db))"

text \<open>A secret that does not decrypt is a database error (\<open>Inl\<close>).\<close>

definition decrypt_api_key_secret :: "key_ports \<Rightarrow> 'd db \<Rightarrow> uuid \<Rightarrow> string \<Rightarrow> unit + string option" where
  "decrypt_api_key_secret ports db key_id pgcrypto_key =
     (case List.find (active_key key_id) (db_api_keys db) of
        None \<Rightarrow> Inr None
      | Some k \<Rightarrow> (case kp_decrypt ports (ak_secret_hash k) pgcrypto_key of None \<Rightarrow> Inl () | Some s \<Rightarrow> Inr (Some s)))"

text \<open>The server draws the identifier and the salt of the encryption, and reads the clock.\<close>

record key_env =
  ke_id :: uuid
  ke_salt :: "u8 list"
  ke_secret :: "u8 list"
  ke_now :: int

definition create_api_key ::
  "key_ports \<Rightarrow> key_env \<Rightarrow> uuid \<Rightarrow> string \<Rightarrow> string \<Rightarrow> string list \<Rightarrow> string \<Rightarrow> ('d, api_key_row) tx" where
  "create_api_key ports env user_id label raw_secret permissions pgcrypto_key = (\<lambda>db.
     if (\<exists>k \<in> set (db_api_keys db). ak_id k = ke_id env) \<or> \<not> (\<exists>u \<in> set (db_users db). us_id u = user_id)
     then Inl ConstraintViolation
     else let k = \<lparr>ak_id = ke_id env, ak_user_id = user_id, ak_label = label,
                   ak_secret_hash = kp_encrypt ports raw_secret pgcrypto_key (ke_salt env), ak_permissions = permissions,
                   ak_revoked_at = None, ak_created_at = ke_now env\<rparr>
          in Inr (api_key_row_of k, db\<lparr>db_api_keys := db_api_keys db @ [k]\<rparr>))"

definition revocable :: "uuid \<Rightarrow> uuid \<Rightarrow> api_key_record \<Rightarrow> bool" where
  "revocable user_id key_id k \<longleftrightarrow> ak_id k = key_id \<and> ak_user_id k = user_id \<and> ak_revoked_at k = None"

definition revoke_api_key :: "int \<Rightarrow> 'd db \<Rightarrow> uuid \<Rightarrow> uuid \<Rightarrow> bool \<times> 'd db" where
  "revoke_api_key now db user_id key_id =
     (list_ex (revocable user_id key_id) (db_api_keys db),
      db\<lparr>db_api_keys := update_rows (revocable user_id key_id) (\<lambda>k. k\<lparr>ak_revoked_at := Some now\<rparr>) (db_api_keys db)\<rparr>)"

definition list_api_keys :: "'d db \<Rightarrow> uuid \<Rightarrow> api_key_row list" where
  "list_api_keys db user_id =
     map api_key_row_of (sort_key (\<lambda>k. - ak_created_at k)
       (filter (\<lambda>k. ak_user_id k = user_id \<and> ak_revoked_at k = None) (db_api_keys db)))"

section \<open>Endpoints\<close>

definition MAX_LABEL_LEN :: nat where
  "MAX_LABEL_LEN = 64"

definition ALLOWED_PERMISSIONS :: "string list" where
  "ALLOWED_PERMISSIONS = [''read'', ''trade'']"

record create_api_key_input =
  ki_label :: string
  ki_permissions :: "string list"

record api_key_created_response =
  kc_key_id :: uuid
  kc_label :: string
  kc_permissions :: "string list"
  kc_secret :: string
  kc_created_at :: int

fun permission_error :: "uuid \<Rightarrow> string list \<Rightarrow> api_error option" where
  "permission_error request_id [] = None"
| "permission_error request_id (perm # perms) =
     (if perm = ''withdraw'' then Some (api_fail 400 Forbidden ''withdraw permission is disabled in v1'' request_id)
      else if perm \<notin> set ALLOWED_PERMISSIONS then Some (api_fail 400 Internal (''unknown permission: '' @ perm) request_id)
      else permission_error request_id perms)"

definition api_key_input_error :: "create_api_key_input \<Rightarrow> uuid \<Rightarrow> api_error option" where
  "api_key_input_error input request_id =
     (if trim (ki_label input) = [] \<or> MAX_LABEL_LEN < length (ki_label input)
      then Some (api_fail 400 Internal (''label must be 1'' @ [CHR 0xE2, CHR 0x80, CHR 0x93] @ ''64 characters'') request_id)
      else case permission_error request_id (ki_permissions input) of
             Some e \<Rightarrow> Some e
           | None \<Rightarrow> if ki_permissions input = [] then Some (api_fail 400 Internal ''at least one permission is required'' request_id)
                     else None)"

definition create_api_key_endpoint ::
  "key_ports \<Rightarrow> key_env \<Rightarrow> string \<Rightarrow> uuid \<Rightarrow> uuid \<Rightarrow> create_api_key_input option \<Rightarrow> 'd db \<Rightarrow>
     'd db \<times> (api_error + nat \<times> api_key_created_response)" where
  "create_api_key_endpoint ports env pgcrypto_key user_id request_id payload db =
     (case payload of
        None \<Rightarrow> (db, Inl (api_fail 400 Internal ''Invalid JSON body'' request_id))
      | Some input \<Rightarrow>
          (case api_key_input_error input request_id of
             Some e \<Rightarrow> (db, Inl e)
           | None \<Rightarrow>
               (let raw_secret = kp_base64_url ports (ke_secret env)
                in case create_api_key ports env user_id (trim (ki_label input)) raw_secret (ki_permissions input) pgcrypto_key db of
                     Inl _ \<Rightarrow> (db, Inl (with_request_id internal request_id))
                   | Inr (key, db') \<Rightarrow>
                       (db', Inr (201, \<lparr>kc_key_id = kr_id key, kc_label = kr_label key, kc_permissions = kr_permissions key,
                                       kc_secret = raw_secret, kc_created_at = kr_created_at key\<rparr>)))))"

definition list_api_keys_endpoint :: "uuid \<Rightarrow> 'd db \<Rightarrow> api_key_row list" where
  "list_api_keys_endpoint user_id db = list_api_keys db user_id"

definition revoke_api_key_endpoint :: "int \<Rightarrow> uuid \<Rightarrow> uuid \<Rightarrow> uuid \<Rightarrow> 'd db \<Rightarrow> 'd db \<times> (api_error + nat)" where
  "revoke_api_key_endpoint now user_id request_id key_id db =
     (case revoke_api_key now db user_id key_id of
        (revoked, db') \<Rightarrow> (db', if \<not> revoked then Inl (api_fail 404 NotFound ''API key not found'' request_id) else Inr 204))"

section \<open>Text of numbers and signatures\<close>

definition digit_value :: "char \<Rightarrow> nat option" where
  "digit_value c = (let n = (of_char c :: nat) in if 48 \<le> n \<and> n \<le> 57 then Some (n - 48) else None)"

fun parse_digits :: "int \<Rightarrow> string \<Rightarrow> int option" where
  "parse_digits acc [] = Some acc"
| "parse_digits acc (c # cs) = (case digit_value c of None \<Rightarrow> None | Some d \<Rightarrow> parse_digits (10 * acc + int d) cs)"

text \<open>\<open>str::parse::<i64>\<close>: an optional sign, at least one digit, a value in range.\<close>

definition parse_i64 :: "string \<Rightarrow> int option" where
  "parse_i64 s =
     (let negative = (s \<noteq> [] \<and> hd s = CHR ''-'');
          digits = (if s \<noteq> [] \<and> (hd s = CHR ''-'' \<or> hd s = CHR ''+'') then tl s else s)
      in if digits = [] then None
         else case parse_digits 0 digits of
                None \<Rightarrow> None
              | Some n \<Rightarrow> (let v = (if negative then - n else n) in if - (2 ^ 63) \<le> v \<and> v < 2 ^ 63 then Some v else None))"

definition hex_value :: "char \<Rightarrow> nat option" where
  "hex_value c =
     (let n = (of_char c :: nat)
      in if 48 \<le> n \<and> n \<le> 57 then Some (n - 48)
         else if 97 \<le> n \<and> n \<le> 102 then Some (n - 87)
         else if 65 \<le> n \<and> n \<le> 70 then Some (n - 55) else None)"

text \<open>\<open>u8::from_str_radix\<close> on two characters; a leading plus sign is accepted.\<close>

definition hex_pair :: "char \<Rightarrow> char \<Rightarrow> u8 option" where
  "hex_pair c d =
     (if c = CHR ''+'' then map_option of_nat (hex_value d)
      else case hex_value c of
             None \<Rightarrow> None
           | Some h \<Rightarrow> map_option (\<lambda>l. of_nat (16 * h + l)) (hex_value d))"

fun decode_hex :: "string \<Rightarrow> u8 list option" where
  "decode_hex [] = Some []"
| "decode_hex [c] = None"
| "decode_hex (c # d # s) =
     (case hex_pair c d of None \<Rightarrow> None | Some byte \<Rightarrow> map_option (\<lambda>bytes. byte # bytes) (decode_hex s))"

definition in_range :: "char \<Rightarrow> nat \<Rightarrow> nat \<Rightarrow> bool" where
  "in_range c a b \<longleftrightarrow> a \<le> of_char c \<and> of_char c \<le> b"

fun utf8_valid :: "string \<Rightarrow> bool" where
  "utf8_valid [] \<longleftrightarrow> True"
| "utf8_valid (c # cs) \<longleftrightarrow>
     (if in_range c 0 0x7F then utf8_valid cs
      else if in_range c 0xC2 0xDF then (case cs of c1 # r \<Rightarrow> in_range c1 0x80 0xBF \<and> utf8_valid r | _ \<Rightarrow> False)
      else if in_range c 0xE0 0xEF then
        (case cs of c1 # c2 # r \<Rightarrow>
           in_range c1 (if c = CHR 0xE0 then 0xA0 else 0x80) (if c = CHR 0xED then 0x9F else 0xBF) \<and> in_range c2 0x80 0xBF \<and> utf8_valid r
         | _ \<Rightarrow> False)
      else if in_range c 0xF0 0xF4 then
        (case cs of c1 # c2 # c3 # r \<Rightarrow>
           in_range c1 (if c = CHR 0xF0 then 0x90 else 0x80) (if c = CHR 0xF4 then 0x8F else 0xBF)
           \<and> in_range c2 0x80 0xBF \<and> in_range c3 0x80 0xBF \<and> utf8_valid r
         | _ \<Rightarrow> False)
      else False)"

section \<open>The HMAC middleware\<close>

definition MAX_SKEW_MS :: int where
  "MAX_SKEW_MS = 5000"

definition REPLAY_TTL_SECS :: int where
  "REPLAY_TTL_SECS = 10"

definition BODY_LIMIT :: nat where
  "BODY_LIMIT = 4 * 1024 * 1024"

record hmac_caller =
  hc_user_id :: uuid
  hc_key_id :: uuid
  hc_permissions :: "string list"

text \<open>A header value is \<open>None\<close> when it is not visible ASCII, so that \<open>to_str\<close> fails.\<close>

record http_request =
  hr_headers :: "string \<rightharpoonup> string option"
  hr_method :: string
  hr_path_and_query :: string
  hr_body :: string
  hr_context :: "uuid option"

definition header_str :: "http_request \<Rightarrow> string \<Rightarrow> string option" where
  "header_str req name = (case hr_headers req name of Some (Some v) \<Rightarrow> Some v | _ \<Rightarrow> None)"

definition sig_error :: "error_code \<Rightarrow> string \<Rightarrow> uuid \<Rightarrow> api_error" where
  "sig_error code message request_id = api_fail 401 code message request_id"

definition wrapping_i64 :: "int \<Rightarrow> int" where
  "wrapping_i64 i = (i + 2 ^ 63) mod 2 ^ 64 - 2 ^ 63"

definition signature_skew :: "int \<Rightarrow> int \<Rightarrow> int" where
  "signature_skew now_ms ts_ms = wrapping_i64 \<bar>wrapping_i64 (now_ms - ts_ms)\<bar>"

definition signed_payload :: "int \<Rightarrow> http_request \<Rightarrow> string" where
  "signed_payload ts_ms req =
     int_to_string ts_ms @ [CHR 0x0A] @ hr_method req @ [CHR 0x0A] @ hr_path_and_query req @ [CHR 0x0A]
     @ (if utf8_valid (hr_body req) then hr_body req else [])"

text \<open>
  The replay guard is a Redis key set with \<open>NX EX\<close>: a map from keys to the millisecond at which they expire by the server's clock.
  A failing command reads as an existing key.
\<close>

type_synonym replay_store = "string \<rightharpoonup> int"

definition check_replay :: "bool \<Rightarrow> int \<Rightarrow> string \<Rightarrow> replay_store option \<Rightarrow> replay_store option \<times> bool" where
  "check_replay failing server_now key redis =
     (case redis of
        None \<Rightarrow> (redis, True)
      | Some store \<Rightarrow>
          if failing then (redis, False)
          else if (case store key of None \<Rightarrow> False | Some expires_at \<Rightarrow> server_now < expires_at) then (redis, False)
          else (Some (store(key \<mapsto> server_now + 1000 * REPLAY_TTL_SECS)), True))"

definition replay_key :: "key_ports \<Rightarrow> uuid \<Rightarrow> string \<Rightarrow> string" where
  "replay_key ports key_id sign_str = ''hmac_replay:'' @ kp_uuid_to_string ports key_id @ '':'' @ take 12 sign_str"

text \<open>What one request reads beside the database: the API's clock, Redis' clock and whether Redis fails.\<close>

record hmac_env =
  he_now_ms :: int
  he_server_now :: int
  he_redis_failing :: bool

fun checked :: "api_error + 'a \<Rightarrow> ('a \<Rightarrow> api_error + 'b) \<Rightarrow> api_error + 'b" where
  "checked (Inl e) f = Inl e"
| "checked (Inr x) f = f x"

definition or_else :: "'a option \<Rightarrow> api_error \<Rightarrow> api_error + 'a" where
  "or_else x e = (case x of None \<Rightarrow> Inl e | Some v \<Rightarrow> Inr v)"

text \<open>Everything up to the replay check; the result is the caller and the key of the replay guard.\<close>

definition verify_signature ::
  "key_ports \<Rightarrow> string \<Rightarrow> int \<Rightarrow> uuid \<Rightarrow> http_request \<Rightarrow> 'd db \<Rightarrow> api_error + hmac_caller \<times> string" where
  "verify_signature ports pgcrypto_key now_ms request_id req db =
     checked (or_else (header_str req ''x-aether-key'') (sig_error SigInvalid ''Missing X-AETHER-KEY'' request_id)) (\<lambda>key_id_str.
     checked (or_else (header_str req ''x-aether-ts'') (sig_error SigInvalid ''Missing X-AETHER-TS'' request_id)) (\<lambda>ts_str.
     checked (or_else (header_str req ''x-aether-sign'') (sig_error SigInvalid ''Missing X-AETHER-SIGN'' request_id)) (\<lambda>sign_str.
     checked (or_else (kp_parse_uuid ports key_id_str) (sig_error SigInvalid ''Invalid key ID'' request_id)) (\<lambda>key_id.
     checked (or_else (parse_i64 ts_str) (sig_error SigInvalid ''Invalid timestamp'' request_id)) (\<lambda>ts_ms.
     if MAX_SKEW_MS < signature_skew now_ms ts_ms then Inl (sig_error SigTimestamp ''Timestamp out of window'' request_id)
     else checked (or_else (find_api_key db key_id) (sig_error SigInvalid ''Unknown API key'' request_id)) (\<lambda>api_key.
     case decrypt_api_key_secret ports db key_id pgcrypto_key of
       Inl _ \<Rightarrow> Inl (with_request_id internal request_id)
     | Inr secret \<Rightarrow>
         checked (or_else secret (sig_error SigInvalid ''API key has no secret'' request_id)) (\<lambda>raw_secret.
         if BODY_LIMIT < length (hr_body req) then Inl (with_request_id internal request_id)
         else checked (or_else (decode_hex sign_str) (sig_error SigInvalid ''Invalid signature encoding'' request_id)) (\<lambda>expected_bytes.
         if kp_hmac ports raw_secret (signed_payload ts_ms req) \<noteq> expected_bytes
         then Inl (sig_error SigInvalid ''Signature mismatch'' request_id)
         else Inr (\<lparr>hc_user_id = kr_user_id api_key, hc_key_id = key_id, hc_permissions = kr_permissions api_key\<rparr>,
                   replay_key ports key_id sign_str)))))))))"

definition verify ::
  "key_ports \<Rightarrow> string \<Rightarrow> hmac_env \<Rightarrow> uuid \<Rightarrow> http_request \<Rightarrow> 'd db \<Rightarrow> replay_store option \<Rightarrow> replay_store option \<times> (api_error + hmac_caller)" where
  "verify ports pgcrypto_key env request_id req db redis =
     (case verify_signature ports pgcrypto_key (he_now_ms env) request_id req db of
        Inl e \<Rightarrow> (redis, Inl e)
      | Inr (caller, key) \<Rightarrow>
          (case check_replay (he_redis_failing env) (he_server_now env) key redis of
             (redis', fresh) \<Rightarrow>
               (redis', if fresh then Inr caller
                        else Inl (with_request_id (api_error_new 401 SigReplay ''Signature replay detected'') request_id))))"

text \<open>Without the key header the request passes on with no caller attached.\<close>

definition hmac_auth_middleware ::
  "key_ports \<Rightarrow> string \<Rightarrow> hmac_env \<Rightarrow> uuid \<Rightarrow> http_request \<Rightarrow> 'd db \<Rightarrow> replay_store option \<Rightarrow>
     replay_store option \<times> (api_error + hmac_caller option)" where
  "hmac_auth_middleware ports pgcrypto_key env fresh_id req db redis =
     (if hr_headers req ''x-aether-key'' = None then (redis, Inr None)
      else case verify ports pgcrypto_key env (case hr_context req of None \<Rightarrow> fresh_id | Some i \<Rightarrow> i) req db redis of
             (redis', Inl e) \<Rightarrow> (redis', Inl e)
           | (redis', Inr caller) \<Rightarrow> (redis', Inr (Some caller)))"

section \<open>Callers\<close>

record authenticated_user =
  ax_user_id :: uuid
  ax_kyc_level :: int
  ax_session_id :: uuid

definition from_claims :: "access_claims \<Rightarrow> authenticated_user" where
  "from_claims claims = \<lparr>ax_user_id = ac_sub claims, ax_kyc_level = ac_kyc claims, ax_session_id = ac_sid claims\<rparr>"

definition strip_prefix :: "string \<Rightarrow> string \<Rightarrow> string option" where
  "strip_prefix prefix s = (if take (length prefix) s = prefix then Some (drop (length prefix) s) else None)"

definition contains_text :: "string \<Rightarrow> string \<Rightarrow> bool" where
  "contains_text needle s \<longleftrightarrow> list_ex (\<lambda>n. take (length needle) (drop n s) = needle) [0..<Suc (length s)]"

definition bearer_token :: "http_request \<Rightarrow> string option" where
  "bearer_token req =
     Option.bind (header_str req ''authorization'') (\<lambda>v.
     Option.bind (strip_prefix ''Bearer '' v) (\<lambda>t. if trim t = [] then None else Some (trim t)))"

definition authenticated_user_from :: "key_ports \<Rightarrow> token_config \<Rightarrow> http_request \<Rightarrow> api_error + authenticated_user" where
  "authenticated_user_from ports cfg req =
     (case bearer_token req of
        None \<Rightarrow> Inl (api_error_new 401 TokenInvalid ''Missing or malformed Authorization header'')
      | Some raw \<Rightarrow>
          (case kp_decode_access ports (tc_jwt_secret cfg) raw of
             Inl err \<Rightarrow> Inl (if contains_text ''expired'' (map ascii_lower err)
                             then api_error_new 401 TokenExpired ''Access token has expired''
                             else api_error_new 401 TokenInvalid ''Access token is invalid'')
           | Inr claims \<Rightarrow> Inr (from_claims claims)))"

record api_caller =
  cl_user_id :: uuid
  cl_kyc_level :: int
  cl_session_id :: uuid
  cl_is_hmac :: bool
  cl_hmac_permissions :: "string list"

definition has_bearer :: "http_request \<Rightarrow> bool" where
  "has_bearer req \<longleftrightarrow> (case header_str req ''authorization'' of None \<Rightarrow> False | Some v \<Rightarrow> take 7 v = ''Bearer '')"

definition api_caller_from ::
  "key_ports \<Rightarrow> token_config \<Rightarrow> http_request \<Rightarrow> hmac_caller option \<Rightarrow> api_error + api_caller" where
  "api_caller_from ports cfg req extension =
     (if has_bearer req then
        (case authenticated_user_from ports cfg req of
           Inl e \<Rightarrow> Inl e
         | Inr user \<Rightarrow> Inr \<lparr>cl_user_id = ax_user_id user, cl_kyc_level = ax_kyc_level user, cl_session_id = ax_session_id user,
                          cl_is_hmac = False, cl_hmac_permissions = []\<rparr>)
      else case extension of
             Some hmac \<Rightarrow> Inr \<lparr>cl_user_id = hc_user_id hmac, cl_kyc_level = 0, cl_session_id = hc_key_id hmac, cl_is_hmac = True,
                              cl_hmac_permissions = hc_permissions hmac\<rparr>
           | None \<Rightarrow> Inl (api_error_new 401 TokenInvalid ''Authentication required (Bearer token or HMAC headers)''))"

section \<open>Text round trips\<close>

lemma digit_value_digit: "d < 10 \<Longrightarrow> digit_value (''0123456789'' ! d) = Some d"
proof -
  assume "d < 10"
  then have "d \<in> {0, 1, 2, 3, 4, 5, 6, 7, 8, 9}" by auto
  then show ?thesis by (elim insertE emptyE) (simp_all add: digit_value_def)
qed

lemma nat_to_string_digits: "nat_to_string n \<noteq> [] \<and> set (nat_to_string n) \<subseteq> set ''0123456789''"
proof (induction n rule: nat_to_string.induct)
  case (1 n)
  have digit: "''0123456789'' ! d \<in> set ''0123456789''" if "d < 10" for d
    using that by (intro nth_mem) simp
  show ?case
  proof (cases "n < 10")
    case True
    with digit [OF True] show ?thesis by (simp only: nat_to_string.simps [of n] if_True) simp
  next
    case False
    with 1 digit [of "n mod 10"] show ?thesis by (simp only: nat_to_string.simps [of n] if_False) simp
  qed
qed

lemma parse_digits_append: "parse_digits acc (s @ t) = Option.bind (parse_digits acc s) (\<lambda>a. parse_digits a t)"
  by (induction s arbitrary: acc) (simp_all split: option.split)

lemma parse_nat_to_string: "parse_digits 0 (nat_to_string n) = Some (int n)"
proof (induction n rule: nat_to_string.induct)
  case (1 n)
  show ?case
  proof (cases "n < 10")
    case True
    then show ?thesis by (simp only: nat_to_string.simps [of n] if_True parse_digits.simps digit_value_digit) simp
  next
    case False
    have "int n = 10 * int (n div 10) + int (n mod 10)" by presburger
    with False 1 show ?thesis
      by (simp only: nat_to_string.simps [of n] if_False parse_digits_append not_False_eq_True True_implies_equals bind.bind_lunit
          parse_digits.simps digit_value_digit mod_less_divisor zero_less_numeral option.case)
  qed
qed

lemma parse_i64_int_to_string:
  assumes "- (2 ^ 63) \<le> i" and "i < 2 ^ 63"
  shows "parse_i64 (int_to_string i) = Some i"
proof -
  have hd: "nat_to_string n \<noteq> [] \<and> hd (nat_to_string n) \<noteq> CHR ''-'' \<and> hd (nat_to_string n) \<noteq> CHR ''+''" for n
  proof -
    have "hd (nat_to_string n) \<in> set ''0123456789''" using nat_to_string_digits [of n] hd_in_set by blast
    then show ?thesis using nat_to_string_digits [of n] by auto
  qed
  show ?thesis
  proof (cases "i < 0")
    case True
    with assms hd [of "nat (- i)"] show ?thesis by (simp add: parse_i64_def int_to_string_def parse_nat_to_string Let_def)
  next
    case False
    with assms hd [of "nat i"] show ?thesis by (simp add: parse_i64_def int_to_string_def parse_nat_to_string Let_def)
  qed
qed

definition hex_encode :: "u8 list \<Rightarrow> string" where
  "hex_encode bytes = concat (map (\<lambda>byte. [hex_char (drop_bit 4 byte), hex_char (and byte 0x0f)]) bytes)"

lemma hex_value_hex_char:
  assumes "unat n < 16"
  shows "hex_value (hex_char n) = Some (unat n) \<and> hex_char n \<noteq> CHR ''+''"
proof -
  from assms have "unat n \<in> set [0..<16]" by simp
  also have "set [0..<16] = {0, 1, 2, 3, 4, 5, 6, 7, 8, 9, 10, 11, 12, 13, 14, 15 :: nat}" by code_simp
  finally show ?thesis by (elim insertE emptyE) (simp_all add: hex_value_def hex_char_def)
qed

lemma hex_pair_byte: "hex_pair (hex_char (drop_bit 4 b)) (hex_char (and b 0x0f)) = Some b"
proof -
  have hi: "unat (drop_bit 4 b) = unat b div 16" unfolding unat_drop_bit_eq by (simp add: drop_bit_eq_div)
  have "and b 0x0f = take_bit 4 b" by (simp add: take_bit_eq_mask mask_eq_exp_minus_1)
  then have lo: "unat (and b 0x0f) = unat b mod 16"
    by (simp only: unsigned_take_bit_eq) (simp add: take_bit_eq_mod)
  have "unat b < 256" using unsigned_less [of b] by simp
  then have "unat (drop_bit 4 b) < 16" "unat (and b 0x0f) < 16" by (simp_all add: hi lo)
  then have "hex_pair (hex_char (drop_bit 4 b)) (hex_char (and b 0x0f)) = Some (of_nat (16 * unat (drop_bit 4 b) + unat (and b 0x0f)))"
    by (simp only: hex_pair_def hex_value_hex_char if_False option.case option.map)
  moreover have "16 * unat (drop_bit 4 b) + unat (and b 0x0f) = unat b" by (simp add: hi lo)
  ultimately show ?thesis by (simp only: word_nat_cases of_nat_unat ucast_id)
qed

lemma decode_hex_encode: "decode_hex (hex_encode bytes) = Some bytes"
  by (induction bytes) (simp_all add: hex_encode_def hex_pair_byte)

definition upper_char :: "char \<Rightarrow> char" where
  "upper_char c = (if (97::nat) \<le> of_char c \<and> of_char c \<le> (122::nat) then char_of (of_char c - 32 :: nat) else c)"

lemma to_uppercase_upper: "to_uppercase s = map upper_char s"
  by (simp add: to_uppercase_def upper_char_def fun_eq_iff)

lemma of_upper_char:
  "(of_char (upper_char c) :: nat) = (if (97::nat) \<le> of_char c \<and> of_char c \<le> (122::nat) then of_char c - 32 else of_char c)"
proof (cases "97 \<le> (of_char c :: nat) \<and> (of_char c :: nat) \<le> 122")
  case True
  then have "(of_char c - 32 :: nat) mod 256 = of_char c - 32" by (intro mod_less less_imp_diff_less) auto
  with True show ?thesis by (simp add: upper_char_def)
qed (auto simp: upper_char_def)

lemma hex_value_upper: "hex_value (upper_char c) = hex_value c"
  by (cases "97 \<le> (of_char c :: nat) \<and> (of_char c :: nat) \<le> 122") (auto simp: hex_value_def of_upper_char Let_def)

lemma upper_char_plus: "upper_char c = CHR ''+'' \<longleftrightarrow> c = CHR ''+''"
proof -
  have "upper_char c = CHR ''+'' \<longleftrightarrow> (of_char (upper_char c) :: nat) = of_char CHR ''+''" by (rule of_char_eq_iff [symmetric])
  also have "\<dots> \<longleftrightarrow> (of_char c :: nat) = of_char CHR ''+''" unfolding of_upper_char by auto
  also have "\<dots> \<longleftrightarrow> c = CHR ''+''" by (rule of_char_eq_iff)
  finally show ?thesis .
qed

lemma decode_hex_upper: "decode_hex (to_uppercase s) = decode_hex s"
  unfolding to_uppercase_upper
proof (induction s rule: decode_hex.induct)
  case (3 c d s)
  have "hex_pair (upper_char c) (upper_char d) = hex_pair c d" by (simp only: hex_pair_def hex_value_upper upper_char_plus)
  with 3 show ?case by (simp split: option.split)
qed simp_all

section \<open>What an accepted request proves\<close>

lemma checked_Inr: "checked x f = Inr y \<longleftrightarrow> (\<exists>v. x = Inr v \<and> f v = Inr y)"
  by (cases x) simp_all

lemma or_else_Inr: "or_else x e = Inr v \<longleftrightarrow> x = Some v"
  by (cases x) (simp_all add: or_else_def)

text \<open>The facts that hold when a signature is accepted, for the key row found and the parsed time stamp.\<close>

definition signature_facts ::
  "key_ports \<Rightarrow> string \<Rightarrow> int \<Rightarrow> http_request \<Rightarrow> 'd db \<Rightarrow> hmac_caller \<Rightarrow> string \<Rightarrow> string \<Rightarrow> int \<Rightarrow> api_key_record \<Rightarrow> string \<Rightarrow> bool" where
  "signature_facts ports pgcrypto_key now_ms req db caller key sign ts k secret \<longleftrightarrow>
     Option.bind (header_str req ''x-aether-key'') (kp_parse_uuid ports) = Some (hc_key_id caller)
     \<and> Option.bind (header_str req ''x-aether-ts'') parse_i64 = Some ts \<and> header_str req ''x-aether-sign'' = Some sign
     \<and> signature_skew now_ms ts \<le> MAX_SKEW_MS
     \<and> List.find (active_key (hc_key_id caller)) (db_api_keys db) = Some k
     \<and> kp_decrypt ports (ak_secret_hash k) pgcrypto_key = Some secret
     \<and> length (hr_body req) \<le> BODY_LIMIT \<and> decode_hex sign = Some (kp_hmac ports secret (signed_payload ts req))
     \<and> hc_user_id caller = ak_user_id k \<and> hc_permissions caller = ak_permissions k
     \<and> key = replay_key ports (hc_key_id caller) sign"

lemma verify_signature_Inr:
  "verify_signature ports pk now_ms rq req db = Inr (caller, key) \<longleftrightarrow>
     (\<exists>sign ts k secret. signature_facts ports pk now_ms req db caller key sign ts k secret)"
proof -
  obtain u i ps where caller: "caller = \<lparr>hc_user_id = u, hc_key_id = i, hc_permissions = ps\<rparr>" by (cases caller) auto
  show ?thesis
  proof
    assume "verify_signature ports pk now_ms rq req db = Inr (caller, key)"
    then show "\<exists>sign ts k secret. signature_facts ports pk now_ms req db caller key sign ts k secret"
      by (auto simp: verify_signature_def signature_facts_def checked_Inr or_else_Inr find_api_key_def decrypt_api_key_secret_def
          api_key_row_of_def not_less split: if_split_asm sum.split_asm option.split_asm)
  next
    assume "\<exists>sign ts k secret. signature_facts ports pk now_ms req db caller key sign ts k secret"
    then show "verify_signature ports pk now_ms rq req db = Inr (caller, key)"
      by (auto simp: verify_signature_def signature_facts_def bind_eq_Some_conv or_else_def find_api_key_def decrypt_api_key_secret_def
          api_key_row_of_def not_less caller)
  qed
qed

lemma verify_Inr:
  "verify ports pk env rq req db redis = (redis', Inr caller) \<longleftrightarrow>
     (\<exists>key. verify_signature ports pk (he_now_ms env) rq req db = Inr (caller, key)
       \<and> check_replay (he_redis_failing env) (he_server_now env) key redis = (redis', True))"
  by (auto simp: verify_def split: sum.splits prod.splits if_splits)

lemma check_replay_Some:
  assumes "check_replay failing now key (Some store) = (redis', fresh)"
  shows "\<exists>store'. redis' = Some store' \<and> (\<forall>k e. store k = Some e \<longrightarrow> (\<exists>e'. store' k = Some e' \<and> e \<le> e'))
    \<and> (fresh \<longrightarrow> store' key = Some (now + 10000) \<and> (\<forall>e. store key = Some e \<longrightarrow> e \<le> now))"
  using assms by (auto simp: check_replay_def REPLAY_TTL_SECS_def split: if_splits option.splits)

section \<open>A signature is accepted once per ten seconds\<close>

text \<open>A sequence of signed requests against one Redis; the database may differ from request to request.\<close>

type_synonym 'd hmac_call = "hmac_env \<times> uuid \<times> http_request \<times> 'd db"

fun hmac_run :: "key_ports \<Rightarrow> string \<Rightarrow> 'd hmac_call list \<Rightarrow> replay_store option \<Rightarrow> (api_error + hmac_caller) list" where
  "hmac_run ports pk [] redis = []"
| "hmac_run ports pk ((env, rq, req, db) # calls) redis =
     (case verify ports pk env rq req db redis of (redis', r) \<Rightarrow> r # hmac_run ports pk calls redis')"

lemma length_hmac_run: "length (hmac_run ports pk calls redis) = length calls"
  by (induction ports pk calls redis rule: hmac_run.induct) (simp_all split: prod.split)

lemma verify_store:
  assumes "verify ports pk env rq req db (Some store) = (redis', r)"
  shows "\<exists>store'. redis' = Some store' \<and> (\<forall>k e. store k = Some e \<longrightarrow> (\<exists>e'. store' k = Some e' \<and> e \<le> e'))"
proof (cases "verify_signature ports pk (he_now_ms env) rq req db")
  case (Inr ck)
  obtain redis2 fresh where c: "check_replay (he_redis_failing env) (he_server_now env) (snd ck) (Some store) = (redis2, fresh)" by fastforce
  from check_replay_Some [OF c] assms c Inr show ?thesis by (auto simp: verify_def split: prod.splits)
qed (use assms in \<open>auto simp: verify_def\<close>)

lemma hmac_run_blocked:
  assumes "store key = Some e" and "j < length calls" and "calls ! j = (env, rq, req, db)"
    and "hmac_run ports pk calls (Some store) ! j = Inr caller" and "verify_signature ports pk (he_now_ms env) rq req db = Inr (caller, key)"
  shows "e \<le> he_server_now env"
  using assms(1-4)
proof (induction calls arbitrary: store e j)
  case (Cons call calls)
  obtain env0 rq0 req0 db0 where call: "call = (env0, rq0, req0, db0)" by (cases call)
  obtain redis' r where v: "verify ports pk env0 rq0 req0 db0 (Some store) = (redis', r)" by fastforce
  from verify_store [OF v] Cons.prems(1) obtain store' e' where s: "redis' = Some store'" "store' key = Some e'" "e \<le> e'" by blast
  show ?case
  proof (cases j)
    case 0
    with Cons.prems call v have "verify ports pk env rq req db (Some store) = (redis', Inr caller)" by simp
    with assms(5) have "check_replay (he_redis_failing env) (he_server_now env) key (Some store) = (redis', True)"
      by (auto simp: verify_Inr)
    from check_replay_Some [OF this] Cons.prems(1) show ?thesis by auto
  next
    case (Suc m)
    with Cons.prems call v s(1) have "e' \<le> he_server_now env" by (intro Cons.IH [where store = store' and e = e' and j = m]) (simp_all add: s(2))
    with s(3) show ?thesis by simp
  qed
qed simp

lemma wrapping_i64_cases:
  "- (2 ^ 63) \<le> i \<Longrightarrow> i < 2 ^ 63 \<Longrightarrow> wrapping_i64 i = i" "2 ^ 63 \<le> i \<Longrightarrow> i < 3 * 2 ^ 63 \<Longrightarrow> wrapping_i64 i = i - 2 ^ 64"
proof -
  show "- (2 ^ 63) \<le> i \<Longrightarrow> i < 2 ^ 63 \<Longrightarrow> wrapping_i64 i = i" by (simp add: wrapping_i64_def)
  assume "2 ^ 63 \<le> i" and "i < 3 * 2 ^ 63"
  then have "(i - 2 ^ 64 + 2 ^ 63) mod 2 ^ 64 = i - 2 ^ 64 + 2 ^ 63" by (intro mod_pos_pos_trivial) simp_all
  moreover have "(i + 2 ^ 63) mod 2 ^ 64 = (i - 2 ^ 64 + 2 ^ 63 + 2 ^ 64) mod 2 ^ 64" by (simp add: add.commute)
  ultimately show "wrapping_i64 i = i - 2 ^ 64" by (simp only: wrapping_i64_def mod_add_self2)
qed

text \<open>The subtraction wraps around for exactly one time stamp, \<open>2 ^ 63\<close> milliseconds in the past, whose distance reads as negative.\<close>

lemma signature_skew_bound:
  assumes "signature_skew now ts \<le> MAX_SKEW_MS" and "0 \<le> now" and "now < 2 ^ 62" and "- (2 ^ 63) \<le> ts" and "ts < 2 ^ 63"
  shows "\<bar>now - ts\<bar> \<le> 5000 \<or> now - ts = 2 ^ 63"
proof (cases "now - ts < 2 ^ 63")
  case True
  with assms(2-5) have "signature_skew now ts = \<bar>now - ts\<bar>" by (simp add: signature_skew_def wrapping_i64_cases)
  with assms(1) show ?thesis by (simp add: MAX_SKEW_MS_def)
next
  case False
  with assms(2-5) have w: "wrapping_i64 (now - ts) = now - ts - 2 ^ 64" by (intro wrapping_i64_cases) simp_all
  show ?thesis
  proof (cases "now - ts = 2 ^ 63")
    case not_edge: False
    with False assms(2-5) w have "signature_skew now ts = 2 ^ 64 - (now - ts)" by (simp add: signature_skew_def wrapping_i64_cases)
    with assms(1-5) show ?thesis by (simp add: MAX_SKEW_MS_def)
  qed simp
qed

lemma parse_i64_less: "parse_i64 s = Some v \<Longrightarrow> v < 2 ^ 63"
  unfolding parse_i64_def Let_def by (simp only: split: option.split_asm if_split_asm) simp_all

lemma accepted_twice:
  assumes "i < j" and "j < length calls" and "calls ! i = (env1, rq1, req1, db1)" and "calls ! j = (env2, rq2, req2, db2)"
    and "hmac_run ports pk calls (Some store) ! i = Inr c1" and "hmac_run ports pk calls (Some store) ! j = Inr c2"
    and "verify_signature ports pk (he_now_ms env1) rq1 req1 db1 = Inr (c1, key)"
    and "verify_signature ports pk (he_now_ms env2) rq2 req2 db2 = Inr (c2, key)"
  shows "he_server_now env1 + 10000 \<le> he_server_now env2"
  using assms(1-6)
proof (induction calls arbitrary: i j store)
  case (Cons call calls)
  obtain env0 rq0 req0 db0 where call: "call = (env0, rq0, req0, db0)" by (cases call)
  obtain redis' r where v: "verify ports pk env0 rq0 req0 db0 (Some store) = (redis', r)" by fastforce
  from verify_store [OF v] obtain store' where s: "redis' = Some store'" by blast
  from Cons.prems(1) obtain j' where j: "j = Suc j'" by (cases j) auto
  show ?case
  proof (cases i)
    case 0
    with Cons.prems call v have "verify ports pk env1 rq1 req1 db1 (Some store) = (Some store', Inr c1)" by (simp add: s)
    with assms(7) have "check_replay (he_redis_failing env1) (he_server_now env1) key (Some store) = (Some store', True)"
      by (auto simp: verify_Inr)
    from check_replay_Some [OF this] have "store' key = Some (he_server_now env1 + 10000)" by auto
    from hmac_run_blocked [where calls = calls and j = j' and store = store' and key = key, OF this _ _ _ assms(8)] Cons.prems call v s j show ?thesis by simp
  next
    case (Suc i')
    with Cons.prems call v s j show ?thesis by (intro Cons.IH [where i = i' and j = j' and store = store']) simp_all
  qed
qed simp

lemma accepted_facts:
  assumes "j < length calls" and "calls ! j = (env, rq, req, db)" and "hmac_run ports pk calls redis ! j = Inr c"
  shows "\<exists>sign ts k secret key. signature_facts ports pk (he_now_ms env) req db c key sign ts k secret
    \<and> verify_signature ports pk (he_now_ms env) rq req db = Inr (c, key)"
  using assms
proof (induction calls arbitrary: j redis)
  case (Cons call calls)
  obtain env0 rq0 req0 db0 where call: "call = (env0, rq0, req0, db0)" by (cases call)
  obtain redis' r where v: "verify ports pk env0 rq0 req0 db0 redis = (redis', r)" by fastforce
  show ?case
  proof (cases j)
    case 0
    with Cons.prems call v have "verify ports pk env rq req db redis = (redis', Inr c)" by simp
    then obtain key where "verify_signature ports pk (he_now_ms env) rq req db = Inr (c, key)" by (auto simp: verify_Inr)
    with this [unfolded verify_signature_Inr] show ?thesis by blast
  next
    case (Suc m)
    with Cons.prems call v show ?thesis by (intro Cons.IH [where j = m and redis = redis']) simp_all
  qed
qed simp


text \<open>
  The guard compares the text of the signature, while the check reads it as hexadecimal digits of either case: a captured request
  whose signature starts with a lower-case digit is accepted again at once when the digits are sent in upper case.
\<close>

definition with_signature :: "string \<Rightarrow> http_request \<Rightarrow> http_request" where
  "with_signature sign req = req\<lparr>hr_headers := (hr_headers req)(''x-aether-sign'' \<mapsto> Some sign)\<rparr>"

lemma signed_payload_with_signature [simp]: "signed_payload ts (with_signature sign req) = signed_payload ts req"
  by (simp add: signed_payload_def with_signature_def)

theorem upper_case_signature_replays:
  assumes "verify ports pk env rq req db (Some store) = (Some store', Inr caller)"
    and "header_str req ''x-aether-sign'' = Some sign" and "take 12 (to_uppercase sign) \<noteq> take 12 sign"
    and "store (replay_key ports (hc_key_id caller) (to_uppercase sign)) = None"
  shows "\<exists>store''. verify ports pk env rq (with_signature (to_uppercase sign) req) db (Some store') = (Some store'', Inr caller)"
proof -
  let ?req = "with_signature (to_uppercase sign) req" and ?key = "replay_key ports (hc_key_id caller) (to_uppercase sign)"
  from assms(1) obtain key where v: "verify_signature ports pk (he_now_ms env) rq req db = Inr (caller, key)"
    and c: "check_replay (he_redis_failing env) (he_server_now env) key (Some store) = (Some store', True)" by (auto simp: verify_Inr)
  from v assms(2) obtain ts k secret where f: "signature_facts ports pk (he_now_ms env) req db caller key sign ts k secret"
    unfolding verify_signature_Inr by (auto simp: signature_facts_def)
  then have "signature_facts ports pk (he_now_ms env) ?req db caller ?key (to_uppercase sign) ts k secret"
    by (simp add: signature_facts_def decode_hex_upper) (simp add: header_str_def with_signature_def)
  then have v': "verify_signature ports pk (he_now_ms env) rq ?req db = Inr (caller, ?key)" by (auto simp: verify_signature_Inr)
  have "?key \<noteq> key" using f assms(3) by (simp add: signature_facts_def replay_key_def)
  with c assms(4) have "\<exists>store''. check_replay (he_redis_failing env) (he_server_now env) ?key (Some store') = (Some store'', True)"
    by (auto simp: check_replay_def split: if_splits option.splits)
  with v' show ?thesis by (auto simp: verify_Inr)
qed

section \<open>A key signs from its creation to its revocation\<close>

lemma create_api_key_endpoint_Inr:
  assumes "create_api_key_endpoint ports kenv pk u rq payload db = (db1, Inr (status, resp))"
  shows "\<exists>input k. payload = Some input \<and> api_key_input_error input rq = None
    \<and> db_api_keys db1 = db_api_keys db @ [k] \<and> db1 = db\<lparr>db_api_keys := db_api_keys db1\<rparr>
    \<and> ak_id k = kc_key_id resp \<and> ak_user_id k = u \<and> ak_permissions k = ki_permissions input \<and> ak_revoked_at k = None
    \<and> ak_secret_hash k = kp_encrypt ports (kc_secret resp) pk (ke_salt kenv)
    \<and> (\<forall>x \<in> set (db_api_keys db). ak_id x \<noteq> kc_key_id resp) \<and> status = 201"
  using assms by (auto simp: create_api_key_endpoint_def create_api_key_def api_key_row_of_def Let_def
      split: option.splits sum.splits if_splits)

lemma skew_inside:
  assumes "\<bar>now - ts\<bar> \<le> 5000" and "0 \<le> now" and "now < 2 ^ 62"
  shows "signature_skew now ts \<le> MAX_SKEW_MS"
proof -
  have "wrapping_i64 (now - ts) = now - ts" "wrapping_i64 \<bar>now - ts\<bar> = \<bar>now - ts\<bar>"
    using assms(1) by (auto intro!: wrapping_i64_cases)
  with assms(1) show ?thesis by (simp add: signature_skew_def MAX_SKEW_MS_def)
qed

text \<open>
  C29. An API key works from its creation to its revocation and no longer: a request signed with the secret the creation returned,
  sent within five seconds, is accepted as coming from the key's owner with the permissions asked for; after the owner has revoked
  the key the same request is refused.
\<close>

theorem created_key_signs_until_revoked:
  assumes "\<And>data key salt. kp_decrypt ports (kp_encrypt ports data key salt) key = Some data"
    and "\<And>i. kp_parse_uuid ports (kp_uuid_to_string ports i) = Some i"
    and created: "create_api_key_endpoint ports kenv pk u rq (Some input) db = (db1, Inr (status, resp))"
    and "header_str req ''x-aether-key'' = Some (kp_uuid_to_string ports (kc_key_id resp))"
    and "header_str req ''x-aether-ts'' = Some (int_to_string ts)"
    and "header_str req ''x-aether-sign'' = Some (hex_encode (kp_hmac ports (kc_secret resp) (signed_payload ts req)))"
    and near: "\<bar>now - ts\<bar> \<le> 5000" and now: "0 \<le> now" "now < 2 ^ 62" and "length (hr_body req) \<le> BODY_LIMIT"
  shows "(\<exists>key. verify_signature ports pk now rq' req db1 =
      Inr (\<lparr>hc_user_id = u, hc_key_id = kc_key_id resp, hc_permissions = ki_permissions input\<rparr>, key))
    \<and> (\<exists>db2. revoke_api_key_endpoint t u rq'' (kc_key_id resp) db1 = (db2, Inr 204)
      \<and> verify_signature ports pk now rq' req db2 = Inl (sig_error SigInvalid ''Unknown API key'' rq'))"
proof -
  from create_api_key_endpoint_Inr [OF created] obtain k where k: "db_api_keys db1 = db_api_keys db @ [k]"
    "ak_id k = kc_key_id resp" "ak_user_id k = u" "ak_permissions k = ki_permissions input" "ak_revoked_at k = None"
    "ak_secret_hash k = kp_encrypt ports (kc_secret resp) pk (ke_salt kenv)"
    and fresh: "\<forall>x \<in> set (db_api_keys db). ak_id x \<noteq> kc_key_id resp" by auto
  have "List.find (active_key (kc_key_id resp)) (db_api_keys db) = None" using fresh by (force simp: find_None_iff active_key_def)
  then have found: "List.find (active_key (kc_key_id resp)) (db_api_keys db1) = Some k"
    using k by (simp add: find_append_new find_None_iff active_key_def)
  have ts: "parse_i64 (int_to_string ts) = Some ts" using near now by (intro parse_i64_int_to_string) auto
  have "signature_facts ports pk now req db1 \<lparr>hc_user_id = u, hc_key_id = kc_key_id resp, hc_permissions = ki_permissions input\<rparr>
      (replay_key ports (kc_key_id resp) (hex_encode (kp_hmac ports (kc_secret resp) (signed_payload ts req))))
      (hex_encode (kp_hmac ports (kc_secret resp) (signed_payload ts req))) ts k (kc_secret resp)"
    using assms(1,2,4-6,10) found ts skew_inside [OF near now] k decode_hex_encode by (simp add: signature_facts_def)
  then have "\<exists>key. verify_signature ports pk now rq' req db1 =
      Inr (\<lparr>hc_user_id = u, hc_key_id = kc_key_id resp, hc_permissions = ki_permissions input\<rparr>, key)"
    unfolding verify_signature_Inr by blast
  moreover define db2 where "db2 = snd (revoke_api_key t db1 u (kc_key_id resp))"
  have "List.find (active_key (kc_key_id resp)) (db_api_keys db2) = None"
    using fresh k by (force simp: db2_def revoke_api_key_def find_None_iff update_rows_def revocable_def active_key_def)
  then have "verify_signature ports pk now rq' req db2 = Inl (sig_error SigInvalid ''Unknown API key'' rq')"
    using assms(2,4-6) ts skew_inside [OF near now] by (simp add: verify_signature_def or_else_def find_api_key_def)
  moreover have "revoke_api_key_endpoint t u rq'' (kc_key_id resp) db1 = (db2, Inr 204)"
    using k by (simp add: revoke_api_key_endpoint_def db2_def revoke_api_key_def revocable_def split: prod.split)
  ultimately show ?thesis by blast
qed

section \<open>Sample requests\<close>

definition sample_key_ports :: key_ports where
  "sample_key_ports =
     \<lparr>kp_encrypt = (\<lambda>data key salt. data), kp_decrypt = (\<lambda>data key. Some data), kp_base64_url = (\<lambda>bytes. ''topsecret''),
      kp_parse_uuid = (\<lambda>s. map_option of_int (parse_digits 0 s)), kp_uuid_to_string = (\<lambda>i. nat_to_string (unat i)),
      kp_hmac = (\<lambda>secret payload. [0xab]), kp_decode_access = (\<lambda>secret token. Inl ''InvalidToken'')\<rparr>"

definition sample_key_db :: "api_key_record list \<Rightarrow> real db" where
  "sample_key_db keys =
     \<lparr>db_users = [\<lparr>us_id = 1, us_email = ''ann@example.com'', us_password_hash = ''h'', us_status = ''active'', us_kyc_level = 0,
          us_email_verified = False, us_totp_enabled = False, us_totp_secret_encrypted = None, us_is_admin = False, us_is_mm = False\<rparr>],
      db_refresh_tokens = [], db_assets = [], db_markets = [], db_balances = [], db_orders = [], db_trades = [], db_ledger_entries = [],
      db_deposits = [], db_engine_events = [], db_worker_state = [], db_api_keys = keys, db_audit_log = [], db_klines = []\<rparr>"

definition sample_key :: api_key_record where
  "sample_key = \<lparr>ak_id = 7, ak_user_id = 1, ak_label = ''bot'', ak_secret_hash = ''topsecret'', ak_permissions = [''read''],
     ak_revoked_at = None, ak_created_at = 0\<rparr>"

definition sample_signed :: http_request where
  "sample_signed = \<lparr>hr_headers = [''x-aether-key'' \<mapsto> Some ''7'', ''x-aether-ts'' \<mapsto> Some ''5000'', ''x-aether-sign'' \<mapsto> Some ''ab''],
     hr_method = ''GET'', hr_path_and_query = ''/orders'', hr_body = [], hr_context = None\<rparr>"

definition sample_hmac_env :: "int \<Rightarrow> hmac_env" where
  "sample_hmac_env t = \<lparr>he_now_ms = t, he_server_now = t, he_redis_failing = False\<rparr>"

lemma sample_texts:
  "parse_digits 0 ''7'' = Some 7" "parse_i64 ''5000'' = Some 5000" "decode_hex ''ab'' = Some [0xab]" "hex_encode [0xab] = ''ab''"
  by (simp_all add: parse_i64_def digit_value_def hex_pair_def hex_value_def hex_encode_def hex_char_def)

lemma sample_numbers: "nat_to_string 7 = ''7''" "int_to_string 5000 = ''5000''"
  by (simp_all add: int_to_string_def nat_to_string.simps [of 7] nat_to_string.simps [of 5000] nat_to_string.simps [of 500]
      nat_to_string.simps [of 50] nat_to_string.simps [of 5])

lemma sample_cases: "to_uppercase ''ab'' = ''AB''" "trim ''bot'' = ''bot''"
  by code_simp+

lemma sample_verifies:
  assumes "\<bar>now - 5000\<bar> \<le> 5000"
  shows "verify_signature sample_key_ports [] now 9 sample_signed (sample_key_db [sample_key]) =
     Inr (\<lparr>hc_user_id = 1, hc_key_id = 7, hc_permissions = [''read'']\<rparr>, ''hmac_replay:7:ab'')"
proof -
  have "signature_skew now 5000 \<le> MAX_SKEW_MS" using assms by (intro skew_inside) auto
  then have "signature_facts sample_key_ports [] now sample_signed (sample_key_db [sample_key])
      \<lparr>hc_user_id = 1, hc_key_id = 7, hc_permissions = [''read'']\<rparr> ''hmac_replay:7:ab'' ''ab'' 5000 sample_key ''topsecret''"
    by (simp add: signature_facts_def sample_signed_def header_str_def sample_key_ports_def sample_texts sample_numbers sample_key_db_def
        sample_key_def active_key_def replay_key_def del: parse_digits.simps decode_hex.simps)
  then show ?thesis unfolding verify_signature_Inr by blast
qed


theorem upper_case_signature_replays_witness:
  "\<exists>store. verify sample_key_ports [] (sample_hmac_env 0) 9 (with_signature ''AB'' sample_signed) (sample_key_db [sample_key])
     (Some [''hmac_replay:7:ab'' \<mapsto> 10000]) = (Some store, Inr \<lparr>hc_user_id = 1, hc_key_id = 7, hc_permissions = [''read'']\<rparr>)"
proof -
  have "verify sample_key_ports [] (sample_hmac_env 0) 9 sample_signed (sample_key_db [sample_key]) (Some Map.empty) =
      (Some [''hmac_replay:7:ab'' \<mapsto> 10000], Inr \<lparr>hc_user_id = 1, hc_key_id = 7, hc_permissions = [''read'']\<rparr>)"
    by (simp add: verify_def sample_hmac_env_def sample_verifies check_replay_def REPLAY_TTL_SECS_def)
  moreover have "header_str sample_signed ''x-aether-sign'' = Some ''ab''" by (simp add: sample_signed_def header_str_def)
  ultimately show ?thesis using sample_cases upper_case_signature_replays [of sample_key_ports "[]" "sample_hmac_env 0" 9 sample_signed] by force
qed

theorem created_key_signs_until_revoked_witness:
  "\<exists>db1 resp key. create_api_key_endpoint sample_key_ports \<lparr>ke_id = 7, ke_salt = [], ke_secret = [], ke_now = 0\<rparr> [] 1 9
       (Some \<lparr>ki_label = ''bot'', ki_permissions = [''read'']\<rparr>) (sample_key_db []) = (db1, Inr (201, resp))
     \<and> verify_signature sample_key_ports [] 5000 9 sample_signed db1 =
         Inr (\<lparr>hc_user_id = 1, hc_key_id = 7, hc_permissions = [''read'']\<rparr>, key)"
proof -
  let ?resp = "\<lparr>kc_key_id = 7, kc_label = ''bot'', kc_permissions = [''read''], kc_secret = ''topsecret'', kc_created_at = 0\<rparr>"
  have "api_key_input_error \<lparr>ki_label = ''bot'', ki_permissions = [''read'']\<rparr> 9 = None" by code_simp
  then have created: "create_api_key_endpoint sample_key_ports \<lparr>ke_id = 7, ke_salt = [], ke_secret = [], ke_now = 0\<rparr> [] 1 9
       (Some \<lparr>ki_label = ''bot'', ki_permissions = [''read'']\<rparr>) (sample_key_db []) = (sample_key_db [sample_key], Inr (201, ?resp))"
    by (simp add: create_api_key_endpoint_def create_api_key_def sample_key_ports_def sample_key_db_def sample_key_def api_key_row_of_def sample_cases Let_def)
  have headers: "header_str sample_signed ''x-aether-key'' = Some (kp_uuid_to_string sample_key_ports (kc_key_id ?resp))"
    "header_str sample_signed ''x-aether-ts'' = Some (int_to_string 5000)"
    "header_str sample_signed ''x-aether-sign'' = Some (hex_encode (kp_hmac sample_key_ports (kc_secret ?resp) (signed_payload 5000 sample_signed)))"
    by (simp_all add: sample_signed_def header_str_def sample_key_ports_def sample_texts sample_numbers)
  have "length (hr_body sample_signed) \<le> BODY_LIMIT" by (simp add: sample_signed_def)
  with created_key_signs_until_revoked [OF _ _ created headers, of 5000 9] created show ?thesis
    by (auto simp: sample_key_ports_def parse_nat_to_string)
qed

end
