(* ===== verification/Auth_Safety.thy ===== *)
theory Auth_Safety
  imports Auth_Service
begin

text \<open>
  What authentication promises: failed logins are bounded per account and window, reuse of a rotated
  refresh token ends its whole family, accounts have well-formed and distinct emails, and the credentials a
  signup accepts log in.
\<close>

section \<open>Failed logins\<close>

text \<open>A log of login requests, each with its environment, input and client address.\<close>

fun login_run ::
  "auth_ports \<Rightarrow> token_config \<Rightarrow> 's auth_repository \<Rightarrow> (request_env \<times> login_input \<times> string) list \<Rightarrow> 's auth_state \<Rightarrow>
     (auth_error + login_outcome) list" where
  "login_run ports cfg repo [] st = []"
| "login_run ports cfg repo ((env, input, ip_key) # requests) st =
     (let (st', result) = auth_login ports cfg repo env input ip_key st
      in result # login_run ports cfg repo requests st')"

definition for_account :: "string \<Rightarrow> request_env \<times> login_input \<times> string \<Rightarrow> bool" where
  "for_account email = (\<lambda>(env, input, ip_key). normalize_email (li_email input) = email)"

text \<open>The failures recorded for an account, all within the window that starts at \<open>t0\<close>.\<close>

definition failures_since :: "int \<Rightarrow> string \<Rightarrow> login_attempts \<Rightarrow> nat \<Rightarrow> bool" where
  "failures_since t0 email attempts n \<longleftrightarrow>
     (case la_by_email attempts email of None \<Rightarrow> n = 0 | Some w \<Rightarrow> unat (fw_count w) = n \<and> n \<le> 5 \<and> t0 \<le> fw_first_failure_at w)"

lemma failures_since_prune:
  assumes "failures_since t0 email attempts n" and "now \<le> t0 + 900"
  shows "la_by_email (attempts_prune now attempts) email = la_by_email attempts email"
  using assms by (auto simp: failures_since_def attempts_prune_def retain_recent_def LOGIN_WINDOW_SECONDS_def split: option.splits)

lemma failures_since_record:
  assumes "failures_since t0 email attempts n" and "n < 5" and "t0 \<le> now"
  shows "failures_since t0 email (attempts_record email ip_key now attempts) (Suc n)"
proof (cases "la_by_email attempts email")
  case None
  with assms show ?thesis
    by (simp add: failures_since_def attempts_record_def bump_def increment_window_def)
next
  case (Some w)
  with assms have w: "unat (fw_count w) = n" "n < 5" "t0 \<le> fw_first_failure_at w" by (auto simp: failures_since_def)
  then have "fw_count w = word_of_nat n" by (simp flip: w(1))
  moreover from w(2) have "n \<in> {0,1,2,3,4}" by auto
  ultimately show ?thesis using Some w
    by (auto simp: failures_since_def attempts_record_def bump_def increment_window_def)
qed

lemma mint_and_store_attempts:
  "mint_and_store_pair_with_family ports cfg repo random now u s f i k j st = (st', r) \<Longrightarrow> sv_attempts st' = sv_attempts st"
  by (auto simp: mint_and_store_pair_with_family_def split: sum.splits prod.splits)

lemma mint_and_store_error:
  "mint_and_store_pair_with_family ports cfg repo random now u s f i k j st = (st', r) \<Longrightarrow> isl r \<Longrightarrow> r = Inl AuthInternal"
  by (auto simp: mint_and_store_pair_with_family_def split: sum.splits prod.splits)

lemma five_is_locked:
  assumes "failures_since t0 email attempts n" and "5 \<le> n"
  shows "is_locked email ip_key attempts"
  using assms
  by (auto simp: failures_since_def is_locked_def MAX_LOGIN_FAILURES_def word_le_nat_alt split: option.splits)

lemma failures_since_cong:
  "la_by_email attempts' email = la_by_email attempts email \<Longrightarrow> failures_since t0 email attempts' n = failures_since t0 email attempts n"
  by (simp add: failures_since_def)

lemma auth_login_attempts:
  assumes login: "auth_login ports cfg repo env input ip_key st = (st', r)"
  defines "e \<equiv> normalize_email (li_email input)" and "attempts \<equiv> attempts_prune (rq_clock env 0) (sv_attempts st)"
  obtains (invalid) "st' = st" "r = Inl AuthInvalidEmail"
    | (locked) "sv_attempts st' = attempts" "r = Inl AuthTooManyAttempts"
    | (bad) "\<not> is_locked e ip_key attempts" "sv_attempts st' = attempts_record e ip_key (rq_clock env 0) attempts"
        "r = Inl AuthInvalidCredentials"
    | (kept) "sv_attempts st' = attempts" "r = Inl AuthInternal"
    | (cleared) "sv_attempts st' = attempts\<lparr>la_by_email := (la_by_email attempts)(e := None), la_by_ip := (la_by_ip attempts)(ip_key := None)\<rparr>"
        "\<not> isl r \<or> r = Inl AuthInternal"
proof (cases "is_valid_email e")
  case False
  then have "normalised_email_or_error (li_email input) = Inl AuthInvalidEmail"
    by (simp add: normalised_email_or_error_def e_def)
  with login invalid show ?thesis by (simp add: auth_login_def)
next
  case True
  then have email: "normalised_email_or_error (li_email input) = Inr e" by (simp add: normalised_email_or_error_def e_def)
  show ?thesis
  proof (cases "is_locked e ip_key attempts")
    case True
    with login email locked show ?thesis by (auto simp: auth_login_def ensure_login_allowed_def attempts_def Let_def)
  next
    case False
    define st1 where "st1 = st\<lparr>sv_attempts := attempts\<rparr>"
    have allowed: "ensure_login_allowed e ip_key (rq_clock env 0) st = (st1, Inr ())"
      using False by (simp add: ensure_login_allowed_def attempts_def st1_def Let_def)
    show ?thesis
    proof (cases "verify_login ports repo e (li_password input) (sv_repository st1)")
      case (Inl err)
      then have "err = AuthInvalidCredentials \<or> err = AuthInternal"
        by (auto simp: verify_login_def split: sum.splits option.splits if_splits)
      with Inl login email allowed False bad kept show ?thesis
        by (auto simp: auth_login_def Let_def record_login_failure_def st1_def)
    next
      case (Inr user)
      have "sv_attempts st' = sv_attempts (clear_login_failures e ip_key st1) \<and> (\<not> isl r \<or> r = Inl AuthInternal)"
      proof (cases "au_totp_enabled user")
        case True
        with Inr login email allowed show ?thesis by (auto simp: auth_login_def Let_def split: sum.splits)
      next
        case totp: False
        obtain st3 r3 where mint: "mint_and_store_pair_with_family ports cfg repo (rq_random env) (rq_clock env 1) (au_id user)
            (rq_ids env 0) (rq_ids env 1) (rq_ids env 2) (au_kyc_level user) (rq_ids env 3) (clear_login_failures e ip_key st1) = (st3, r3)"
          by fastforce
        with totp Inr login email allowed have "st' = st3" "r = map_sum id Tokens r3"
          by (auto simp: auth_login_def Let_def split: sum.splits)
        with mint_and_store_attempts [OF mint] mint_and_store_error [OF mint] show ?thesis by (cases r3) auto
      qed
      with cleared show ?thesis by (simp add: clear_login_failures_def st1_def)
    qed
  qed
qed

lemma login_counts_failures:
  assumes count: "failures_since t0 email (sv_attempts st) n"
    and time: "t0 \<le> rq_clock env 0" "rq_clock env 0 \<le> t0 + 900"
    and login: "auth_login ports cfg repo env input ip_key st = (st', r)"
    and refused: "for_account email (env, input, ip_key) \<Longrightarrow> isl r \<and> r \<noteq> Inl AuthInternal"
  defines "failed \<equiv> for_account email (env, input, ip_key) \<and> r = Inl AuthInvalidCredentials"
  shows "failures_since t0 email (sv_attempts st') (if failed then Suc n else n)" and "failed \<Longrightarrow> n < 5"
proof -
  let ?e = "normalize_email (li_email input)" and ?now = "rq_clock env 0"
  let ?att = "attempts_prune ?now (sv_attempts st)"
  note pruned = failures_since_prune [OF count time(2)]
  have count': "failures_since t0 email ?att n" using failures_since_cong [OF pruned] count by blast
  have acct: "for_account email (env, input, ip_key) \<longleftrightarrow> ?e = email" by (simp add: for_account_def)
  consider (invalid) "st' = st" "r = Inl AuthInvalidEmail"
    | (locked) "sv_attempts st' = ?att" "r = Inl AuthTooManyAttempts"
    | (bad) "\<not> is_locked ?e ip_key ?att" "sv_attempts st' = attempts_record ?e ip_key ?now ?att" "r = Inl AuthInvalidCredentials"
    | (kept) "sv_attempts st' = ?att" "r = Inl AuthInternal"
    | (cleared) "sv_attempts st' = ?att\<lparr>la_by_email := (la_by_email ?att)(?e := None), la_by_ip := (la_by_ip ?att)(ip_key := None)\<rparr>"
        "\<not> isl r \<or> r = Inl AuthInternal"
    by (rule auth_login_attempts [OF login])
  then have "failures_since t0 email (sv_attempts st') (if failed then Suc n else n) \<and> (failed \<longrightarrow> n < 5)"
  proof cases
    case bad
    show ?thesis
    proof (cases "?e = email")
      case True
      with bad(1) five_is_locked [OF count'] have "n < 5" by (metis not_le_imp_less)
      with failures_since_record [OF count' this time(1)] bad True acct show ?thesis by (simp add: failed_def)
    next
      case False
      with bad count' acct show ?thesis
        by (simp add: failed_def failures_since_def attempts_record_def bump_def)
    qed
  next
    case cleared
    with refused acct count' show ?thesis by (auto simp: failed_def failures_since_def)
  qed (use count count' in \<open>simp_all add: failed_def\<close>)
  then show "failures_since t0 email (sv_attempts st') (if failed then Suc n else n)" and "failed \<Longrightarrow> n < 5" by auto
qed

text \<open>The wrong-password answers an account receives in a run of logins.\<close>

definition wrong_guesses ::
  "string \<Rightarrow> (request_env \<times> login_input \<times> string) list \<Rightarrow> (auth_error + login_outcome) list \<Rightarrow> nat" where
  "wrong_guesses email requests results =
     length (filter (\<lambda>(q, r). for_account email q \<and> r = Inl AuthInvalidCredentials) (zip requests results))"

lemma login_run_counts:
  assumes "failures_since t0 email (sv_attempts st) n"
    and "\<forall>(env, input, ip_key) \<in> set requests. t0 \<le> rq_clock env 0 \<and> rq_clock env 0 \<le> t0 + 900"
    and "\<forall>(q, r) \<in> set (zip requests (login_run ports cfg repo requests st)). for_account email q \<longrightarrow> isl r \<and> r \<noteq> Inl AuthInternal"
  shows "n + wrong_guesses email requests (login_run ports cfg repo requests st) \<le> 5"
  using assms
proof (induction requests arbitrary: st n)
  case Nil
  then show ?case by (auto simp: wrong_guesses_def failures_since_def split: option.splits)
next
  case (Cons q requests)
  obtain env input ip_key where q: "q = (env, input, ip_key)" by (cases q)
  obtain st' r where login: "auth_login ports cfg repo env input ip_key st = (st', r)" by (cases "auth_login ports cfg repo env input ip_key st")
  from Cons.prems(2) have time: "t0 \<le> rq_clock env 0" "rq_clock env 0 \<le> t0 + 900" by (simp_all add: q)
  from Cons.prems(3) have refused: "for_account email (env, input, ip_key) \<Longrightarrow> isl r \<and> r \<noteq> Inl AuthInternal" by (simp add: q login)
  note step = login_counts_failures [OF Cons.prems(1) time login refused]
  from Cons.IH [OF step(1)] Cons.prems(2,3) step(2) show ?case
    by (auto simp: q login wrong_guesses_def split: if_splits)
qed


section \<open>Refresh-token families\<close>

datatype auth_call = SignupCall signup_input | LoginCall login_input string | RefreshCall string

definition auth_step :: "auth_ports \<Rightarrow> token_config \<Rightarrow> 's auth_repository \<Rightarrow> request_env \<times> auth_call \<Rightarrow> 's auth_state \<Rightarrow> 's auth_state" where
  "auth_step ports cfg repo = (\<lambda>(env, call) st. case call of
     SignupCall input \<Rightarrow> fst (auth_signup ports cfg repo env input st)
   | LoginCall input ip_key \<Rightarrow> fst (auth_login ports cfg repo env input ip_key st)
   | RefreshCall token \<Rightarrow> fst (auth_refresh ports cfg repo env token st))"

definition auth_run :: "auth_ports \<Rightarrow> token_config \<Rightarrow> 's auth_repository \<Rightarrow> (request_env \<times> auth_call) list \<Rightarrow> 's auth_state \<Rightarrow> 's auth_state" where
  "auth_run ports cfg repo calls st = fold (auth_step ports cfg repo) calls st"

text \<open>Token rows are never dropped, keep their family, and stay revoked once revoked.\<close>

definition rows_kept :: "(string \<rightharpoonup> refresh_token) \<Rightarrow> (string \<rightharpoonup> refresh_token) \<Rightarrow> bool" where
  "rows_kept m m' \<longleftrightarrow> (\<forall>h t. m h = Some t \<longrightarrow>
     (\<exists>t'. m' h = Some t' \<and> rt_family_id t' = rt_family_id t \<and> (rt_revoked_at t \<noteq> None \<longrightarrow> rt_revoked_at t' \<noteq> None)))"

definition family_live :: "(string \<rightharpoonup> refresh_token) \<Rightarrow> uuid \<Rightarrow> bool" where
  "family_live m f \<longleftrightarrow> (\<exists>h t. m h = Some t \<and> rt_family_id t = f \<and> rt_revoked_at t = None)"

lemma rows_kept_refl [simp]: "rows_kept m m"
  by (simp add: rows_kept_def)

lemma rows_kept_trans: "rows_kept m m' \<Longrightarrow> rows_kept m' m'' \<Longrightarrow> rows_kept m m''"
  unfolding rows_kept_def by metis

lemma rows_kept_revoke: "rows_kept m (\<lambda>h. map_option (revoke_where P now) (m h))"
  by (auto simp: rows_kept_def revoke_where_def)

lemma rows_kept_insert: "m h = None \<Longrightarrow> rows_kept m (m(h \<mapsto> t))"
  by (auto simp: rows_kept_def)

lemma family_live_revoke: "family_live (\<lambda>h. map_option (revoke_where P now) (m h)) f \<Longrightarrow> family_live m f"
  by (auto simp: family_live_def revoke_where_def split: if_splits)

lemma family_live_insert: "family_live (m(h \<mapsto> new_token t)) f \<Longrightarrow> family_live m f \<or> f = ct_family_id t"
  by (auto simp: family_live_def new_token_def split: if_splits)

lemma family_dead_revoked: "\<not> family_live (\<lambda>h. map_option (revoke_where (\<lambda>t. rt_family_id t = f) now) (m h)) f"
proof
  assume "family_live (\<lambda>h. map_option (revoke_where (\<lambda>t. rt_family_id t = f) now) (m h)) f"
  then obtain t where "rt_family_id (revoke_where (\<lambda>t. rt_family_id t = f) now t) = f"
    "rt_revoked_at (revoke_where (\<lambda>t. rt_family_id t = f) now t) = None"
    unfolding family_live_def map_option_eq_Some by blast
  then show False by (simp add: revoke_where_def split: if_splits)
qed

lemma auth_login_repository:
  assumes login: "auth_login ports cfg repo env input ip_key st = (st', r)"
  obtains (same) "sv_repository st' = sv_repository st"
    | (minted) u :: auth_user and st2 r3 where "sv_repository st2 = sv_repository st"
        "mint_and_store_pair_with_family ports cfg repo (rq_random env) (rq_clock env 1) (au_id u) (rq_ids env 0) (rq_ids env 1)
           (rq_ids env 2) (au_kyc_level u) (rq_ids env 3) st2 = (st', r3)"
proof (cases "normalised_email_or_error (li_email input)")
  case (Inl e)
  with login same show ?thesis by (simp add: auth_login_def)
next
  case (Inr email)
  obtain st1 res where allowed: "ensure_login_allowed email ip_key (rq_clock env 0) st = (st1, res)" by fastforce
  then have st1: "sv_repository st1 = sv_repository st" by (auto simp: ensure_login_allowed_def Let_def split: if_splits)
  show ?thesis
  proof (cases "isl res \<or> isl (verify_login ports repo email (li_password input) (sv_repository st1))")
    case True
    with login Inr allowed st1 have "sv_repository st' = sv_repository st"
      by (auto simp: auth_login_def Let_def record_login_failure_def split: sum.splits auth_error.splits)
    with same show ?thesis .
  next
    case False
    then obtain u where u: "res = Inr ()" "verify_login ports repo email (li_password input) (sv_repository st1) = Inr u"
      by (cases res; cases "verify_login ports repo email (li_password input) (sv_repository st1)") auto
    define st2 where "st2 = clear_login_failures email ip_key st1"
    have st2: "sv_repository st2 = sv_repository st" by (simp add: st2_def clear_login_failures_def st1)
    show ?thesis
    proof (cases "au_totp_enabled u")
      case True
      with login Inr allowed u have "st' = st2" by (auto simp: auth_login_def Let_def st2_def split: sum.splits)
      with same st2 show ?thesis by simp
    next
      case False
      obtain st3 r3 where mint: "mint_and_store_pair_with_family ports cfg repo (rq_random env) (rq_clock env 1) (au_id u) (rq_ids env 0)
          (rq_ids env 1) (rq_ids env 2) (au_kyc_level u) (rq_ids env 3) st2 = (st3, r3)" by fastforce
      with False login Inr allowed u have "st' = st3" by (auto simp: auth_login_def Let_def st2_def split: sum.splits)
      with minted [OF st2] mint show ?thesis by blast
    qed
  qed
qed

lemma auth_signup_cases:
  assumes "auth_signup ports cfg repo env input st = (st', r)"
  obtains (refused) "st' = st" "isl r"
    | (created) p s u where "is_valid_email (normalize_email (si_email input))"
        "create_user repo \<lparr>cu_id = rq_ids env 0, cu_email = normalize_email (si_email input), cu_password_hash = p\<rparr> (sv_repository st) = (s, u)"
        "sv_repository st' = s" "isl r"
    | (minted) p s u where "is_valid_email (normalize_email (si_email input))"
        "create_user repo \<lparr>cu_id = rq_ids env 0, cu_email = normalize_email (si_email input), cu_password_hash = p\<rparr> (sv_repository st) = (s, Inr u)"
        "mint_and_store_pair_with_family ports cfg repo (rq_random env) (rq_clock env 0) (au_id u) (rq_ids env 1) (rq_ids env 2)
           (rq_ids env 3) (au_kyc_level u) (rq_ids env 4) (st\<lparr>sv_repository := s\<rparr>) = (st', r)"
        "pt_hash_password ports (si_password input) (rq_salt env) = Some p"
proof (cases "is_valid_email (normalize_email (si_email input)) \<and> password_policy_failures (si_password input) = []")
  case False
  with assms refused show ?thesis by (auto simp: auth_signup_def normalised_email_or_error_def Let_def split: if_splits)
next
  case True
  show ?thesis
  proof (cases "pt_hash_password ports (si_password input) (rq_salt env)")
    case None
    with True assms refused show ?thesis by (auto simp: auth_signup_def normalised_email_or_error_def Let_def)
  next
    case (Some p)
    obtain s u where made: "create_user repo \<lparr>cu_id = rq_ids env 0, cu_email = normalize_email (si_email input), cu_password_hash = p\<rparr>
        (sv_repository st) = (s, u)" by fastforce
    show ?thesis
    proof (cases u)
      case (Inl e)
      with True Some made assms have "sv_repository st' = s \<and> isl r"
        by (cases e) (auto simp: auth_signup_def normalised_email_or_error_def Let_def)
      with True made created show ?thesis by blast
    next
      case (Inr v)
      with True Some made assms minted [of p s v] show ?thesis
        by (simp add: auth_signup_def normalised_email_or_error_def Let_def)
    qed
  qed
qed

text \<open>A store whose ids and token hashes are keys: an insert that succeeds met no row with the same key.\<close>

locale keyed_auth_store = auth_store repo ok users logins tokens
  for repo :: "'s auth_repository" and ok and users and logins and tokens +
  assumes create_user_new: "ok s \<Longrightarrow> create_user repo input s = (s', Inr u) \<Longrightarrow> users s (cu_id input) = None"
    and insert_token_new: "ok s \<Longrightarrow> insert_refresh_token repo t s = (s', Inr x) \<Longrightarrow> tokens s (ct_token_hash t) = None"
begin

text \<open>What one operation does to the tokens: it may bring to life only the families in \<open>F\<close>.\<close>

definition evolves :: "uuid set \<Rightarrow> 's \<Rightarrow> 's \<Rightarrow> bool" where
  "evolves F s s' \<longleftrightarrow> ok s' \<and> rows_kept (tokens s) (tokens s') \<and> (\<forall>f. family_live (tokens s') f \<longrightarrow> family_live (tokens s) f \<or> f \<in> F)"

lemma evolves_refl: "ok s \<Longrightarrow> evolves F s s"
  by (simp add: evolves_def)

lemma evolves_trans: "evolves F s s' \<Longrightarrow> evolves F s' s'' \<Longrightarrow> evolves F s s''"
  unfolding evolves_def by (blast intro: rows_kept_trans)

lemma evolves_revoke_token: "ok s \<Longrightarrow> revoke_refresh_token repo i now s = (s', r) \<Longrightarrow> evolves F s s'"
  by (drule (1) revoke_token) (auto simp: evolves_def rows_kept_revoke dest: family_live_revoke)

lemma evolves_revoke_family:
  assumes "ok s" and "revoke_refresh_family repo f now s = (s', r)"
  shows "evolves F s s'" and "\<not> family_live (tokens s') f"
  using revoke_family [OF assms] by (auto simp: evolves_def rows_kept_revoke family_dead_revoked dest: family_live_revoke)

lemma evolves_create_user:
  assumes "ok s" and made: "create_user repo input s = (s', r)"
  shows "evolves F s s'"
proof (cases r)
  case (Inl e)
  with made have "s' = s" using create_user_Inl by blast
  with assms(1) show ?thesis by (simp add: evolves_refl)
next
  case (Inr u)
  with made have "create_user repo input s = (s', Inr u)" by simp
  from create_user_Inr [OF assms(1) create_user_new [OF assms(1) this] this] show ?thesis by (simp add: evolves_def)
qed

lemma evolves_mint:
  assumes "ok (sv_repository st)"
    and "mint_and_store_pair_with_family ports cfg repo random now u sid f i k j st = (st', r)" and "f \<in> F \<or> family_live (tokens (sv_repository st)) f"
  shows "evolves F (sv_repository st) (sv_repository st')"
proof (cases "mint_pair ports cfg random now u sid k j")
  case (Inl e)
  with assms show ?thesis by (simp add: mint_and_store_pair_with_family_def evolves_refl)
next
  case (Inr pair)
  define t where "t = \<lparr>ct_id = i, ct_user_id = u, ct_session_id = sid, ct_token_hash = tp_refresh_token_hash pair,
    ct_family_id = f, ct_expires_at = tp_refresh_expires_at pair\<rparr>"
  obtain s' res where ins: "insert_refresh_token repo t (sv_repository st) = (s', res)" by fastforce
  with Inr assms(2) have st': "sv_repository st' = s'"
    by (auto simp: mint_and_store_pair_with_family_def t_def split: sum.splits)
  show ?thesis
  proof (cases res)
    case (Inl e)
    with ins have "s' = sv_repository st" using insert_token_Inl by blast
    with assms(1) st' show ?thesis by (simp add: evolves_refl)
  next
    case (Inr x)
    with ins have ok': "ok s' \<and> users s' = users (sv_repository st) \<and> tokens s' = (tokens (sv_repository st))(ct_token_hash t \<mapsto> new_token t)"
      and new: "tokens (sv_repository st) (ct_token_hash t) = None"
      using insert_token_Inr [OF assms(1)] insert_token_new [OF assms(1)] by blast+
    have "ct_family_id t = f" by (simp add: t_def)
    with ok' assms(3) st' show ?thesis
      using rows_kept_insert [of "tokens (sv_repository st)", OF new]
        family_live_insert [of "tokens (sv_repository st)" "ct_token_hash t" t]
      by (auto simp: evolves_def)
  qed
qed

lemma mint_keeps_users:
  assumes "ok (sv_repository st)" and "mint_and_store_pair_with_family ports cfg repo random now u sid f i k j st = (st', r)"
  shows "ok (sv_repository st') \<and> users (sv_repository st') = users (sv_repository st)"
  using assms by (auto simp: mint_and_store_pair_with_family_def split: sum.splits prod.splits
      dest: insert_token_Inl insert_token_Inr [OF assms(1)])

lemma signup_evolves:
  assumes ok: "ok (sv_repository st)" and signup: "auth_signup ports cfg repo env input st = (st', r)"
  shows "evolves {rq_ids env 1, rq_ids env 2} (sv_repository st) (sv_repository st')"
  using signup
proof (cases rule: auth_signup_cases)
  case refused
  with ok show ?thesis by (simp add: evolves_refl)
next
  case (created p s u)
  with evolves_create_user [OF ok created(2)] show ?thesis by simp
next
  case (minted p s u)
  note made = evolves_create_user [OF ok minted(2), of "{rq_ids env 1, rq_ids env 2}"]
  then have "ok s" by (simp add: evolves_def)
  with evolves_mint [OF _ minted(3), of "{rq_ids env 1, rq_ids env 2}"]
  have "evolves {rq_ids env 1, rq_ids env 2} s (sv_repository st')" by simp
  with made show ?thesis by (rule evolves_trans)
qed

lemma login_evolves:
  assumes ok: "ok (sv_repository st)" and login: "auth_login ports cfg repo env input ip_key st = (st', r)"
  shows "evolves {rq_ids env 1, rq_ids env 2} (sv_repository st) (sv_repository st')"
  using login
proof (cases rule: auth_login_repository)
  case same
  with ok show ?thesis by (simp add: evolves_refl)
next
  case (minted u st2 r3)
  with evolves_mint [OF _ minted(2), of "{rq_ids env 1, rq_ids env 2}"] ok show ?thesis by simp
qed

lemma evolves_live: "evolves {f} s s' \<Longrightarrow> family_live (tokens s) f \<Longrightarrow> evolves F s s'"
  by (auto simp: evolves_def)

lemma refresh_cases:
  assumes ok: "ok (sv_repository st)" and refresh: "auth_refresh ports cfg repo env token st = (st', r)"
  obtains (unknown) "tokens (sv_repository st) (hash_refresh_token ports token) = None" "st' = st" "r = Inl AuthTokenInvalid"
    | (reused) stored where "tokens (sv_repository st) (hash_refresh_token ports token) = Some stored" "rt_revoked_at stored \<noteq> None"
        "revoke_refresh_family repo (rt_family_id stored) (rq_clock env 0) (sv_repository st) = (sv_repository st', Inr ())" "r = Inl AuthTokenInvalid"
    | (refused) stored where "tokens (sv_repository st) (hash_refresh_token ports token) = Some stored" "rt_revoked_at stored = None"
        "st' = st" "isl r"
    | (expired) stored where "tokens (sv_repository st) (hash_refresh_token ports token) = Some stored" "rt_revoked_at stored = None"
        "revoke_refresh_token repo (rt_id stored) (rq_clock env 0) (sv_repository st) = (sv_repository st', Inr ())" "isl r"
    | (rotated) stored s and u :: auth_user where "tokens (sv_repository st) (hash_refresh_token ports token) = Some stored" "rt_revoked_at stored = None"
        "revoke_refresh_token repo (rt_id stored) (rq_clock env 0) (sv_repository st) = (s, Inr ())"
        "mint_and_store_pair_with_family ports cfg repo (rq_random env) (rq_clock env 1) (au_id u) (rt_session_id stored)
           (rt_family_id stored) (rq_ids env 0) (au_kyc_level u) (rq_ids env 1) (st\<lparr>sv_repository := s\<rparr>) = (st', r)"
proof (cases "tokens (sv_repository st) (hash_refresh_token ports token)")
  case None
  then have "auth_refresh ports cfg repo env token st = (st, Inl AuthTokenInvalid)"
    by (simp add: auth_refresh_def find_refresh_token)
  with refresh have "st' = st" "r = Inl AuthTokenInvalid" by simp_all
  with unknown [OF None] show ?thesis by blast
next
  case (Some stored)
  obtain s1 r1 where "revoke_refresh_family repo (rt_family_id stored) (rq_clock env 0) (sv_repository st) = (s1, r1)" by fastforce
  with revoke_family [OF ok this]
  have rf: "revoke_refresh_family repo (rt_family_id stored) (rq_clock env 0) (sv_repository st) = (s1, Inr ())" by simp
  obtain s2 r2 where "revoke_refresh_token repo (rt_id stored) (rq_clock env 0) (sv_repository st) = (s2, r2)" by fastforce
  with revoke_token [OF ok this]
  have rt: "revoke_refresh_token repo (rt_id stored) (rq_clock env 0) (sv_repository st) = (s2, Inr ())" by simp
  consider (a) "rt_revoked_at stored \<noteq> None" | (b) "rt_revoked_at stored = None" "rt_expires_at stored \<le> rq_clock env 0"
    | (c) "rt_revoked_at stored = None" "\<not> rt_expires_at stored \<le> rq_clock env 0" by blast
  then show ?thesis
  proof cases
    case a
    with Some refresh rf have "st' = st\<lparr>sv_repository := s1\<rparr>" "r = Inl AuthTokenInvalid"
      by (simp_all add: auth_refresh_def find_refresh_token Let_def)
    with reused [OF Some a] rf show ?thesis by simp
  next
    case b
    with Some refresh rt have "st' = st\<lparr>sv_repository := s2\<rparr>" "r = Inl AuthTokenExpired"
      by (simp_all add: auth_refresh_def find_refresh_token Let_def)
    with expired [OF Some b(1)] rt show ?thesis by simp
  next
    case c
    show ?thesis
    proof (cases "\<exists>u. users (sv_repository st) (rt_user_id stored) = Some u \<and> au_status u = Active")
      case True
      then obtain u where "users (sv_repository st) (rt_user_id stored) = Some u" "au_status u = Active" by blast
      with Some c refresh rt rotated [OF Some c(1) rt, of u] show ?thesis
        by (simp add: auth_refresh_def find_refresh_token find_user_by_id Let_def)
    next
      case False
      with Some c refresh have "st' = st" "isl r"
        by (auto simp: auth_refresh_def find_refresh_token find_user_by_id Let_def split: option.splits)
      with refused [OF Some c(1)] show ?thesis by simp
    qed
  qed
qed

lemma refresh_evolves:
  assumes ok: "ok (sv_repository st)" and refresh: "auth_refresh ports cfg repo env token st = (st', r)"
  shows "evolves F (sv_repository st) (sv_repository st')"
  using ok refresh
proof (cases rule: refresh_cases)
  case (rotated stored s u)
  then have live: "family_live (tokens (sv_repository st)) (rt_family_id stored)" unfolding family_live_def by blast
  note revoked = evolves_revoke_token [OF ok rotated(3), of "{rt_family_id stored}"]
  then have "ok s" by (simp add: evolves_def)
  with evolves_mint [OF _ rotated(4), of "{rt_family_id stored}"] have "evolves {rt_family_id stored} s (sv_repository st')" by simp
  with revoked have "evolves {rt_family_id stored} (sv_repository st) (sv_repository st')" by (rule evolves_trans)
  then show ?thesis using live by (rule evolves_live)
qed (use ok evolves_refl evolves_revoke_token evolves_revoke_family(1) in blast)+

lemma run_evolves:
  assumes "ok (sv_repository st)" and "\<forall>(env, call) \<in> set calls. f \<noteq> rq_ids env 1 \<and> f \<noteq> rq_ids env 2"
  shows "evolves (- {f}) (sv_repository st) (sv_repository (auth_run ports cfg repo calls st))"
  using assms
proof (induction calls arbitrary: st)
  case Nil
  then show ?case by (simp add: auth_run_def evolves_refl)
next
  case (Cons c calls)
  obtain env call where c: "c = (env, call)" by (cases c)
  let ?st = "auth_step ports cfg repo c st"
  note results = signup_evolves [OF Cons.prems(1) prod.collapse [symmetric]] login_evolves [OF Cons.prems(1) prod.collapse [symmetric]]
    refresh_evolves [OF Cons.prems(1) prod.collapse [symmetric]]
  have "evolves {rq_ids env 1, rq_ids env 2} (sv_repository st) (sv_repository ?st)"
    by (cases call) (simp_all add: auth_step_def c results [simplified])
  then have "evolves (- {f}) (sv_repository st) (sv_repository ?st)"
    using Cons.prems(2) unfolding evolves_def c by auto
  with Cons show ?case by (simp add: auth_run_def evolves_def) (blast intro: rows_kept_trans)
qed

lemma rotated_row:
  assumes ok: "ok (sv_repository st)" and refresh: "auth_refresh ports cfg repo env token st = (st', Inr pair)"
    and stored: "tokens (sv_repository st) (hash_refresh_token ports token) = Some stored"
  shows "\<exists>t. tokens (sv_repository st') (hash_refresh_token ports token) = Some t \<and> rt_family_id t = rt_family_id stored \<and> rt_revoked_at t \<noteq> None"
  using ok refresh
proof (cases rule: refresh_cases)
  case (rotated stored' s u)
  with stored have [simp]: "stored' = stored" by simp
  from evolves_revoke_token [OF ok rotated(3), of "{rt_family_id stored}"] have "ok s" by (simp add: evolves_def)
  then have "rows_kept (tokens s) (tokens (sv_repository st'))"
    using evolves_mint [OF _ rotated(4), of "{rt_family_id stored}"] by (simp add: evolves_def)
  moreover from revoke_token [OF ok rotated(3)] stored rotated(2)
  have "tokens s (hash_refresh_token ports token) = Some (stored\<lparr>rt_revoked_at := Some (rq_clock env 0)\<rparr>)"
    by (simp add: revoke_where_def)
  ultimately show ?thesis unfolding rows_kept_def by fastforce
qed simp_all

lemma reuse_ends_family:
  assumes ok: "ok (sv_repository st)" and stored: "tokens (sv_repository st) (hash_refresh_token ports token) = Some stored"
    and rotate: "auth_refresh ports cfg repo env1 token st = (st1, Inr pair)"
    and fresh: "\<forall>(env, call) \<in> set (calls1 @ calls2). rt_family_id stored \<noteq> rq_ids env 1 \<and> rt_family_id stored \<noteq> rq_ids env 2"
    and reuse: "auth_refresh ports cfg repo env2 token (auth_run ports cfg repo calls1 st1) = (st3, r)"
    and member: "tokens (sv_repository (auth_run ports cfg repo calls2 st3)) (hash_refresh_token ports token') = Some t"
      "rt_family_id t = rt_family_id stored"
  shows "r = Inl AuthTokenInvalid" and "snd (auth_refresh ports cfg repo env3 token' (auth_run ports cfg repo calls2 st3)) = Inl AuthTokenInvalid"
proof -
  let ?h = "hash_refresh_token ports token" and ?f = "rt_family_id stored"
  let ?st2 = "auth_run ports cfg repo calls1 st1" and ?st4 = "auth_run ports cfg repo calls2 st3"
  from refresh_evolves [OF ok rotate, of "{}"] have ok1: "ok (sv_repository st1)" by (simp add: evolves_def)
  have "evolves (- {?f}) (sv_repository st1) (sv_repository ?st2)" using ok1 fresh by (intro run_evolves) auto
  then have ok2: "ok (sv_repository ?st2)" and kept: "rows_kept (tokens (sv_repository st1)) (tokens (sv_repository ?st2))"
    by (simp_all add: evolves_def)
  from rotated_row [OF ok rotate stored] kept obtain t2 where
    t2: "tokens (sv_repository ?st2) ?h = Some t2" "rt_family_id t2 = ?f" "rt_revoked_at t2 \<noteq> None"
    unfolding rows_kept_def by metis
  from ok2 reuse have "r = Inl AuthTokenInvalid \<and> ok (sv_repository st3) \<and> \<not> family_live (tokens (sv_repository st3)) ?f"
  proof (cases rule: refresh_cases)
    case (reused stored')
    with t2 evolves_revoke_family(1) [OF ok2 reused(3), of "{}"] evolves_revoke_family(2) [OF ok2 reused(3)] show ?thesis by (simp add: evolves_def)
  qed (use t2 in simp_all)
  then have r: "r = Inl AuthTokenInvalid" and ok3: "ok (sv_repository st3)" and dead: "\<not> family_live (tokens (sv_repository st3)) ?f" by simp_all
  have "evolves (- {?f}) (sv_repository st3) (sv_repository ?st4)" using ok3 fresh by (intro run_evolves) auto
  then have ok4: "ok (sv_repository ?st4)" and "\<not> family_live (tokens (sv_repository ?st4)) ?f" using dead by (auto simp: evolves_def)
  with member have revoked: "rt_revoked_at t \<noteq> None" unfolding family_live_def by (metis (mono_tags))
  obtain st5 r' where last: "auth_refresh ports cfg repo env3 token' ?st4 = (st5, r')" by fastforce
  with ok4 have "r' = Inl AuthTokenInvalid"
    by (cases rule: refresh_cases) (use member revoked in simp_all)
  with last r show "r = Inl AuthTokenInvalid" and "snd (auth_refresh ports cfg repo env3 token' ?st4) = Inl AuthTokenInvalid" by simp_all
qed

end

interpretation pg: keyed_auth_store pg_auth_repository pg_ok pg_users pg_logins pg_tokens
proof
  show "pg_users db (cu_id input) = None" if "create_user pg_auth_repository input db = (db', Inr u)" for db db' :: "'d::linordered_field db" and input u
    using that by (auto simp: pg_auth_repository_def pg_create_user_def pg_users_def find_None_iff split: if_splits)
  show "pg_tokens db (ct_token_hash t) = None" if "insert_refresh_token pg_auth_repository t db = (db', Inr x)"
    for db db' :: "'d::linordered_field db" and t x
    using that by (auto simp: pg_auth_repository_def pg_insert_refresh_token_def pg_tokens_def find_None_iff split: if_splits)
qed

text \<open>
  C25. Presenting a rotated refresh token again ends its whole family for good: once a token has been exchanged for a new
  pair, whatever requests follow, a second use of it is refused as invalid, and from then on, whatever requests follow
  again, every token of that family - the one handed out in exchange and all that were rotated from it - is refused too,
  as long as new sessions draw family identifiers of their own.
\<close>

theorem reused_refresh_token_ends_family:
  fixes st :: "'d::linordered_field db auth_state"
  assumes "pg_ok (sv_repository st)" and "pg_tokens (sv_repository st) (hash_refresh_token ports token) = Some stored"
    and "auth_refresh ports cfg pg_auth_repository env1 token st = (st1, Inr pair)"
    and "\<forall>(env, call) \<in> set (calls1 @ calls2). rt_family_id stored \<noteq> rq_ids env 1 \<and> rt_family_id stored \<noteq> rq_ids env 2"
    and "auth_refresh ports cfg pg_auth_repository env2 token (auth_run ports cfg pg_auth_repository calls1 st1) = (st3, r)"
    and "pg_tokens (sv_repository (auth_run ports cfg pg_auth_repository calls2 st3)) (hash_refresh_token ports token') = Some t"
    and "rt_family_id t = rt_family_id stored"
  shows "r = Inl AuthTokenInvalid
    \<and> snd (auth_refresh ports cfg pg_auth_repository env3 token' (auth_run ports cfg pg_auth_repository calls2 st3)) = Inl AuthTokenInvalid"
  using pg.reuse_ends_family [OF assms] by simp

section \<open>What every request keeps of the store\<close>

lemma is_whitespace_lower [simp]: "is_whitespace (ascii_lower c) = is_whitespace c"
  by (auto simp: is_whitespace_def ascii_lower_def Let_def)

lemma ascii_lower_idem [simp]: "ascii_lower (ascii_lower c) = ascii_lower c"
  by (auto simp: ascii_lower_def Let_def)

lemma trim_map_lower: "trim (map ascii_lower s) = map ascii_lower (trim s)"
  by (simp add: trim_def dropWhile_map rev_map o_def)

lemma normalize_email_idem [simp]: "normalize_email (normalize_email e) = normalize_email e"
  by (simp add: normalize_email_def trim_map_lower)

text \<open>A predicate on the store that each command keeps, new users having a normal, valid email.\<close>

locale store_invariant =
  fixes repo :: "'s auth_repository" and J :: "'s \<Rightarrow> bool"
  assumes create_keeps: "J s \<Longrightarrow> is_valid_email (cu_email input) \<Longrightarrow> normalize_email (cu_email input) = cu_email input \<Longrightarrow>
      create_user repo input s = (s', u) \<Longrightarrow> J s'"
    and insert_keeps: "J s \<Longrightarrow> insert_refresh_token repo t s = (s', x) \<Longrightarrow> J s'"
    and revoke_keeps: "J s \<Longrightarrow> revoke_refresh_token repo i now s = (s', x) \<Longrightarrow> J s'"
    and revoke_family_keeps: "J s \<Longrightarrow> revoke_refresh_family repo i now s = (s', x) \<Longrightarrow> J s'"
begin

lemma mint_keeps:
  "J (sv_repository st) \<Longrightarrow> mint_and_store_pair_with_family ports cfg repo random now u sid f i k j st = (st', r) \<Longrightarrow> J (sv_repository st')"
  by (auto simp: mint_and_store_pair_with_family_def split: sum.splits prod.splits dest: insert_keeps)

lemma signup_keeps:
  assumes "J (sv_repository st)" and "auth_signup ports cfg repo env input st = (st', r)"
  shows "J (sv_repository st')"
  using assms(2)
proof (cases rule: auth_signup_cases)
  case (created p s u)
  with create_keeps [OF assms(1) _ _ created(2)] show ?thesis by simp
next
  case (minted p s u)
  with create_keeps [OF assms(1) _ _ minted(2)] mint_keeps [OF _ minted(3)] show ?thesis by simp
qed (use assms in simp)

lemma login_keeps:
  assumes "J (sv_repository st)" and "auth_login ports cfg repo env input ip_key st = (st', r)"
  shows "J (sv_repository st')"
  using assms(2)
proof (cases rule: auth_login_repository)
  case (minted u st2 r3)
  with mint_keeps [OF _ minted(2)] assms(1) show ?thesis by simp
qed (use assms in simp)

lemma refresh_keeps:
  assumes "J (sv_repository st)" and "auth_refresh ports cfg repo env token st = (st', r)"
  shows "J (sv_repository st')"
proof (rule ccontr)
  assume no: "\<not> J (sv_repository st')"
  with assms show False
    by (auto simp: auth_refresh_def Let_def split: sum.splits option.splits if_splits prod.splits
        dest: revoke_keeps revoke_family_keeps dest!: mint_keeps [rotated])
qed

lemma step_keeps: "J (sv_repository st) \<Longrightarrow> J (sv_repository (auth_step ports cfg repo c st))"
  using signup_keeps [OF _ prod.collapse [symmetric]] login_keeps [OF _ prod.collapse [symmetric]]
    refresh_keeps [OF _ prod.collapse [symmetric]]
  by (auto simp: auth_step_def split: prod.split auth_call.split)

lemma run_keeps: "J (sv_repository st) \<Longrightarrow> J (sv_repository (auth_run ports cfg repo calls st))"
  by (induction calls arbitrary: st) (simp_all add: auth_run_def step_keeps)

end

section \<open>Accounts\<close>

definition emails_ok :: "'d db \<Rightarrow> bool" where
  "emails_ok db \<longleftrightarrow> pg_ok db \<and> (\<forall>u \<in> set (db_users db). is_valid_email (us_email u) \<and> normalize_email (us_email u) = us_email u)"

interpretation emails: store_invariant pg_auth_repository emails_ok
proof
  fix db db' :: "'d::linordered_field db" and input u
  assume ok: "emails_ok db" and email: "is_valid_email (cu_email input)" "normalize_email (cu_email input) = cu_email input"
    and made: "create_user pg_auth_repository input db = (db', u)"
  show "emails_ok db'"
  proof (cases u)
    case (Inl e)
    with made have "db' = db" using pg.create_user_Inl by blast
    with ok show ?thesis by simp
  next
    case (Inr v)
    with ok made have "pg_ok db'" using pg_create_user_Inr [of db input db' v] by (simp add: emails_ok_def pg_auth_repository_def)
    with ok email made show ?thesis
      by (auto simp: emails_ok_def pg_auth_repository_def pg_create_user_def Let_def split: if_splits)
  qed
next
  fix db db' :: "'d::linordered_field db" and t x
  assume ok: "emails_ok db" and ins: "insert_refresh_token pg_auth_repository t db = (db', x)"
  then have "db_users db' = db_users db" by (auto simp: pg_auth_repository_def pg_insert_refresh_token_def split: if_splits)
  moreover have "pg_ok db'"
    using ok ins pg.insert_token_Inl [of t db db'] pg.insert_token_Inr [of db t db'] by (cases x) (auto simp: emails_ok_def)
  ultimately show "emails_ok db'" using ok by (simp add: emails_ok_def)
next
  fix db db' :: "'d::linordered_field db" and i now x
  assume ok: "emails_ok db" and "revoke_refresh_token pg_auth_repository i now db = (db', x)"
  with pg.revoke_token [of db i now db' x] show "emails_ok db'"
    by (auto simp: emails_ok_def pg_auth_repository_def pg_revoke_refresh_token_def)
next
  fix db db' :: "'d::linordered_field db" and i now x
  assume ok: "emails_ok db" and "revoke_refresh_family pg_auth_repository i now db = (db', x)"
  with pg.revoke_family [of db i now db' x] show "emails_ok db'"
    by (auto simp: emails_ok_def pg_auth_repository_def pg_revoke_refresh_family_def)
qed


text \<open>
  C27. The credentials a signup accepts log in: after a successful signup, a login with the same password and any
  spelling of the email that normalises to the same address, not locked out, is answered with tokens for the new
  account whenever the token pair can be minted and its row has an unused id and hash.
\<close>

theorem signup_then_login:
  fixes st :: "'d::linordered_field db auth_state"
  assumes ok: "pg_ok (sv_repository st)" and signup: "auth_signup ports cfg pg_auth_repository env input st = (st1, Inr pair)"
    and argon2: "\<forall>password salt hash. pt_hash_password ports password salt = Some hash \<longrightarrow> pt_verify_password ports password hash = Some True"
    and same: "normalize_email (li_email login) = normalize_email (si_email input)" "li_password login = si_password input"
    and allowed: "\<not> is_locked (normalize_email (si_email input)) ip_key (attempts_prune (rq_clock env' 0) (sv_attempts st1))"
    and mint: "mint_pair ports cfg (rq_random env') (rq_clock env' 1) (rq_ids env 0) (rq_ids env' 0) 0 (rq_ids env' 3) = Inr pair'"
    and new: "\<forall>t \<in> set (db_refresh_tokens (sv_repository st1)). rr_id t \<noteq> rq_ids env' 2 \<and> rr_token_hash t \<noteq> tp_refresh_token_hash pair'"
  shows "snd (auth_login ports cfg pg_auth_repository env' login ip_key st1) = Inr (Tokens pair')"
proof -
  let ?e = "normalize_email (si_email input)"
  define st2 where "st2 = clear_login_failures ?e ip_key (st1\<lparr>sv_attempts := attempts_prune (rq_clock env' 0) (sv_attempts st1)\<rparr>)"
  have "\<exists>u p. is_valid_email ?e \<and> pt_hash_password ports (si_password input) (rq_salt env) = Some p
      \<and> u = new_user \<lparr>cu_id = rq_ids env 0, cu_email = ?e, cu_password_hash = p\<rparr> \<and> pg_logins (sv_repository st1) ?e = Some u"
    using signup
  proof (cases rule: auth_signup_cases)
    case (minted p s u)
    note fresh = pg.create_user_new [OF ok minted(2)]
    note made = pg.create_user_Inr [OF ok fresh minted(2)] and login = pg.created_login [OF ok fresh minted(2)]
    have "pg_ok (sv_repository st1) \<and> pg_users (sv_repository st1) = pg_users s"
      using pg.mint_keeps_users [OF _ minted(3)] made by simp
    then have "pg_logins (sv_repository st1) = pg_logins s" using pg.logins_cong made by blast
    with minted(1,4) made login show ?thesis by simp
  qed simp_all
  then obtain u p where valid: "is_valid_email ?e" and hash: "pt_hash_password ports (si_password input) (rq_salt env) = Some p"
    and u: "u = new_user \<lparr>cu_id = rq_ids env 0, cu_email = ?e, cu_password_hash = p\<rparr>"
    and login: "pg_logins (sv_repository st1) ?e = Some u" by blast
  have sel: "au_id u = rq_ids env 0" "au_status u = Active" "au_kyc_level u = 0" "\<not> au_totp_enabled u" "au_password_hash u = p"
    by (simp_all add: u new_user_def)
  have repo: "sv_repository st2 = sv_repository st1" by (simp add: st2_def clear_login_failures_def)
  have "verify_login ports pg_auth_repository ?e (li_password login) (sv_repository st1) = Inr u"
    using argon2 hash sel by (simp add: verify_login_def pg.find_user_by_email login same)
  moreover have "\<exists>r \<in> set (db_users (sv_repository st1)). us_id r = rq_ids env 0"
    using login sel(1) by (auto simp: pg_logins_def user_of_row_def dest!: find_SomeD)
  then have "snd (mint_and_store_pair_with_family ports cfg pg_auth_repository (rq_random env') (rq_clock env' 1) (au_id u) (rq_ids env' 0)
      (rq_ids env' 1) (rq_ids env' 2) (au_kyc_level u) (rq_ids env' 3) st2) = Inr pair'"
    using mint new by (auto simp: mint_and_store_pair_with_family_def sel repo pg_auth_repository_def pg_insert_refresh_token_def)
  ultimately show ?thesis using valid allowed sel(4)
    by (auto simp: auth_login_def normalised_email_or_error_def same ensure_login_allowed_def Let_def st2_def split: prod.splits sum.splits)
qed

section \<open>Witnesses\<close>

definition sample_auth_ports :: auth_ports where
  "sample_auth_ports =
     \<lparr>pt_hash_password = (\<lambda>password salt. Some (CHR ''h'' # password)),
      pt_verify_password = (\<lambda>password hash. Some (hash = CHR ''h'' # password)),
      pt_checked_add = (\<lambda>now seconds. Some (now + seconds)),
      pt_encode_access = (\<lambda>secret claims. Some ''jwt''), pt_encode_mfa = (\<lambda>secret claims. Some ''mfa''),
      pt_sha256 = (\<lambda>token. [of_nat (length token)]), pt_base64_url = (\<lambda>bytes. replicate (length bytes) (CHR ''A'')),
      pt_missing_json = concat\<rparr>"

definition sample_token_config :: token_config where
  "sample_token_config =
     \<lparr>tc_jwt_secret = ''secret'', tc_access_token_ttl = 900, tc_mfa_token_ttl = 300, tc_refresh_token_ttl = 2592000\<rparr>"

definition sample_env :: "nat \<Rightarrow> nat \<Rightarrow> request_env" where
  "sample_env base n = \<lparr>rq_ids = (\<lambda>k. of_nat (base + k)), rq_clock = (\<lambda>k. 1000), rq_salt = [], rq_random = replicate n 0\<rparr>"

definition sample_user_row :: user_row where
  "sample_user_row = \<lparr>us_id = 1, us_email = ''ann@example.com'', us_password_hash = ''hsecret'', us_status = ''active'', us_kyc_level = 0,
     us_email_verified = False, us_totp_enabled = False, us_totp_secret_encrypted = None, us_is_admin = False, us_is_mm = False\<rparr>"

definition sample_token_row :: "uuid \<Rightarrow> string \<Rightarrow> int option \<Rightarrow> refresh_token_row" where
  "sample_token_row i hash revoked = \<lparr>rr_id = i, rr_user_id = 1, rr_session_id = 8, rr_token_hash = hash, rr_family_id = 7,
     rr_expires_at = 2593000, rr_revoked_at = revoked\<rparr>"

definition sample_auth_state :: "user_row list \<Rightarrow> refresh_token_row list \<Rightarrow> real db auth_state" where
  "sample_auth_state users tokens =
     \<lparr>sv_repository = \<lparr>db_users = users, db_refresh_tokens = tokens, db_assets = [], db_markets = [], db_balances = [], db_orders = [],
        db_trades = [], db_ledger_entries = [], db_deposits = [], db_engine_events = [], db_worker_state = [], db_api_keys = [], db_audit_log = [], db_klines = []\<rparr>,
      sv_attempts = \<lparr>la_by_email = Map.empty, la_by_ip = Map.empty\<rparr>\<rparr>"

lemma sample_hashes: "hash_refresh_token sample_auth_ports [] = ''00''" "hash_refresh_token sample_auth_ports ''A'' = ''01''"
  by code_simp+

lemma sample_email: "normalize_email '' Ann@Example.com'' = ''ann@example.com''" "normalize_email ''ann@example.com'' = ''ann@example.com''"
  "is_valid_email ''ann@example.com''"
  by code_simp+

definition sample_attempts :: "32 word \<Rightarrow> login_attempts" where
  "sample_attempts c = \<lparr>la_by_email = [''ann@example.com'' \<mapsto> \<lparr>fw_count = c, fw_first_failure_at = 1000\<rparr>],
     la_by_ip = [''10.0.0.1'' \<mapsto> \<lparr>fw_count = c, fw_first_failure_at = 1000\<rparr>]\<rparr>"

definition sample_guess :: "request_env \<times> login_input \<times> string" where
  "sample_guess = (sample_env 10 0, \<lparr>li_email = '' Ann@Example.com'', li_password = ''guess''\<rparr>, ''10.0.0.1'')"

abbreviation sample_login :: "real db auth_state \<Rightarrow> real db auth_state \<times> (auth_error + login_outcome)" where
  "sample_login \<equiv> auth_login sample_auth_ports sample_token_config pg_auth_repository (sample_env 10 0)
     \<lparr>li_email = '' Ann@Example.com'', li_password = ''guess''\<rparr> ''10.0.0.1''"

abbreviation sample_registered :: "real db auth_state" where
  "sample_registered \<equiv> sample_auth_state [sample_user_row] []"

lemma sample_prune: "attempts_prune 1000 (sample_attempts c) = sample_attempts c"
  "attempts_prune 1000 \<lparr>la_by_email = Map.empty, la_by_ip = Map.empty\<rparr> = \<lparr>la_by_email = Map.empty, la_by_ip = Map.empty\<rparr>"
  by (auto simp: attempts_prune_def retain_recent_def sample_attempts_def LOGIN_WINDOW_SECONDS_def)

lemma sample_verify: "verify_login sample_auth_ports pg_auth_repository ''ann@example.com'' ''guess'' (sv_repository sample_registered) = Inl AuthInvalidCredentials"
  by (simp add: verify_login_def pg_auth_repository_def pg_find_user_by_email_def sample_auth_state_def sample_user_row_def
      user_of_row_def from_db_def sample_auth_ports_def)

lemma sample_bad_login:
  assumes "\<not> is_locked ''ann@example.com'' ''10.0.0.1'' attempts" and "attempts_prune 1000 attempts = attempts"
  shows "sample_login (sample_registered\<lparr>sv_attempts := attempts\<rparr>) =
    (sample_registered\<lparr>sv_attempts := attempts_record ''ann@example.com'' ''10.0.0.1'' 1000 attempts\<rparr>, Inl AuthInvalidCredentials)"
  using assms sample_verify
  by (simp add: auth_login_def normalised_email_or_error_def sample_email Let_def ensure_login_allowed_def sample_env_def record_login_failure_def)

lemma sample_records:
  "attempts_record ''ann@example.com'' ''10.0.0.1'' 1000 \<lparr>la_by_email = Map.empty, la_by_ip = Map.empty\<rparr> = sample_attempts 1"
  "attempts_record ''ann@example.com'' ''10.0.0.1'' 1000 (sample_attempts 1) = sample_attempts 2"
  "attempts_record ''ann@example.com'' ''10.0.0.1'' 1000 (sample_attempts 2) = sample_attempts 3"
  "attempts_record ''ann@example.com'' ''10.0.0.1'' 1000 (sample_attempts 3) = sample_attempts 4"
  "attempts_record ''ann@example.com'' ''10.0.0.1'' 1000 (sample_attempts 4) = sample_attempts 5"
  by (simp_all add: attempts_record_def bump_def increment_window_def sample_attempts_def)

lemma sample_locks: "is_locked ''ann@example.com'' ''10.0.0.1'' (sample_attempts c) \<longleftrightarrow> 5 \<le> unat c"
  "\<not> is_locked ''ann@example.com'' ''10.0.0.1'' \<lparr>la_by_email = Map.empty, la_by_ip = Map.empty\<rparr>"
  by (simp_all add: is_locked_def sample_attempts_def MAX_LOGIN_FAILURES_def word_le_nat_alt)

lemma sample_locked_login: "snd (sample_login (sample_registered\<lparr>sv_attempts := sample_attempts 5\<rparr>)) = Inl AuthTooManyAttempts"
  by (simp add: auth_login_def normalised_email_or_error_def sample_email Let_def ensure_login_allowed_def sample_env_def sample_prune sample_locks)

lemma sample_registered_attempts: "sample_registered = sample_registered\<lparr>sv_attempts := \<lparr>la_by_email = Map.empty, la_by_ip = Map.empty\<rparr>\<rparr>"
  by (simp add: sample_auth_state_def)

lemma sample_guesses_run:
  "login_run sample_auth_ports sample_token_config pg_auth_repository (replicate 6 sample_guess) sample_registered =
     replicate 5 (Inl AuthInvalidCredentials) @ [Inl AuthTooManyAttempts]"
proof -
  obtain st' where last: "sample_login (sample_registered\<lparr>sv_attempts := sample_attempts 5\<rparr>) = (st', Inl AuthTooManyAttempts)"
    using sample_locked_login by (metis prod.collapse)
  have rep: "replicate 6 x = [x, x, x, x, x, x]" "replicate 5 x = [x, x, x, x, x]" for x :: 'a by (simp_all add: numeral_eq_Suc)
  show ?thesis
    unfolding sample_guess_def rep
    by (subst sample_registered_attempts)
      (simp add: sample_bad_login sample_prune sample_locks sample_records last)
qed


lemma sample_rotation:
  "auth_refresh sample_auth_ports sample_token_config pg_auth_repository (sample_env 20 1) []
     (sample_auth_state [sample_user_row] [sample_token_row 9 ''00'' None]) =
   (sample_auth_state [sample_user_row] [sample_token_row 9 ''00'' (Some 1000), sample_token_row 20 ''01'' None],
    Inr \<lparr>tp_access_token = ''jwt'', tp_refresh_token = ''A'', tp_refresh_token_hash = ''01'', tp_refresh_expires_at = 2593000, tp_expires_in = 900\<rparr>)"
  using sample_hashes
  by (simp add: auth_refresh_def pg_auth_repository_def pg_find_refresh_token_def sample_auth_state_def sample_token_row_def token_of_row_def
      Let_def sample_env_def pg_find_user_by_id_def sample_user_row_def user_of_row_def from_db_def pg_revoke_refresh_token_def update_rows_def
      revoke_row_def mint_and_store_pair_with_family_def mint_pair_def add_duration_def sample_token_config_def sample_auth_ports_def
      pg_insert_refresh_token_def)

lemma sample_reuse:
  "auth_refresh sample_auth_ports sample_token_config pg_auth_repository (sample_env 30 2) []
     (sample_auth_state [sample_user_row] [sample_token_row 9 ''00'' (Some 1000), sample_token_row 20 ''01'' None]) =
   (sample_auth_state [sample_user_row] [sample_token_row 9 ''00'' (Some 1000), sample_token_row 20 ''01'' (Some 1000)], Inl AuthTokenInvalid)"
  using sample_hashes(1)
  by (simp add: auth_refresh_def pg_auth_repository_def pg_find_refresh_token_def sample_auth_state_def sample_token_row_def token_of_row_def
      Let_def sample_env_def pg_revoke_refresh_family_def update_rows_def revoke_row_def)

theorem reused_refresh_token_ends_family_witness:
  "snd (auth_refresh sample_auth_ports sample_token_config pg_auth_repository (sample_env 40 3) ''A''
     (sample_auth_state [sample_user_row] [sample_token_row 9 ''00'' (Some 1000), sample_token_row 20 ''01'' (Some 1000)])) = Inl AuthTokenInvalid"
proof -
  let ?row = "token_of_row (sample_token_row 9 ''00'' None)" and ?row' = "token_of_row (sample_token_row 20 ''01'' (Some 1000))"
  let ?st = "sample_auth_state [sample_user_row] [sample_token_row 9 ''00'' None]"
  let ?st3 = "sample_auth_state [sample_user_row] [sample_token_row 9 ''00'' (Some 1000), sample_token_row 20 ''01'' (Some 1000)]"
  have "pg_ok (sv_repository ?st)" by (simp add: pg_ok_def sample_auth_state_def)
  moreover have "pg_tokens (sv_repository ?st) (hash_refresh_token sample_auth_ports []) = Some ?row"
    by (simp add: pg_tokens_def sample_auth_state_def sample_hashes sample_token_row_def)
  moreover have "pg_tokens (sv_repository (auth_run sample_auth_ports sample_token_config pg_auth_repository [] ?st3))
      (hash_refresh_token sample_auth_ports ''A'') = Some ?row'"
    by (simp add: pg_tokens_def sample_auth_state_def sample_hashes sample_token_row_def auth_run_def)
  moreover have "rt_family_id ?row' = rt_family_id ?row" by (simp add: token_of_row_def sample_token_row_def)
  ultimately show ?thesis
    using reused_refresh_token_ends_family [where token = "[]" and token' = "''A''" and ?calls1.0 = "[]" and ?calls2.0 = "[]"
        and ports = sample_auth_ports and cfg = sample_token_config and ?env1.0 = "sample_env 20 1" and ?env2.0 = "sample_env 30 2"
        and ?env3.0 = "sample_env 40 3", OF _ _ sample_rotation]
      sample_reuse by (simp add: auth_run_def)
qed


lemma sample_signup_input:
  "normalised_email_or_error ''bob@example.com'' = Inr ''bob@example.com''" "password_policy_failures ''Correct-Horse-9'' = []"
  "normalize_email ''bob@example.com'' = ''bob@example.com''" "normalize_email ''BOB@example.com '' = ''bob@example.com''"
  by code_simp+

lemma sample_signup:
  "\<exists>db pair. auth_signup sample_auth_ports sample_token_config pg_auth_repository (sample_env 10 1)
     \<lparr>si_email = ''bob@example.com'', si_password = ''Correct-Horse-9''\<rparr> sample_registered =
     (\<lparr>sv_repository = db, sv_attempts = \<lparr>la_by_email = Map.empty, la_by_ip = Map.empty\<rparr>\<rparr>, Inr pair)
     \<and> map rr_id (db_refresh_tokens db) = [13] \<and> map rr_token_hash (db_refresh_tokens db) = [''01'']"
  using sample_hashes(2)
  by (simp add: auth_signup_def sample_signup_input Let_def sample_auth_ports_def pg_auth_repository_def pg_create_user_def
      sample_auth_state_def sample_user_row_def sample_env_def user_of_row_def from_db_def mint_and_store_pair_with_family_def
      mint_pair_def add_duration_def sample_token_config_def pg_insert_refresh_token_def seed_zero_balances_def)

theorem signup_then_login_witness:
  "\<exists>st1 pair. auth_signup sample_auth_ports sample_token_config pg_auth_repository (sample_env 10 1)
       \<lparr>si_email = ''bob@example.com'', si_password = ''Correct-Horse-9''\<rparr> sample_registered = (st1, Inr pair)
     \<and> (\<exists>pair'. snd (auth_login sample_auth_ports sample_token_config pg_auth_repository (sample_env 20 0)
            \<lparr>li_email = ''BOB@example.com '', li_password = ''Correct-Horse-9''\<rparr> ''10.0.0.1'' st1) = Inr (Tokens pair'))"
proof -
  obtain db pair where s: "auth_signup sample_auth_ports sample_token_config pg_auth_repository (sample_env 10 1)
      \<lparr>si_email = ''bob@example.com'', si_password = ''Correct-Horse-9''\<rparr> sample_registered =
      (\<lparr>sv_repository = db, sv_attempts = \<lparr>la_by_email = Map.empty, la_by_ip = Map.empty\<rparr>\<rparr>, Inr pair)"
    and db: "map rr_id (db_refresh_tokens db) = [13]" "map rr_token_hash (db_refresh_tokens db) = [''01'']"
    using sample_signup by (elim exE conjE) (rule that)
  let ?pair = "\<lparr>tp_access_token = ''jwt'', tp_refresh_token = [], tp_refresh_token_hash = ''00'', tp_refresh_expires_at = 2593000, tp_expires_in = 900\<rparr>"
  have "snd (auth_login sample_auth_ports sample_token_config pg_auth_repository (sample_env 20 0)
      \<lparr>li_email = ''BOB@example.com '', li_password = ''Correct-Horse-9''\<rparr> ''10.0.0.1''
      \<lparr>sv_repository = db, sv_attempts = \<lparr>la_by_email = Map.empty, la_by_ip = Map.empty\<rparr>\<rparr>) = Inr (Tokens ?pair)"
  proof (rule signup_then_login [OF _ s])
    show "pg_ok (sv_repository sample_registered)" by (simp add: pg_ok_def sample_auth_state_def)
    show "mint_pair sample_auth_ports sample_token_config (rq_random (sample_env 20 0)) (rq_clock (sample_env 20 0) 1) (rq_ids (sample_env 10 1) 0)
        (rq_ids (sample_env 20 0) 0) 0 (rq_ids (sample_env 20 0) 3) = Inr ?pair"
      using sample_hashes(1) by (simp add: mint_pair_def sample_auth_ports_def add_duration_def sample_token_config_def sample_env_def)
  qed (use db in \<open>auto simp: sample_signup_input sample_auth_ports_def sample_env_def is_locked_def attempts_prune_def retain_recent_def\<close>)
  with s show ?thesis by blast
qed

end
