(* ===== verification/Two_Factor.thy ===== *)
theory Two_Factor
  imports Api_Keys Auth_Safety
begin

text \<open>
  Two-factor authentication: the TOTP queries and the profile of \<open>services/api/src/repositories/account.rs\<close> and the endpoints of
  \<open>handlers/totp.rs\<close>. The TOTP library (base32, QR code, code check) is the parameter \<open>totp_ports\<close>; a \<open>TOTP\<close> value is
  the pair of its secret and its account name, the only arguments that vary.
\<close>

section \<open>Queries\<close>

record user_profile_row =
  up_id :: uuid
  up_email :: string
  up_status :: string
  up_kyc_level :: int
  up_email_verified :: bool
  up_totp_enabled :: bool
  up_is_admin :: bool

record user_for_auth =
  ua_id :: uuid
  ua_email :: string
  ua_password_hash :: string
  ua_totp_enabled :: bool

definition has_id :: "uuid \<Rightarrow> user_row \<Rightarrow> bool" where
  "has_id user_id u \<longleftrightarrow> us_id u = user_id"

definition get_profile :: "'d db \<Rightarrow> uuid \<Rightarrow> user_profile_row option" where
  "get_profile db user_id =
     map_option (\<lambda>u. \<lparr>up_id = us_id u, up_email = us_email u, up_status = us_status u, up_kyc_level = us_kyc_level u,
         up_email_verified = us_email_verified u, up_totp_enabled = us_totp_enabled u, up_is_admin = us_is_admin u\<rparr>)
       (List.find (has_id user_id) (db_users db))"

definition get_user_for_auth :: "'d db \<Rightarrow> uuid \<Rightarrow> user_for_auth option" where
  "get_user_for_auth db user_id =
     map_option (\<lambda>u. \<lparr>ua_id = us_id u, ua_email = us_email u, ua_password_hash = us_password_hash u, ua_totp_enabled = us_totp_enabled u\<rparr>)
       (List.find (has_id user_id) (db_users db))"

text \<open>A secret that does not decrypt is a database error (\<open>Inl\<close>).\<close>

definition decrypt_totp_secret :: "key_ports \<Rightarrow> 'd db \<Rightarrow> uuid \<Rightarrow> string \<Rightarrow> unit + string option" where
  "decrypt_totp_secret ports db user_id pgcrypto_key =
     (case List.find (\<lambda>u. has_id user_id u \<and> us_totp_secret_encrypted u \<noteq> None) (db_users db) of
        None \<Rightarrow> Inr None
      | Some u \<Rightarrow>
          (case kp_decrypt ports (the (us_totp_secret_encrypted u)) pgcrypto_key of None \<Rightarrow> Inl () | Some s \<Rightarrow> Inr (Some s)))"

definition update_user :: "uuid \<Rightarrow> (user_row \<Rightarrow> user_row) \<Rightarrow> 'd db \<Rightarrow> 'd db" where
  "update_user user_id f db = db\<lparr>db_users := update_rows (has_id user_id) f (db_users db)\<rparr>"

definition store_totp_secret :: "key_ports \<Rightarrow> u8 list \<Rightarrow> uuid \<Rightarrow> string \<Rightarrow> string \<Rightarrow> 'd db \<Rightarrow> 'd db" where
  "store_totp_secret ports salt user_id secret_base32 pgcrypto_key =
     update_user user_id (\<lambda>u. u\<lparr>us_totp_secret_encrypted := Some (kp_encrypt ports secret_base32 pgcrypto_key salt)\<rparr>)"

definition enable_totp :: "uuid \<Rightarrow> 'd db \<Rightarrow> 'd db" where
  "enable_totp user_id = update_user user_id (\<lambda>u. u\<lparr>us_totp_enabled := True\<rparr>)"

definition disable_totp :: "uuid \<Rightarrow> 'd db \<Rightarrow> 'd db" where
  "disable_totp user_id = update_user user_id (\<lambda>u. u\<lparr>us_totp_enabled := False, us_totp_secret_encrypted := None\<rparr>)"

section \<open>Endpoints\<close>

definition BACKUP_CODE_COUNT :: nat where
  "BACKUP_CODE_COUNT = 8"

type_synonym totp = "u8 list \<times> string"

record totp_ports =
  tp_new_ok :: "totp \<Rightarrow> bool"
  tp_to_base32 :: "u8 list \<Rightarrow> string"
  tp_to_bytes :: "string \<Rightarrow> u8 list option"
  tp_get_url :: "totp \<Rightarrow> string"
  tp_get_qr :: "totp \<Rightarrow> string option"
  tp_check_current :: "totp \<Rightarrow> int \<Rightarrow> string \<Rightarrow> bool option"

record totp_env =
  te_key_bytes :: "u8 list"
  te_salt :: "u8 list"
  te_backup_bytes :: "nat \<Rightarrow> u8 list"
  te_now :: int

definition build_totp :: "totp_ports \<Rightarrow> u8 list \<Rightarrow> string \<Rightarrow> uuid \<Rightarrow> api_error + totp" where
  "build_totp tports secret_bytes account_name request_id =
     (if tp_new_ok tports (secret_bytes, account_name) then Inr (secret_bytes, account_name) else Inl (with_request_id internal request_id))"

definition load_totp :: "key_ports \<Rightarrow> totp_ports \<Rightarrow> string \<Rightarrow> 'd db \<Rightarrow> uuid \<Rightarrow> string \<Rightarrow> uuid \<Rightarrow> api_error + totp" where
  "load_totp ports tports pgcrypto_key db user_id email request_id =
     (case decrypt_totp_secret ports db user_id pgcrypto_key of
        Inl _ \<Rightarrow> Inl (with_request_id internal request_id)
      | Inr None \<Rightarrow> Inl (api_fail 400 MfaInvalid ''TOTP setup not initiated; call /auth/2fa/setup first'' request_id)
      | Inr (Some secret_base32) \<Rightarrow>
          (case tp_to_bytes tports secret_base32 of
             None \<Rightarrow> Inl (with_request_id internal request_id)
           | Some secret_bytes \<Rightarrow> build_totp tports secret_bytes email request_id))"

record setup_totp_response =
  sr_secret :: string
  sr_otp_auth_uri :: string
  sr_qr :: string

definition setup_totp_endpoint ::
  "key_ports \<Rightarrow> totp_ports \<Rightarrow> string \<Rightarrow> totp_env \<Rightarrow> uuid \<Rightarrow> uuid \<Rightarrow> 'd db \<Rightarrow> 'd db \<times> (api_error + setup_totp_response)" where
  "setup_totp_endpoint ports tports pgcrypto_key env user_id request_id db =
     (case get_profile db user_id of
        None \<Rightarrow> (db, Inl (api_fail 404 NotFound ''User not found'' request_id))
      | Some profile \<Rightarrow>
          if up_totp_enabled profile then (db, Inl (api_fail 409 Forbidden ''2FA is already enabled; disable it first'' request_id))
          else
            (let secret_base32 = tp_to_base32 tports (te_key_bytes env)
             in case build_totp tports (te_key_bytes env) (up_email profile) request_id of
                  Inl e \<Rightarrow> (db, Inl e)
                | Inr totp \<Rightarrow>
                    (case tp_get_qr tports totp of
                       None \<Rightarrow> (db, Inl (with_request_id internal request_id))
                     | Some qr_base64 \<Rightarrow>
                         (store_totp_secret ports (te_salt env) user_id secret_base32 pgcrypto_key db,
                          Inr \<lparr>sr_secret = secret_base32, sr_otp_auth_uri = tp_get_url tports totp,
                               sr_qr = ''data:image/png;base64,'' @ qr_base64\<rparr>))))"

definition generate_backup_codes :: "key_ports \<Rightarrow> totp_env \<Rightarrow> string list" where
  "generate_backup_codes ports env = map (\<lambda>n. kp_base64_url ports (te_backup_bytes env n)) [0..<BACKUP_CODE_COUNT]"

text \<open>The code check shared by the two endpoints below.\<close>

definition check_code ::
  "key_ports \<Rightarrow> totp_ports \<Rightarrow> string \<Rightarrow> totp_env \<Rightarrow> 'd db \<Rightarrow> uuid \<Rightarrow> string \<Rightarrow> string \<Rightarrow> uuid \<Rightarrow> api_error option" where
  "check_code ports tports pgcrypto_key env db user_id email code request_id =
     (case load_totp ports tports pgcrypto_key db user_id email request_id of
        Inl e \<Rightarrow> Some e
      | Inr totp \<Rightarrow>
          (case tp_check_current tports totp (te_now env) code of
             None \<Rightarrow> Some (with_request_id internal request_id)
           | Some valid \<Rightarrow> if valid then None else Some (api_fail 401 MfaInvalid ''Invalid TOTP code'' request_id)))"

definition verify_totp_endpoint ::
  "key_ports \<Rightarrow> totp_ports \<Rightarrow> string \<Rightarrow> totp_env \<Rightarrow> uuid \<Rightarrow> uuid \<Rightarrow> string option \<Rightarrow> 'd db \<Rightarrow> 'd db \<times> (api_error + string list)" where
  "verify_totp_endpoint ports tports pgcrypto_key env user_id request_id payload db =
     (case payload of
        None \<Rightarrow> (db, Inl (api_fail 400 Internal ''Invalid JSON'' request_id))
      | Some code \<Rightarrow>
          (case get_profile db user_id of
             None \<Rightarrow> (db, Inl (api_fail 404 NotFound ''User not found'' request_id))
           | Some profile \<Rightarrow>
               if up_totp_enabled profile then (db, Inl (api_fail 409 Forbidden ''2FA is already enabled'' request_id))
               else
                 (case check_code ports tports pgcrypto_key env db user_id (up_email profile) code request_id of
                    Some e \<Rightarrow> (db, Inl e)
                  | None \<Rightarrow> (enable_totp user_id db, Inr (generate_backup_codes ports env)))))"

definition disable_totp_endpoint ::
  "key_ports \<Rightarrow> totp_ports \<Rightarrow> auth_ports \<Rightarrow> string \<Rightarrow> totp_env \<Rightarrow> uuid \<Rightarrow> uuid \<Rightarrow> (string \<times> string) option \<Rightarrow> 'd db \<Rightarrow>
     'd db \<times> (api_error + nat)" where
  "disable_totp_endpoint ports tports aports pgcrypto_key env user_id request_id payload db =
     (case payload of
        None \<Rightarrow> (db, Inl (api_fail 400 Internal ''Invalid JSON'' request_id))
      | Some (code, password) \<Rightarrow>
          (case get_user_for_auth db user_id of
             None \<Rightarrow> (db, Inl (api_fail 404 NotFound ''User not found'' request_id))
           | Some user \<Rightarrow>
               (case pt_verify_password aports password (ua_password_hash user) of
                  None \<Rightarrow> (db, Inl (with_request_id internal request_id))
                | Some password_ok \<Rightarrow>
                    if \<not> password_ok then (db, Inl (api_fail 401 InvalidCredentials ''Invalid password'' request_id))
                    else if \<not> ua_totp_enabled user then (db, Inl (api_fail 409 Forbidden ''2FA is not enabled'' request_id))
                    else
                      (case check_code ports tports pgcrypto_key env db user_id (ua_email user) code request_id of
                         Some e \<Rightarrow> (db, Inl e)
                       | None \<Rightarrow> (disable_totp user_id db, Inr 204)))))"

section \<open>The invariant\<close>

definition totp_inv :: "'d db \<Rightarrow> bool" where
  "totp_inv db \<longleftrightarrow> distinct (map us_id (db_users db)) \<and> (\<forall>u \<in> set (db_users db). us_totp_enabled u \<longrightarrow> us_totp_secret_encrypted u \<noteq> None)"

datatype totp_call = SetupTotp | VerifyTotp "string option" | DisableTotp "(string \<times> string) option"

definition totp_step ::
  "key_ports \<Rightarrow> totp_ports \<Rightarrow> auth_ports \<Rightarrow> string \<Rightarrow> totp_env \<Rightarrow> uuid \<Rightarrow> uuid \<Rightarrow> totp_call \<Rightarrow> 'd db \<Rightarrow> 'd db" where
  "totp_step ports tports aports pgcrypto_key env caller request_id call db =
     (case call of
        SetupTotp \<Rightarrow> fst (setup_totp_endpoint ports tports pgcrypto_key env caller request_id db)
      | VerifyTotp payload \<Rightarrow> fst (verify_totp_endpoint ports tports pgcrypto_key env caller request_id payload db)
      | DisableTotp payload \<Rightarrow> fst (disable_totp_endpoint ports tports aports pgcrypto_key env caller request_id payload db))"

lemma find_id_iff:
  assumes "distinct (map us_id users)"
  shows "List.find (has_id i) users = Some u \<longleftrightarrow> u \<in> set users \<and> us_id u = i"
  using assms by (induction users) (auto simp: has_id_def)

lemma update_user_find:
  assumes "\<And>u. us_id (f u) = us_id u"
  shows "List.find (has_id i) (db_users (update_user j f db)) = map_option (if i = j then f else id) (List.find (has_id i) (db_users db))"
proof -
  have "List.find (has_id i) (update_rows (has_id j) f users) = map_option (if i = j then f else id) (List.find (has_id i) users)" for users
    by (induction users) (auto simp: update_rows_def has_id_def assms)
  then show ?thesis by (simp add: update_user_def)
qed

lemma update_user_ids:
  assumes "\<And>u. us_id (f u) = us_id u"
  shows "map us_id (db_users (update_user j f db)) = map us_id (db_users db)"
  by (simp add: update_user_def update_rows_def assms)

lemma totp_inv_find:
  "totp_inv db \<longleftrightarrow> distinct (map us_id (db_users db))
    \<and> (\<forall>i u. List.find (has_id i) (db_users db) = Some u \<longrightarrow> us_totp_enabled u \<longrightarrow> us_totp_secret_encrypted u \<noteq> None)"
  unfolding totp_inv_def using find_id_iff by blast

text \<open>What a successful code check says about the row of the caller.\<close>

lemma check_code_None:
  assumes "distinct (map us_id (db_users db))" and "List.find (has_id i) (db_users db) = Some u"
    and "check_code ports tports pk env db i (us_email u) code rq = None"
  shows "\<exists>cipher secret bytes. us_totp_secret_encrypted u = Some cipher \<and> kp_decrypt ports cipher pk = Some secret
    \<and> tp_to_bytes tports secret = Some bytes \<and> tp_check_current tports (bytes, us_email u) (te_now env) code = Some True"
proof -
  have u: "u \<in> set (db_users db)" "us_id u = i" using assms(2) find_id_iff [OF assms(1)] by blast+
  have row: "v = u \<and> (\<exists>y. us_totp_secret_encrypted v = Some y)"
    if "List.find (\<lambda>v. has_id i v \<and> (\<exists>y. us_totp_secret_encrypted v = Some y)) (db_users db) = Some v" for v
    using find_SomeD [OF that] u assms(1) by (auto simp: has_id_def distinct_map dest: inj_onD)
  from assms(3) show ?thesis
    by (auto simp: check_code_def load_totp_def decrypt_totp_secret_def build_totp_def
        split: sum.split_asm option.split_asm if_split_asm dest: row)
qed

lemma totp_step_cases:
  assumes "totp_step ports tports aports pk env caller rq call db = db'"
  obtains (same) "db' = db"
  | (stored) cipher u where "List.find (has_id caller) (db_users db) = Some u" "\<not> us_totp_enabled u"
      "db' = update_user caller (\<lambda>u. u\<lparr>us_totp_secret_encrypted := Some cipher\<rparr>) db"
  | (enable) code u where "call = VerifyTotp (Some code)" "List.find (has_id caller) (db_users db) = Some u" "\<not> us_totp_enabled u"
      "check_code ports tports pk env db caller (us_email u) code rq = None" "db' = enable_totp caller db"
  | (disable) code password u where "call = DisableTotp (Some (code, password))" "List.find (has_id caller) (db_users db) = Some u"
      "us_totp_enabled u" "pt_verify_password aports password (us_password_hash u) = Some True"
      "check_code ports tports pk env db caller (us_email u) code rq = None" "db' = disable_totp caller db"
proof (cases call)
  case SetupTotp
  with assms have "fst (setup_totp_endpoint ports tports pk env caller rq db) = db'" by (simp add: totp_step_def)
  then show ?thesis
    by (auto simp: setup_totp_endpoint_def get_profile_def store_totp_secret_def Let_def
        split: option.split_asm if_split_asm sum.split_asm intro: same stored)
next
  case (VerifyTotp payload)
  with assms have "fst (verify_totp_endpoint ports tports pk env caller rq payload db) = db'" by (simp add: totp_step_def)
  with VerifyTotp show ?thesis
    by (auto simp: verify_totp_endpoint_def get_profile_def split: option.split_asm if_split_asm intro: same enable)
next
  case (DisableTotp payload)
  with assms have "fst (disable_totp_endpoint ports tports aports pk env caller rq payload db) = db'" by (simp add: totp_step_def)
  with DisableTotp show ?thesis
    by (auto simp: disable_totp_endpoint_def get_user_for_auth_def split: option.split_asm if_split_asm prod.split_asm intro: same disable)
qed

lemma totp_step_inv:
  assumes inv: "totp_inv db"
  shows "totp_inv (totp_step ports tports aports pk env caller rq call db)"
proof (rule totp_step_cases [OF refl, of ports tports aports pk env caller rq call db])
  fix cipher u
  let ?f = "\<lambda>u. u\<lparr>us_totp_secret_encrypted := Some cipher\<rparr>"
  assume "totp_step ports tports aports pk env caller rq call db = update_user caller ?f db"
  with inv show ?thesis by (auto simp: totp_inv_find update_user_find update_user_ids split: if_splits)
next
  fix code u
  assume u: "List.find (has_id caller) (db_users db) = Some u" "check_code ports tports pk env db caller (us_email u) code rq = None"
    and step: "totp_step ports tports aports pk env caller rq call db = enable_totp caller db"
  from check_code_None [OF _ u] inv have "us_totp_secret_encrypted u \<noteq> None" by (auto simp: totp_inv_def)
  with inv u(1) show ?thesis
    unfolding step enable_totp_def by (auto simp: totp_inv_find update_user_find update_user_ids split: if_splits)
next
  assume "totp_step ports tports aports pk env caller rq call db = disable_totp caller db"
  with inv show ?thesis
    unfolding disable_totp_def by (auto simp: totp_inv_find update_user_find update_user_ids split: if_splits)
qed (simp add: inv)

interpretation two_factor: store_invariant pg_auth_repository totp_inv
proof
  fix db db' :: "'d::linordered_field db" and input u
  assume "totp_inv db" and "create_user pg_auth_repository input db = (db', u)"
  then show "totp_inv db'"
    by (fastforce simp: pg_auth_repository_def pg_create_user_def Let_def totp_inv_def split: if_splits)
qed (auto simp: pg_auth_repository_def pg_insert_refresh_token_def pg_revoke_refresh_token_def pg_revoke_refresh_family_def
      totp_inv_def split: if_splits)

text \<open>Requests of the account endpoints in any order: authentication and two-factor calls.\<close>

datatype account_call = Authenticate request_env auth_call | TwoFactor totp_env uuid uuid totp_call

definition account_step ::
  "key_ports \<Rightarrow> totp_ports \<Rightarrow> auth_ports \<Rightarrow> token_config \<Rightarrow> string \<Rightarrow> account_call \<Rightarrow> 'd::linordered_field db auth_state \<Rightarrow> 'd db auth_state" where
  "account_step ports tports aports cfg pgcrypto_key call st =
     (case call of
        Authenticate env c \<Rightarrow> auth_step aports cfg pg_auth_repository (env, c) st
      | TwoFactor env caller rq c \<Rightarrow> st\<lparr>sv_repository := totp_step ports tports aports pgcrypto_key env caller rq c (sv_repository st)\<rparr>)"

lemma account_step_inv:
  "totp_inv (sv_repository st) \<Longrightarrow> totp_inv (sv_repository (account_step ports tports aports cfg pk call st))"
  by (cases call) (simp_all add: account_step_def totp_step_inv two_factor.step_keeps)

text \<open>
  C30. The two-factor flag of an account is guarded: whatever authentication and two-factor requests ran before, a request that turns
  the flag of a user on is that user's own and carries a code valid for the secret stored; one that turns it off carries the user's
  password as well; and as long as the flag is on, the secret cannot be replaced.
\<close>

theorem two_factor_flag_guarded:
  fixes st :: "'d::linordered_field db auth_state"
  assumes "totp_inv (sv_repository st)"
    and "db = sv_repository (fold (account_step ports tports aports cfg pk) calls st)"
    and "List.find (has_id v) (db_users db) = Some u"
    and "List.find (has_id v) (db_users (totp_step ports tports aports pk env caller rq call db)) = Some u'"
  shows "(us_totp_enabled u' \<noteq> us_totp_enabled u \<longrightarrow>
      caller = v \<and> (\<exists>code cipher secret bytes.
        (if us_totp_enabled u then \<exists>password. call = DisableTotp (Some (code, password)) \<and> pt_verify_password aports password (us_password_hash u) = Some True
         else call = VerifyTotp (Some code))
        \<and> us_totp_secret_encrypted u = Some cipher \<and> kp_decrypt ports cipher pk = Some secret \<and> tp_to_bytes tports secret = Some bytes
        \<and> tp_check_current tports (bytes, us_email u) (te_now env) code = Some True))
    \<and> (us_totp_enabled u \<and> us_totp_enabled u' \<longrightarrow>
        us_totp_secret_encrypted u' = us_totp_secret_encrypted u \<and> us_totp_secret_encrypted u \<noteq> None)"
proof -
  have inv: "totp_inv db" unfolding assms(2) using assms(1) by (induction calls arbitrary: st) (simp_all add: account_step_inv)
  then have dist: "distinct (map us_id (db_users db))" by (simp add: totp_inv_def)
  from inv assms(3) have secret: "us_totp_enabled u \<Longrightarrow> us_totp_secret_encrypted u \<noteq> None" by (simp add: totp_inv_find)
  show ?thesis
  proof (rule totp_step_cases [OF refl, of ports tports aports pk env caller rq call db])
    assume "totp_step ports tports aports pk env caller rq call db = db"
    with assms(3,4) secret show ?thesis by simp
  next
    fix cipher w
    assume "List.find (has_id caller) (db_users db) = Some w" "\<not> us_totp_enabled w"
      and "totp_step ports tports aports pk env caller rq call db = update_user caller (\<lambda>u. u\<lparr>us_totp_secret_encrypted := Some cipher\<rparr>) db"
    with assms(3,4) secret show ?thesis by (auto simp: update_user_find split: if_splits)
  next
    fix code w
    assume w: "List.find (has_id caller) (db_users db) = Some w" "check_code ports tports pk env db caller (us_email w) code rq = None"
      and step: "call = VerifyTotp (Some code)" "\<not> us_totp_enabled w" "totp_step ports tports aports pk env caller rq call db = enable_totp caller db"
    from check_code_None [OF dist w] assms(3,4) step w(1) secret show ?thesis
      by (auto simp: enable_totp_def update_user_find split: if_splits)
  next
    fix code password w
    assume w: "List.find (has_id caller) (db_users db) = Some w" "check_code ports tports pk env db caller (us_email w) code rq = None"
      and step: "call = DisableTotp (Some (code, password))" "us_totp_enabled w" "pt_verify_password aports password (us_password_hash w) = Some True"
        "totp_step ports tports aports pk env caller rq call db = disable_totp caller db"
    from check_code_None [OF dist w] assms(3,4) step w(1) secret show ?thesis
      by (auto simp: disable_totp_def update_user_find split: if_splits)
  qed
qed

text \<open>Rows of users survive every authentication request.\<close>

interpretation kept: store_invariant pg_auth_repository "\<lambda>db. pg_ok db \<and> u \<in> set (db_users db)" for u
proof
  fix db db' :: "'d::linordered_field db" and input x
  assume *: "pg_ok db \<and> u \<in> set (db_users db)" and c: "create_user pg_auth_repository input db = (db', x)"
  then have "u \<in> set (db_users db')" by (auto simp: pg_auth_repository_def pg_create_user_def Let_def split: if_splits)
  moreover have "pg_ok db'"
    using * c by (fastforce simp: pg_auth_repository_def pg_create_user_def Let_def pg_ok_def split: if_splits)
  ultimately show "pg_ok db' \<and> u \<in> set (db_users db')" by simp
next
  fix db db' :: "'d::linordered_field db" and t x
  assume *: "pg_ok db \<and> u \<in> set (db_users db)" and c: "insert_refresh_token pg_auth_repository t db = (db', x)"
  then have "pg_ok db'"
    by (fastforce simp: pg_auth_repository_def pg_insert_refresh_token_def pg_ok_def Let_def split: if_splits)
  with * c show "pg_ok db' \<and> u \<in> set (db_users db')" by (auto simp: pg_auth_repository_def pg_insert_refresh_token_def split: if_splits)
next
  fix db db' :: "'d::linordered_field db" and i now x
  assume *: "pg_ok db \<and> u \<in> set (db_users db)" and c: "revoke_refresh_token pg_auth_repository i now db = (db', x)"
  from pg.revoke_token [OF _ c] * c show "pg_ok db' \<and> u \<in> set (db_users db')"
    by (auto simp: pg_auth_repository_def pg_revoke_refresh_token_def)
next
  fix db db' :: "'d::linordered_field db" and i now x
  assume *: "pg_ok db \<and> u \<in> set (db_users db)" and c: "revoke_refresh_family pg_auth_repository i now db = (db', x)"
  from pg.revoke_family [OF _ c] * c show "pg_ok db' \<and> u \<in> set (db_users db')"
    by (auto simp: pg_auth_repository_def pg_revoke_refresh_family_def)
qed

text \<open>
  An account with two-factor authentication cannot log in to a session: whatever requests run, its logins end with an error or with a
  challenge token, and no endpoint of the program takes a challenge token.
\<close>

theorem two_factor_login_yields_no_session:
  fixes st :: "'d::linordered_field db auth_state"
  assumes "pg_ok (sv_repository st)" and "u \<in> set (db_users (sv_repository st))" and "us_totp_enabled u"
    and "normalize_email (li_email input) = us_email u"
    and "auth_login aports cfg pg_auth_repository env input ip (auth_run aports cfg pg_auth_repository calls st) = (st', r)"
  shows "r \<noteq> Inr (Tokens pair)"
proof -
  let ?st = "auth_run aports cfg pg_auth_repository calls st"
  have "pg_ok (sv_repository ?st) \<and> u \<in> set (db_users (sv_repository ?st))" using assms(1,2) by (intro kept.run_keeps) simp
  then have "pg_logins (sv_repository ?st) (us_email u) = Some (user_of_row u)" by (auto simp: pg_logins_def pg_ok_def find_key_iff)
  then have found: "v = user_of_row u" if "verify_login aports pg_auth_repository (us_email u) p (sv_repository ?st) = Inr v" for v p
    using that by (auto simp: verify_login_def pg.find_user_by_email split: if_split_asm option.split_asm)
  have "au_totp_enabled (user_of_row u)" using assms(3) by (simp add: user_of_row_def)
  with found assms(4,5) show ?thesis
    by (auto simp: auth_login_def normalised_email_or_error_def ensure_login_allowed_def Let_def
        split: sum.split_asm if_split_asm prod.split_asm auth_error.split_asm)
qed
section \<open>Sample requests\<close>

definition sample_totp_ports :: totp_ports where
  "sample_totp_ports = \<lparr>tp_new_ok = (\<lambda>t. True), tp_to_base32 = (\<lambda>bytes. ''ORSXG5A''), tp_to_bytes = (\<lambda>s. Some [1, 2]), tp_get_url = (\<lambda>t. ''otpauth''),
     tp_get_qr = (\<lambda>t. Some ''png''), tp_check_current = (\<lambda>t now code. Some (code = ''123456''))\<rparr>"

definition sample_totp_env :: totp_env where
  "sample_totp_env = \<lparr>te_key_bytes = [1, 2], te_salt = [], te_backup_bytes = (\<lambda>n. []), te_now = 0\<rparr>"

theorem two_factor_flag_guarded_witness:
  "\<exists>db u u'. db = sv_repository (fold (account_step sample_key_ports sample_totp_ports sample_auth_ports sample_token_config ''k'')
       [TwoFactor sample_totp_env 1 9 SetupTotp] (sample_auth_state [sample_user_row] []))
     \<and> List.find (has_id 1) (db_users db) = Some u
     \<and> List.find (has_id 1) (db_users (totp_step sample_key_ports sample_totp_ports sample_auth_ports ''k'' sample_totp_env 1 9 (VerifyTotp (Some ''123456'')) db)) = Some u'
     \<and> \<not> us_totp_enabled u \<and> us_totp_enabled u' \<and> us_totp_secret_encrypted u = Some ''ORSXG5A''
     \<and> tp_check_current sample_totp_ports ([1, 2], us_email u) 0 ''123456'' = Some True"
proof -
  let ?st = "sample_auth_state [sample_user_row] []" and ?u = "sample_user_row\<lparr>us_totp_secret_encrypted := Some ''ORSXG5A''\<rparr>"
    and ?calls = "[TwoFactor sample_totp_env 1 9 SetupTotp]"
    and ?run = "fold (account_step sample_key_ports sample_totp_ports sample_auth_ports sample_token_config ''k'')"
  have run: "sv_repository (?run ?calls ?st) = sv_repository (sample_auth_state [?u] [])"
    by (simp add: account_step_def totp_step_def setup_totp_endpoint_def get_profile_def build_totp_def store_totp_secret_def update_user_def
        update_rows_def has_id_def sample_user_row_def sample_totp_ports_def sample_totp_env_def sample_key_ports_def sample_auth_state_def Let_def)
  have step: "totp_step sample_key_ports sample_totp_ports sample_auth_ports ''k'' sample_totp_env 1 9 (VerifyTotp (Some ''123456''))
      (sv_repository (sample_auth_state [?u] [])) = sv_repository (sample_auth_state [?u\<lparr>us_totp_enabled := True\<rparr>] [])"
    by (simp add: totp_step_def verify_totp_endpoint_def get_profile_def check_code_def load_totp_def decrypt_totp_secret_def build_totp_def
        enable_totp_def update_user_def update_rows_def has_id_def sample_user_row_def sample_totp_ports_def sample_totp_env_def
        sample_key_ports_def sample_auth_state_def)
  have rows: "List.find (has_id 1) (db_users (sv_repository (?run ?calls ?st))) = Some ?u"
    "List.find (has_id 1) (db_users (totp_step sample_key_ports sample_totp_ports sample_auth_ports ''k'' sample_totp_env 1 9 (VerifyTotp (Some ''123456''))
      (sv_repository (?run ?calls ?st)))) = Some (?u\<lparr>us_totp_enabled := True\<rparr>)"
    unfolding run step by (simp_all add: has_id_def sample_user_row_def sample_auth_state_def)
  have "totp_inv (sv_repository ?st)" by (simp add: totp_inv_def sample_auth_state_def sample_user_row_def)
  from two_factor_flag_guarded [OF this refl rows]
  have check: "tp_check_current sample_totp_ports ([1, 2], us_email ?u) 0 ''123456'' = Some True"
    by (simp add: sample_user_row_def sample_totp_ports_def sample_totp_env_def)
  show ?thesis
    by (intro exI [of _ "sv_repository (?run ?calls ?st)"] exI [of _ ?u] exI [of _ "?u\<lparr>us_totp_enabled := True\<rparr>"] conjI refl rows check)
      (simp_all add: sample_user_row_def)
qed

end
