(* ===== verification/Order_Funds.thy ===== *)
theory Order_Funds
  imports Order_Api
begin

text \<open>
  What the order endpoints do to the caller's funds, alone and together with settlement.
\<close>

section \<open>The repository keeps the ledger invariant\<close>

lemma find_conj_key:
  assumes "accounts_distinct db"
  shows "List.find (\<lambda>b. is_account u a b \<and> Q b) (db_balances db) = Some b \<longleftrightarrow>
    List.find (is_account u a) (db_balances db) = Some b \<and> Q b"
proof
  assume l: "List.find (\<lambda>b. is_account u a b \<and> Q b) (db_balances db) = Some b"
  then have "b \<in> set (db_balances db)" "is_account u a b" "Q b" by (auto dest!: find_SomeD)
  with find_by_key [of account_key "db_balances db" b] assms
  show "List.find (is_account u a) (db_balances db) = Some b \<and> Q b"
    by (auto simp: accounts_distinct_def is_account_key)
next
  assume "List.find (is_account u a) (db_balances db) = Some b \<and> Q b"
  then show "List.find (\<lambda>b. is_account u a b \<and> Q b) (db_balances db) = Some b"
    by (induction "db_balances db") (auto split: if_splits simp: find_Some_iff)
qed

lemma same_account:
  "accounts_distinct db \<Longrightarrow> List.find (is_account u a) (db_balances db) = Some b \<Longrightarrow> r \<in> set (db_balances db) \<Longrightarrow> is_account u a r \<Longrightarrow> r = b"
proof -
  assume d: "accounts_distinct db" and f: "List.find (is_account u a) (db_balances db) = Some b"
    and r: "r \<in> set (db_balances db)" and k: "is_account u a r"
  have "List.find (\<lambda>y. account_key y = account_key r) (db_balances db) = Some r"
    by (rule find_by_key [OF d [unfolded accounts_distinct_def] r])
  with k f show "r = b" by (simp add: is_account_key)
qed

text \<open>Under the primary key both repository calls are the balance update of the database theory.\<close>

lemma try_lock_balance_True:
  assumes dist: "accounts_distinct db" and eq: "try_lock_balance u a x db = Inr (True, db')"
  shows "\<exists>b. update_balance u a (- x) x db = Inr (b, db')"
proof -
  let ?sel = "\<lambda>b. is_account u a b \<and> x \<le> ba_available b"
  show ?thesis
  proof (cases "List.find ?sel (db_balances db)")
    case None
    with eq show ?thesis by (simp add: try_lock_balance_def)
  next
    case (Some b)
    note run = eq [unfolded try_lock_balance_def Let_def Some option.case]
    have chk: "balance_checks (credit (- x) x b)" using run by (rule contrapos_pp) (simp only: if_False sum.distinct not_False_eq_True)
    have db': "db\<lparr>db_balances := update_rows ?sel (credit (- x) x) (db_balances db)\<rparr> = db'"
      using run by (simp only: chk if_True sum.inject prod.inject)
    have fb: "List.find (is_account u a) (db_balances db) = Some b" and x: "x \<le> ba_available b"
      using Some unfolding find_conj_key [OF dist] by simp_all
    have "?sel r = is_account u a r" if "r \<in> set (db_balances db)" for r using same_account [OF dist fb that] x by blast
    then have "update_rows ?sel (credit (- x) x) (db_balances db) = update_rows (is_account u a) (credit (- x) x) (db_balances db)"
      by (simp add: update_rows_def)
    with fb chk db' show ?thesis by (simp add: update_balance_def)
  qed
qed

lemma update_balance_neutral_inv:
  assumes "ledger_inv db" and up: "update_balance u a (- x) x db = Inr (b, db')"
  shows "ledger_inv db'"
  by (rule update_balance_ledger [OF assms refl]) (use update_balance_frame [OF up] in \<open>simp add: ledger_sum_def\<close>)

lemma ledger_inv_distinct: "ledger_inv db \<Longrightarrow> accounts_distinct db"
  by (simp add: ledger_inv_def accounts_distinct_def)

lemma lock_for_order_inv:
  assumes "ledger_inv db" and "lock_for_order u lock rq db = Inr db'"
  shows "ledger_inv db'"
  using assms try_lock_balance_True [OF ledger_inv_distinct [OF assms(1)]] update_balance_neutral_inv [OF assms(1)]
  by (auto simp: lock_for_order_def split: option.splits sum.splits prod.splits bool.splits) blast

lemma run_unlock_task_inv:
  assumes "ledger_inv db"
  shows "ledger_inv (run_unlock_task task db)"
proof (cases task)
  case (Some t)
  obtain u a x where t: "t = (u, a, x)" by (cases t) auto
  have "ledger_inv db'" if "unlock_balance u a x db = Inr ((), db')" for db'
  proof (cases "List.find (is_account u a) (db_balances db)")
    case None
    with that assms show ?thesis by (simp add: unlock_balance_def)
  next
    case (Some b)
    with that have "update_balance u a (- (- x)) (- x) db = Inr (credit x (- x) b, db')"
      by (auto simp: unlock_balance_def update_balance_def split: if_splits)
    with assms show ?thesis by (rule update_balance_neutral_inv)
  qed
  with assms Some t show ?thesis by (auto simp: run_unlock_task_def split: sum.splits)
qed (use assms in \<open>simp add: run_unlock_task_def\<close>)

lemma order_insert_frame:
  "order_insert row db = Inr (r, db') \<Longrightarrow> db' = db\<lparr>db_orders := db_orders db @ [row]\<rparr> \<and> order_checks row
     \<and> (\<forall>r \<in> set (db_orders db). od_id r \<noteq> od_id row) \<and> order_references db row"
  by (auto simp: order_insert_def split: if_splits option.splits)

lemma update_status_frame [simp]:
  "db_balances (update_status i s db) = db_balances db" "db_ledger_entries (update_status i s db) = db_ledger_entries db"
  "db_markets (update_status i s db) = db_markets db"
  by (simp_all add: update_status_def)

section \<open>The outcomes of placing an order\<close>

definition order_lock :: "'d::linordered_field parsed_order \<Rightarrow> uuid \<times> uuid \<times> uuid \<times> string \<Rightarrow> (uuid \<times> 'd) option" where
  "order_lock p market = (case market of (_, base, quote, _) \<Rightarrow>
     balance_lock_params (pd_side p) (pd_type p) (pd_price p) (pd_quantity p) (pd_quote_quantity p) base quote)"

lemma api_place_order_cases:
  assumes "api_place_order ports u rq oid (Some input) db = (db', task, res)"
  obtains (unchanged) "db' = db" and "task = None" and "\<And>r. res \<noteq> Inr (201, r)"
  | (not_inserted) p market db1 e where "validate_input ports rq input = Inr p"
      and "get_market_assets db (to_uppercase (pi_market input)) = Some market" and "lock_for_order u (order_lock p market) rq db = Inr db1"
      and "order_insert (pending_row oid u (fst market) input p) db1 = Inl e" and "db' = db1" and "task = None"
      and "res = Inl (with_request_id internal rq)"
  | (engine_failed) p market db1 r err where "validate_input ports rq input = Inr p"
      and "get_market_assets db (to_uppercase (pi_market input)) = Some market" and "lock_for_order u (order_lock p market) rq db = Inr db1"
      and "order_insert (pending_row oid u (fst market) input p) db1 = Inr (r, db')"
      and "task = map_option (\<lambda>(a, x). (u, a, x)) (order_lock p market)" and "res = Inl (engine_failure err rq)"
  | (placed) p market db1 r db2 ack where "validate_input ports rq input = Inr p"
      and "get_market_assets db (to_uppercase (pi_market input)) = Some market" and "lock_for_order u (order_lock p market) rq db = Inr db1"
      and "order_insert (pending_row oid u (fst market) input p) db1 = Inr (r, db2)"
      and "client_place (ap_send ports) (engine_place_request rq oid u (to_uppercase (pi_market input)) p) = Inr ack"
      and "db' = update_status oid (status_text (ak_status ack)) db2" and "task = None"
proof (cases "case pi_client_order_id input of None \<Rightarrow> None | Some cid \<Rightarrow> find_by_client_order_id db u cid")
  case (Some existing)
  with assms unchanged show thesis by (auto simp: api_place_order_def Let_def)
next
  case dup: None
  show thesis
  proof (cases "validate_input ports rq input")
    case (Inl e)
    with assms dup unchanged show thesis by (auto simp: api_place_order_def Let_def)
  next
    case v: (Inr p)
    show thesis
    proof (cases "get_market_assets db (to_uppercase (pi_market input))")
      case None
      with assms dup v unchanged show thesis by (auto simp: api_place_order_def Let_def)
    next
      case m: (Some market)
      obtain mid base quote status where market: "market = (mid, base, quote, status)" by (cases market) auto
      have lock: "balance_lock_params (pd_side p) (pd_type p) (pd_price p) (pd_quantity p) (pd_quote_quantity p) base quote = order_lock p market"
        by (simp add: order_lock_def market)
      note run = assms [unfolded api_place_order_def, simplified dup v m market lock option.case sum.case prod.case Let_def]
      show thesis
      proof (cases "status = ''halted'' \<or> status = ''delisted''")
        case True
        with run unchanged show thesis by auto
      next
        case trading: False
        note run = run [unfolded if_not_P [OF trading]]
        show thesis
        proof (cases "lock_for_order u (order_lock p market) rq db")
          case (Inl e)
          with run unchanged show thesis by (auto simp: market)
        next
          case l: (Inr db1)
          show thesis
          proof (cases "order_insert (pending_row oid u mid input p) db1")
            case (Inl e)
            with run l not_inserted [OF v m l] market show thesis by simp
          next
            case ins: (Inr rd)
            obtain r db2 where rd: "rd = (r, db2)" by (cases rd) auto
            show thesis
            proof (cases "client_place (ap_send ports) (engine_place_request rq oid u (to_uppercase (pi_market input)) p)")
              case (Inl err)
              with run l ins rd engine_failed [OF v m l] market show thesis by auto
            next
              case (Inr ack)
              with run l ins rd placed [OF v m l _ Inr] market show thesis by (auto split: option.splits)
            qed
          qed
        qed
      qed
    qed
  qed
qed

lemma api_place_order_inv:
  assumes inv: "ledger_inv db" and eq: "api_place_order ports u rq oid payload db = (db', task, res)"
  shows "ledger_inv db'"
proof (cases payload)
  case None
  with eq inv show ?thesis by (simp add: api_place_order_def)
next
  case (Some input)
  have ins: "ledger_inv d2" if "ledger_inv d1" "order_insert row d1 = Inr (r, d2)" for d1 d2 row r
    using that order_insert_frame [OF that(2)] by (simp add: ledger_inv_def ledger_sum_def)
  from eq [unfolded Some] show ?thesis
  proof (cases rule: api_place_order_cases)
    case (not_inserted p market db1 e)
    with lock_for_order_inv [OF inv] show ?thesis by simp
  next
    case (engine_failed p market db1 r err)
    with lock_for_order_inv [OF inv] ins show ?thesis by blast
  next
    case (placed p market db1 r db2 ack)
    with lock_for_order_inv [OF inv] ins have "ledger_inv db2" by blast
    with placed(6) show ?thesis by (simp add: ledger_inv_def ledger_sum_def)
  qed (use inv in simp)
qed

section \<open>Funds of a placed order\<close>

lemma update_balance_locked:
  assumes dist: "accounts_distinct db" and up: "update_balance u a da dl db = Inr (b, db')"
  shows "locked_amount db' u' a' = locked_amount db u' a' + (if u' = u \<and> a' = a then dl else 0)"
    and "accounts_distinct db'"
proof -
  let ?m = "\<lparr>lm_user_id = u, lm_asset_id = a, lm_kind = [], lm_amount = da + dl, lm_available_delta = da, lm_locked_delta = dl,
    lm_reference_type = [], lm_reference_id = None, lm_engine_seq = None\<rparr>"
  from up obtain db2 where l: "apply_ledger ?m db = Inr ((), db2)" and same: "db_balances db2 = db_balances db'"
    by (auto simp: apply_ledger_def tx_bind_def)
  from apply_ledger_held(1) [OF dist l, of 0 1 "\<lambda>k. k = (u', a')"] same
  show "locked_amount db' u' a' = locked_amount db u' a' + (if u' = u \<and> a' = a then dl else 0)"
    by (auto simp: locked_amount_def held_def)
  from apply_ledger_held(2) [OF dist l] same show "accounts_distinct db'" by (simp add: accounts_distinct_def)
qed

definition lock_in :: "(uuid \<times> 'd::linordered_field) option \<Rightarrow> uuid \<Rightarrow> 'd" where
  "lock_in lock a = (case lock of None \<Rightarrow> 0 | Some (a', x) \<Rightarrow> if a' = a then x else 0)"

lemma lock_for_order_locked:
  assumes dist: "accounts_distinct db" and eq: "lock_for_order u lock rq db = Inr db'"
  shows "locked_amount db' u a = locked_amount db u a + lock_in lock a"
    and "db_orders db' = db_orders db" and "db_markets db' = db_markets db" and "db_users db' = db_users db"
proof -
  have "db' = db \<and> lock = None \<or> (\<exists>a' x. lock = Some (a', x) \<and> try_lock_balance u a' x db = Inr (True, db'))"
    using eq by (auto simp: lock_for_order_def split: option.splits sum.splits bool.splits)
  then consider "db' = db" "lock = None" | a' x b where "lock = Some (a', x)" "update_balance u a' (- x) x db = Inr (b, db')"
    using try_lock_balance_True [OF dist] by blast
  note cases = this
  show "locked_amount db' u a = locked_amount db u a + lock_in lock a"
    by (rule cases) (auto simp: lock_in_def update_balance_locked(1) [OF dist])
  show "db_orders db' = db_orders db" by (rule cases) (auto dest: update_balance_frame)
  show "db_markets db' = db_markets db" by (rule cases) (auto dest: update_balance_frame)
  show "db_users db' = db_users db" by (rule cases) (auto dest: update_balance_frame)
qed

lemma get_market_assets_fetch:
  "get_market_assets db symbol = Some market \<Longrightarrow> db_markets db' = db_markets db \<Longrightarrow>
     \<exists>m. fetch_market symbol db' = Inr (m, db')"
  by (auto simp: get_market_assets_def fetch_market_def fetch_one_def tx_bind_def tx_return_def)


lemma fetch_optional_Some:
  assumes "fetch_optional P db = Some row"
  shows "ao_row row \<in> set (db_orders db) \<and> P (ao_row row) \<and> with_symbol db (ao_row row) = Some row"
proof -
  from assms obtain rest where h: "List.map_filter (with_symbol db) (filter P (db_orders db)) = row # rest"
    by (auto simp: fetch_optional_def split: list.splits)
  have "row \<in> set (List.map_filter (with_symbol db) (filter P (db_orders db)))" unfolding h by simp
  then obtain r where "r \<in> set (db_orders db)" "P r" "with_symbol db r = Some row" by (auto simp: map_filter_def)
  then show ?thesis by (auto simp: with_symbol_def)
qed

text \<open>
  An order cancelled through the API keeps its funds locked when the handler records the engine's answer before
  settlement processes the cancellation event: the event then finds the order already cancelled and releases nothing.
\<close>

theorem api_cancel_before_settlement_keeps_lock:
  assumes ids: "distinct (map od_id (db_orders db))"
    and row: "find_by_id db oid u = Some row" "od_status (ao_row row) \<notin> {''filled'', ''canceled'', ''rejected''}"
    and ack: "client_cancel (ap_send ports) \<lparr>cr_request_id = rq, cr_symbol = ao_symbol row, cr_order_id = oid\<rparr> = Inr ack"
      "ck_status ack = Canceled"
  shows "\<exists>db' resp. api_cancel_order ports u rq oid db = (db', Inr (200, resp)) \<and> db_balances db' = db_balances db
    \<and> (\<forall>seq why. settle_cancel seq \<lparr>oc_order_id = oid, oc_reason = why\<rparr> db' = Inr ((), db'))"
proof -
  let ?db = "update_status oid ''canceled'' db"
  have r: "ao_row row \<in> set (db_orders db)" "od_id (ao_row row) = oid" "with_symbol db (ao_row row) = Some row"
    using fetch_optional_Some row(1) by (auto simp: find_by_id_def)
  have "List.find (\<lambda>x. od_id x = oid) (db_orders db) = Some (ao_row row)" using find_by_key [OF ids r(1)] r(2) by simp
  then have f: "List.find (\<lambda>x. od_id x = oid) (db_orders ?db) = Some (set_status ''canceled'' (ao_row row))"
    by (simp add: update_status_def status_row.find_updated)
  obtain m where "List.find (\<lambda>m. mk_id m = od_market_id (ao_row row)) (db_markets db) = Some m"
    using r(3) by (auto simp: with_symbol_def)
  with f have "\<exists>ow. fetch_order oid ?db = Inr (ow, ?db) \<and> ow_status ow = ''canceled''"
    by (simp add: fetch_order_def tx_bind_def fetch_one_def tx_return_def set_status_def)
  then have "settle_cancel seq \<lparr>oc_order_id = oid, oc_reason = why\<rparr> ?db = Inr ((), ?db)" for seq why
    using settle_cancel_final [of "\<lparr>oc_order_id = oid, oc_reason = why\<rparr>" ?db] by auto
  moreover have "\<exists>resp. api_cancel_order ports u rq oid db = (?db, Inr (200, resp))"
    using row ack by (simp add: api_cancel_order_def Let_def)
  ultimately show ?thesis by auto
qed

text \<open>
  A buy order with a negative price is refused only after it has moved funds: the handler does not check the sign, so the
  lock amount is negative, the caller's locked balance shrinks and the available balance grows, then the order row is
  rejected by the database and the lock is not undone.
\<close>

theorem negative_price_releases_locked_funds:
  assumes inv: "ledger_inv db"
    and new: "pi_client_order_id input = None" and v: "validate_input ports rq input = Inr p"
    and p: "pd_side p = WBuy" "pd_type p \<notin> {WStopLimit, WStopMarket}" "pd_price p = Some price" "price < 0"
    and market: "get_market_assets db (to_uppercase (pi_market input)) = Some (mid, base, quote, ''trading'')"
    and acct: "List.find (is_account u quote) (db_balances db) = Some b" "0 \<le> ba_locked b + price * pd_quantity p"
    and qty: "0 < pd_quantity p"
  shows "\<exists>db'. api_place_order ports u rq oid (Some input) db = (db', None, Inl (with_request_id internal rq))
    \<and> locked_amount db' u quote = locked_amount db u quote + price * pd_quantity p \<and> db_orders db' = db_orders db
    \<and> ledger_inv db'"
proof -
  note dist = ledger_inv_distinct [OF inv]
  let ?x = "price * pd_quantity p"
  have x: "?x < 0" using p(4) qty by (simp add: mult_neg_pos)
  have b: "0 \<le> ba_available b" using inv find_SomeD [OF acct(1)] by (simp add: ledger_inv_def balance_checks_def)
  then have "List.find (\<lambda>b. is_account u quote b \<and> ?x \<le> ba_available b) (db_balances db) = Some b"
    unfolding find_conj_key [OF dist] using acct(1) x by simp
  then obtain db1 where "try_lock_balance u quote ?x db = Inr (True, db1)"
    using b acct(2) x by (simp add: try_lock_balance_def balance_checks_def credit_def)
  then have l: "lock_for_order u (order_lock p (mid, base, quote, ''trading'')) rq db = Inr db1"
    using p by (auto simp: lock_for_order_def order_lock_def balance_lock_params_def)
  have "order_insert (pending_row oid u mid input p) db1 = Inl ConstraintViolation"
    using p by (simp add: order_insert_def order_checks_def pending_row_def positive_or_null_def)
  with l v market new have run: "api_place_order ports u rq oid (Some input) db = (db1, None, Inl (with_request_id internal rq))"
    by (simp add: api_place_order_def order_lock_def)
  have "lock_in (order_lock p (mid, base, quote, ''trading'')) quote = ?x"
    using p by (auto simp: lock_in_def order_lock_def balance_lock_params_def)
  with run lock_for_order_locked [OF dist l] api_place_order_inv [OF inv run] show ?thesis by auto
qed

section \<open>Concrete requests\<close>

definition sample_api_ports :: "real api_ports" where
  "sample_api_ports =
     \<lparr>ap_send = (\<lambda>req i. case req of
         Place r \<Rightarrow> Inr (Ack \<lparr>ar_request_id = i, ar_result = AckOrder \<lparr>ak_order_id = eo_id (pr_order r), ak_status = NewStatus, ak_fills = [], ak_seq = 1\<rparr>\<rparr>)
       | Cancel r \<Rightarrow> Inr (Ack \<lparr>ar_request_id = i, ar_result = AckCancel \<lparr>ck_order_id = cr_order_id r, ck_status = Canceled, ck_seq = 2\<rparr>\<rparr>)
       | _ \<Rightarrow> Inl ClientIo),
      ap_parse = (\<lambda>s. if s = ''2'' then Some 2 else if s = ''100'' then Some 100 else if s = ''-100'' then Some (- 100) else None),
      ap_to_string = (\<lambda>_. ''decimal'')\<rparr>"

definition sample_input :: "string \<Rightarrow> place_order_input" where
  "sample_input price = \<lparr>pi_client_order_id = None, pi_market = ''btcusdt'', pi_side = ''Buy'', pi_order_type = ''limit'', pi_price = Some price,
     pi_stop_price = None, pi_quantity = Some ''2'', pi_quote_quantity = None, pi_display_quantity = None\<rparr>"

lemma sample_symbol: "to_uppercase ''btcusdt'' = ''BTCUSDT''" "to_lowercase ''Buy'' = ''buy''" "to_lowercase ''limit'' = ''limit''"
  by code_simp+

lemma sample_no_client_id: "pi_client_order_id (sample_input x) = None"
  by (simp add: sample_input_def)

definition sample_parsed :: "real \<Rightarrow> real parsed_order" where
  "sample_parsed price = \<lparr>pd_side = WBuy, pd_type = WLimit, pd_price = Some price, pd_stop_price = None, pd_quantity = 2,
     pd_quote_quantity = None, pd_display_quantity = None\<rparr>"

lemma sample_validated:
  "validate_input sample_api_ports 7 (sample_input ''100'') = Inr (sample_parsed 100)"
  "validate_input sample_api_ports 7 (sample_input ''-100'') = Inr (sample_parsed (- 100))"
  by (simp_all add: validate_input_def parse_side_type_def parse_optional_decimal_def effective_qty_def sample_input_def sample_symbol
      sample_api_ports_def sample_parsed_def)

lemma sample_market: "get_market_assets sample_db (to_uppercase (pi_market (sample_input x))) = Some (5, 10, 20, ''trading'')"
  "get_market_assets sample_accepted (to_uppercase (pi_market (sample_input x))) = Some (5, 10, 20, ''trading'')"
  by (simp_all add: get_market_assets_def sample_input_def sample_symbol sample_db_def sample_accepted_def)


theorem api_cancel_before_settlement_keeps_lock_witness:
  "\<exists>db' resp. api_cancel_order sample_api_ports 1 7 102 sample_accepted = (db', Inr (200, resp))
     \<and> settle_cancel 9 \<lparr>oc_order_id = 102, oc_reason = WAdminCancel\<rparr> db' = Inr ((), db') \<and> locked_amount db' 1 20 = 200"
proof -
  have r: "find_by_id sample_accepted 102 1 = Some \<lparr>ao_row = sample_buy_row, ao_symbol = ''BTCUSDT''\<rparr>"
    by (simp add: find_by_id_def fetch_optional_def map_filter_def with_symbol_def sample_accepted_def sample_db_def sample_buy_row_def sample_sell_row_def)
  have ids: "distinct (map od_id (db_orders sample_accepted))" by (simp add: sample_accepted_def sample_sell_row_def sample_buy_row_def)
  have st: "od_status (ao_row \<lparr>ao_row = sample_buy_row, ao_symbol = ''BTCUSDT''\<rparr>) \<notin> {''filled'', ''canceled'', ''rejected''}"
    by (simp add: sample_buy_row_def)
  have a: "client_cancel (ap_send sample_api_ports) \<lparr>cr_request_id = 7, cr_symbol = ao_symbol \<lparr>ao_row = sample_buy_row, ao_symbol = ''BTCUSDT''\<rparr>, cr_order_id = 102\<rparr>
      = Inr \<lparr>ck_order_id = 102, ck_status = Canceled, ck_seq = 2\<rparr>"
    by (simp add: client_cancel_def sample_api_ports_def)
  have "locked_amount sample_accepted 1 20 = 200"
    by (simp add: locked_amount_def held_def sample_accepted_def account_key_def)
  with api_cancel_before_settlement_keeps_lock [OF ids r st a] show ?thesis by (auto simp: locked_amount_def held_def)
qed

theorem negative_price_releases_locked_funds_witness:
  "\<exists>db'. api_place_order sample_api_ports 1 7 300 (Some (sample_input ''-100'')) sample_accepted = (db', None, Inl (with_request_id internal 7))
     \<and> locked_amount db' 1 20 = locked_amount sample_accepted 1 20 - 200"
proof -
  have acct: "List.find (is_account 1 20) (db_balances sample_accepted) =
      Some \<lparr>ba_user_id = 1, ba_asset_id = 20, ba_available = 800, ba_locked = 200\<rparr>"
    by (simp add: is_account_def sample_accepted_def)
  have "\<exists>db'. api_place_order sample_api_ports 1 7 300 (Some (sample_input ''-100'')) sample_accepted = (db', None, Inl (with_request_id internal 7))
    \<and> locked_amount db' 1 20 = locked_amount sample_accepted 1 20 + (- 100) * pd_quantity (sample_parsed (- 100))
    \<and> db_orders db' = db_orders sample_accepted \<and> ledger_inv db'"
    by (rule negative_price_releases_locked_funds [OF sample_accepted_inv _ sample_validated(2) _ _ _ _ sample_market(2) acct])
      (simp_all add: sample_input_def sample_parsed_def)
  then show ?thesis by (auto simp: sample_parsed_def)
qed

end
