(* ===== verification/Admin.thy ===== *)
theory Admin
  imports Two_Factor Engine_Replay Order_Funds
begin

text \<open>
  The admin endpoints (\<open>services/api/src/handlers/admin.rs\<close>) and their queries (\<open>repositories/admin.rs\<close>). They act on the
  database and on the engine: the engine behind the client is a state \<open>'w\<close> with the transport \<open>engine_port\<close>, which the properties
  instantiate with the engine's own request handler.
\<close>

section \<open>Queries\<close>

record admin_user_row =
  aw_id :: uuid
  aw_is_admin :: bool
  aw_status :: string

record admin_market_row =
  am_id :: uuid
  am_symbol :: string
  am_status :: string

record market_state_row =
  mt_symbol :: string
  mt_status :: string
  mt_open_order_count :: nat

definition find_admin_user :: "'d db \<Rightarrow> uuid \<Rightarrow> admin_user_row option" where
  "find_admin_user db user_id =
     map_option (\<lambda>u. \<lparr>aw_id = us_id u, aw_is_admin = us_is_admin u, aw_status = us_status u\<rparr>) (List.find (has_id user_id) (db_users db))"

definition find_market :: "'d db \<Rightarrow> string \<Rightarrow> admin_market_row option" where
  "find_market db symbol =
     map_option (\<lambda>m. \<lparr>am_id = mk_id m, am_symbol = mk_symbol m, am_status = mk_status m\<rparr>)
       (List.find (\<lambda>m. mk_symbol m = symbol) (db_markets db))"

definition update_market_status :: "string \<Rightarrow> string \<Rightarrow> 'd db \<Rightarrow> bool \<times> 'd db" where
  "update_market_status symbol status db =
     (list_ex (\<lambda>m. mk_symbol m = symbol) (db_markets db),
      db\<lparr>db_markets := update_rows (\<lambda>m. mk_symbol m = symbol) (\<lambda>m. m\<lparr>mk_status := status\<rparr>) (db_markets db)\<rparr>)"

definition freezable :: "uuid \<Rightarrow> user_row \<Rightarrow> bool" where
  "freezable user_id u \<longleftrightarrow> us_id u = user_id \<and> us_status u \<noteq> ''closed''"

definition freeze_user :: "uuid \<Rightarrow> 'd db \<Rightarrow> bool \<times> 'd db" where
  "freeze_user user_id db =
     (list_ex (freezable user_id) (db_users db),
      db\<lparr>db_users := update_rows (freezable user_id) (\<lambda>u. u\<lparr>us_status := ''frozen''\<rparr>) (db_users db)\<rparr>)"

definition is_open :: "'d order_record \<Rightarrow> bool" where
  "is_open r \<longleftrightarrow> od_status r \<in> {''pending'', ''new'', ''partial''}"

definition users_with_open_orders_in_market :: "'d db \<Rightarrow> string \<Rightarrow> uuid list" where
  "users_with_open_orders_in_market db symbol =
     sort (remdups [od_user_id r. r \<leftarrow> db_orders db, is_open r, m \<leftarrow> db_markets db, mk_id m = od_market_id r, mk_symbol m = symbol])"

definition mark_orders_canceled :: "uuid list \<Rightarrow> 'd db \<Rightarrow> 'd db" where
  "mark_orders_canceled order_ids db =
     (if order_ids = [] then db
      else db\<lparr>db_orders := update_rows (\<lambda>r. od_id r \<in> set order_ids \<and> is_open r) (\<lambda>r. r\<lparr>od_status := ''canceled''\<rparr>) (db_orders db)\<rparr>)"

definition insert_audit_log :: "uuid \<Rightarrow> string \<Rightarrow> string \<Rightarrow> uuid option \<Rightarrow> json \<Rightarrow> ('d, unit) tx" where
  "insert_audit_log actor_user_id action target_type target_id metadata = (\<lambda>db.
     if \<not> list_ex (has_id actor_user_id) (db_users db) then Inl ConstraintViolation
     else Inr ((), db\<lparr>db_audit_log := db_audit_log db @
       [\<lparr>al_actor_user_id = Some actor_user_id, al_action = action, al_target_type = target_type, al_target_id = target_id,
         al_metadata = metadata\<rparr>]\<rparr>))"

definition market_state :: "'d db \<Rightarrow> market_state_row list" where
  "market_state db =
     sort_key mt_symbol (map (\<lambda>m. \<lparr>mt_symbol = mk_symbol m, mt_status = mk_status m,
         mt_open_order_count = length (filter (\<lambda>r. od_market_id r = mk_id m \<and> is_open r) (db_orders db))\<rparr>)
       (filter (\<lambda>m. mk_status m \<noteq> ''delisted'') (db_markets db)))"

section \<open>Endpoints\<close>

type_synonym ('d, 'w) engine_port = "'d engine_request \<Rightarrow> uuid \<Rightarrow> 'w \<Rightarrow> 'w \<times> (engine_client_error + 'd engine_response)"

text \<open>One call of the engine client over the port; \<open>call\<close> is one of the typed calls.\<close>

definition engine_call ::
  "('d, 'w) engine_port \<Rightarrow> ('d engine_send \<Rightarrow> engine_client_error + 'a) \<Rightarrow> 'd engine_request \<Rightarrow> uuid \<Rightarrow> 'w \<Rightarrow> 'w \<times> (engine_client_error + 'a)" where
  "engine_call port call request request_id w = (case port request request_id w of (w', r) \<Rightarrow> (w', call (\<lambda>_ _. r)))"

record admin_action_response =
  aa_symbol :: "string option"
  aa_status :: "string option"
  aa_canceled_order_ids :: "uuid list"
  aa_count :: nat

definition engine_error :: "engine_client_error \<Rightarrow> uuid \<Rightarrow> api_error" where
  "engine_error err request_id =
     (case err of
        ClientTimeout \<Rightarrow> api_fail 503 EngineTimeout ''Engine did not respond in time'' request_id
      | ClientRejected _ _ \<Rightarrow> api_fail 409 Internal ''Engine rejected the admin command'' request_id
      | _ \<Rightarrow> with_request_id internal request_id)"

definition forbidden :: "uuid \<Rightarrow> api_error" where
  "forbidden request_id = api_fail 403 Forbidden ''Admin privileges required'' request_id"

definition admin_not_found :: "string \<Rightarrow> uuid \<Rightarrow> api_error" where
  "admin_not_found message request_id = api_fail 404 NotFound message request_id"

definition ensure_admin :: "'d db \<Rightarrow> uuid \<Rightarrow> uuid \<Rightarrow> api_error + admin_user_row" where
  "ensure_admin db user_id request_id =
     (case find_admin_user db user_id of
        None \<Rightarrow> Inl (forbidden request_id)
      | Some row \<Rightarrow> if \<not> aw_is_admin row \<or> aw_status row \<noteq> ''active'' then Inl (forbidden request_id) else Inr row)"

text \<open>The state of an endpoint is the database and the engine; the metadata of an audit entry is rendered from its fields.\<close>

record ('d, 'w) admin_ports =
  dp_engine :: "('d, 'w) engine_port"
  dp_json :: "(string \<times> string) list \<Rightarrow> json"
  dp_to_string :: "'d \<Rightarrow> string"

definition audit ::
  "uuid \<Rightarrow> string \<Rightarrow> string \<Rightarrow> uuid option \<Rightarrow> json \<Rightarrow> uuid \<Rightarrow> admin_action_response \<Rightarrow> 'd db \<times> 'w \<Rightarrow>
     ('d db \<times> 'w) \<times> (api_error + admin_action_response)" where
  "audit actor action target_type target_id metadata request_id response = (\<lambda>(db, w).
     case insert_audit_log actor action target_type target_id metadata db of
       Inl _ \<Rightarrow> ((db, w), Inl (with_request_id internal request_id))
     | Inr (_, db') \<Rightarrow> ((db', w), Inr response))"

definition set_market_status ::
  "('d, 'w) admin_ports \<Rightarrow> bool \<Rightarrow> uuid \<Rightarrow> uuid \<Rightarrow> string \<Rightarrow> 'd db \<times> 'w \<Rightarrow> ('d db \<times> 'w) \<times> (api_error + admin_action_response)" where
  "set_market_status ports halting caller request_id symbol_text = (\<lambda>(db, w).
     case ensure_admin db caller request_id of
       Inl e \<Rightarrow> ((db, w), Inl e)
     | Inr admin \<Rightarrow>
         (let symbol = to_uppercase symbol_text; status = (if halting then ''halted'' else ''trading'');
              req = \<lparr>mc_request_id = request_id, mc_symbol = symbol\<rparr>
          in case find_market db symbol of
               None \<Rightarrow> ((db, w), Inl (admin_not_found ''Market not found'' request_id))
             | Some market \<Rightarrow>
                 (case engine_call (dp_engine ports)
                         (\<lambda>send. if halting then client_halt_market send req else client_resume_market send req)
                         (if halting then HaltMarket req else ResumeMarket req) request_id w of
                    (w', Inl err) \<Rightarrow> ((db, w'), Inl (engine_error err request_id))
                  | (w', Inr ack) \<Rightarrow>
                      audit (aw_id admin) (if halting then ''market.halt'' else ''market.resume'') ''market'' (Some (am_id market))
                        (dp_json ports [(''symbol'', symbol), (''seq'', nat_to_string (unat (ms_seq ack)))]) request_id
                        \<lparr>aa_symbol = Some symbol, aa_status = Some status, aa_canceled_order_ids = [], aa_count = 0\<rparr>
                        (snd (update_market_status symbol status db), w'))))"

definition admin_halt_market ::
  "('d, 'w) admin_ports \<Rightarrow> uuid \<Rightarrow> uuid \<Rightarrow> string \<Rightarrow> 'd db \<times> 'w \<Rightarrow> ('d db \<times> 'w) \<times> (api_error + admin_action_response)" where
  "admin_halt_market ports = set_market_status ports True"

definition admin_resume_market ::
  "('d, 'w) admin_ports \<Rightarrow> uuid \<Rightarrow> uuid \<Rightarrow> string \<Rightarrow> 'd db \<times> 'w \<Rightarrow> ('d db \<times> 'w) \<times> (api_error + admin_action_response)" where
  "admin_resume_market ports = set_market_status ports False"

fun cancel_for_users ::
  "('d, 'w) engine_port \<Rightarrow> uuid list \<Rightarrow> string option \<Rightarrow> uuid \<Rightarrow> uuid list \<Rightarrow> 'w \<Rightarrow> 'w \<times> (api_error + uuid list)" where
  "cancel_for_users port [] symbol request_id canceled w = (w, Inr canceled)"
| "cancel_for_users port (user_id # users) symbol request_id canceled w =
     (let req = \<lparr>ca_request_id = request_id, ca_user_id = user_id, ca_symbol = symbol\<rparr>
      in case engine_call port (\<lambda>send. client_cancel_all send req) (CancelAll req) request_id w of
           (w', Inl err) \<Rightarrow> (w', Inl (engine_error err request_id))
         | (w', Inr ack) \<Rightarrow> cancel_for_users port users symbol request_id (canceled @ cl_order_ids ack) w')"

definition cancel_all_in_market ::
  "('d, 'w) admin_ports \<Rightarrow> uuid \<Rightarrow> uuid \<Rightarrow> string \<Rightarrow> 'd db \<times> 'w \<Rightarrow> ('d db \<times> 'w) \<times> (api_error + admin_action_response)" where
  "cancel_all_in_market ports caller request_id symbol_text = (\<lambda>(db, w).
     case ensure_admin db caller request_id of
       Inl e \<Rightarrow> ((db, w), Inl e)
     | Inr admin \<Rightarrow>
         (let symbol = to_uppercase symbol_text
          in case find_market db symbol of
               None \<Rightarrow> ((db, w), Inl (admin_not_found ''Market not found'' request_id))
             | Some market \<Rightarrow>
                 (case cancel_for_users (dp_engine ports) (users_with_open_orders_in_market db symbol) (Some symbol) request_id [] w of
                    (w', Inl e) \<Rightarrow> ((db, w'), Inl e)
                  | (w', Inr canceled) \<Rightarrow>
                      audit (aw_id admin) ''market.cancel_all'' ''market'' (Some (am_id market))
                        (dp_json ports [(''symbol'', symbol), (''count'', nat_to_string (length canceled))]) request_id
                        \<lparr>aa_symbol = Some symbol, aa_status = None, aa_canceled_order_ids = canceled, aa_count = length canceled\<rparr>
                        (mark_orders_canceled canceled db, w'))))"

definition freeze_user_endpoint ::
  "('d, 'w) admin_ports \<Rightarrow> uuid \<Rightarrow> uuid \<Rightarrow> uuid \<Rightarrow> 'd db \<times> 'w \<Rightarrow> ('d db \<times> 'w) \<times> (api_error + admin_action_response)" where
  "freeze_user_endpoint ports caller request_id user_id = (\<lambda>(db, w).
     case ensure_admin db caller request_id of
       Inl e \<Rightarrow> ((db, w), Inl e)
     | Inr admin \<Rightarrow>
         (case freeze_user user_id db of
            (updated, db1) \<Rightarrow>
              if \<not> updated then ((db1, w), Inl (admin_not_found ''User not found'' request_id))
              else
                (case cancel_for_users (dp_engine ports) [user_id] None request_id [] w of
                   (w', Inl e) \<Rightarrow> ((db1, w'), Inl e)
                 | (w', Inr canceled) \<Rightarrow>
                     audit (aw_id admin) ''user.freeze'' ''user'' (Some user_id)
                       (dp_json ports [(''canceledOrderCount'', nat_to_string (length canceled))]) request_id
                       \<lparr>aa_symbol = None, aa_status = Some ''frozen'', aa_canceled_order_ids = canceled, aa_count = length canceled\<rparr>
                       (mark_orders_canceled canceled db1, w'))))"

record engine_market_state_response =
  em_symbol :: string
  em_status :: string
  em_open_order_count :: nat
  em_best_bid :: "(string \<times> string) option"
  em_best_ask :: "(string \<times> string) option"
  em_seq :: "u64 option"

definition best_level :: "('d \<Rightarrow> string) \<Rightarrow> ('d \<times> 'd) list \<Rightarrow> (string \<times> string) option" where
  "best_level to_string levels = (case levels of [] \<Rightarrow> None | (price, qty) # _ \<Rightarrow> Some (to_string price, to_string qty))"

fun market_states ::
  "('d, 'w) admin_ports \<Rightarrow> uuid \<Rightarrow> market_state_row list \<Rightarrow> 'w \<Rightarrow> 'w \<times> engine_market_state_response list" where
  "market_states ports request_id [] w = (w, [])"
| "market_states ports request_id (row # rows) w =
     (let req = \<lparr>sr_request_id = request_id, sr_symbol = mt_symbol row, sr_depth = 1\<rparr>
      in case engine_call (dp_engine ports) (\<lambda>send. client_snapshot send req) (Snapshot req) request_id w of
           (w', r) \<Rightarrow>
             (let snap = (case r of Inl _ \<Rightarrow> None | Inr s \<Rightarrow> Some s);
                  item = \<lparr>em_symbol = mt_symbol row, em_status = mt_status row, em_open_order_count = mt_open_order_count row,
                          em_best_bid = Option.bind snap (\<lambda>s. best_level (dp_to_string ports) (bs_bids s)),
                          em_best_ask = Option.bind snap (\<lambda>s. best_level (dp_to_string ports) (bs_asks s)),
                          em_seq = map_option bs_seq snap\<rparr>
              in case market_states ports request_id rows w' of (w'', items) \<Rightarrow> (w'', item # items)))"

definition engine_state_endpoint ::
  "('d, 'w) admin_ports \<Rightarrow> uuid \<Rightarrow> uuid \<Rightarrow> 'd db \<times> 'w \<Rightarrow> ('d db \<times> 'w) \<times> (api_error + engine_market_state_response list)" where
  "engine_state_endpoint ports caller request_id = (\<lambda>(db, w).
     case ensure_admin db caller request_id of
       Inl e \<Rightarrow> ((db, w), Inl e)
     | Inr _ \<Rightarrow> (case market_states ports request_id (market_state db) w of (w', items) \<Rightarrow> ((db, w'), Inr items)))"

section \<open>Only administrators act, and every action is audited\<close>

datatype admin_call = HaltCall string | ResumeCall string | CancelAllCall string | FreezeCall uuid

definition admin_step ::
  "('d, 'w) admin_ports \<Rightarrow> uuid \<Rightarrow> uuid \<Rightarrow> admin_call \<Rightarrow> 'd db \<times> 'w \<Rightarrow> ('d db \<times> 'w) \<times> (api_error + admin_action_response)" where
  "admin_step ports caller request_id call s =
     (case call of
        HaltCall symbol \<Rightarrow> admin_halt_market ports caller request_id symbol s
      | ResumeCall symbol \<Rightarrow> admin_resume_market ports caller request_id symbol s
      | CancelAllCall symbol \<Rightarrow> cancel_all_in_market ports caller request_id symbol s
      | FreezeCall user_id \<Rightarrow> freeze_user_endpoint ports caller request_id user_id s)"

definition active_admin :: "'d db \<Rightarrow> uuid \<Rightarrow> bool" where
  "active_admin db caller \<longleftrightarrow> (\<exists>u. List.find (has_id caller) (db_users db) = Some u \<and> us_is_admin u \<and> us_status u = ''active'')"

lemma ensure_admin_cases:
  "ensure_admin db caller rq = (if active_admin db caller then Inr \<lparr>aw_id = caller, aw_is_admin = True, aw_status = ''active''\<rparr> else Inl (forbidden rq))"
  by (auto simp: ensure_admin_def find_admin_user_def active_admin_def has_id_def split: option.splits dest: find_SomeD)

text \<open>How an action may change the database: it leaves the accounts, their ledger and everything but its own tables alone.\<close>

definition admin_frame :: "'d db \<Rightarrow> 'd db \<Rightarrow> bool" where
  "admin_frame db db' \<longleftrightarrow> db_balances db' = db_balances db \<and> db_ledger_entries db' = db_ledger_entries db \<and> db_trades db' = db_trades db
     \<and> db_api_keys db' = db_api_keys db \<and> map us_id (db_users db') = map us_id (db_users db)
     \<and> map us_email (db_users db') = map us_email (db_users db) \<and> db_refresh_tokens db' = db_refresh_tokens db"

lemma admin_frame_refl [simp]: "admin_frame db db"
  by (simp add: admin_frame_def)

lemma statement_frames [simp]:
  "admin_frame db (snd (update_market_status symbol status db))" "admin_frame db (mark_orders_canceled ids db)"
  "admin_frame db (snd (freeze_user i db))"
  by (auto simp: admin_frame_def update_market_status_def mark_orders_canceled_def freeze_user_def update_rows_def)

lemma admin_frame_trans: "admin_frame db1 db2 \<Longrightarrow> admin_frame db2 db3 \<Longrightarrow> admin_frame db1 db3"
  by (simp add: admin_frame_def)

lemma audit_cases:
  assumes "audit actor action target_type target_id metadata rq response (db, w) = ((db', w'), r)"
  shows "w' = w \<and> admin_frame db db' \<and> db_users db' = db_users db \<and> db_markets db' = db_markets db \<and> db_orders db' = db_orders db
    \<and> (case r of Inl _ \<Rightarrow> db' = db
       | Inr x \<Rightarrow> x = response \<and> db_audit_log db' = db_audit_log db @ [\<lparr>al_actor_user_id = Some actor, al_action = action,
           al_target_type = target_type, al_target_id = target_id, al_metadata = metadata\<rparr>])"
  using assms by (auto simp: audit_def insert_audit_log_def admin_frame_def split: if_splits sum.splits)

lemma statement_logs [simp]:
  "db_audit_log (snd (update_market_status symbol status db)) = db_audit_log db" "db_audit_log (mark_orders_canceled ids db) = db_audit_log db"
  "db_audit_log (snd (freeze_user i db)) = db_audit_log db"
  by (simp_all add: update_market_status_def mark_orders_canceled_def freeze_user_def)

definition audited :: "uuid \<Rightarrow> 'd db \<times> 'w \<Rightarrow> ('d db \<times> 'w) \<times> (api_error + admin_action_response) \<Rightarrow> bool" where
  "audited caller s = (\<lambda>(s', r). admin_frame (fst s) (fst s') \<and>
     (case r of Inl _ \<Rightarrow> db_audit_log (fst s') = db_audit_log (fst s)
      | Inr _ \<Rightarrow> \<exists>entry. db_audit_log (fst s') = db_audit_log (fst s) @ [entry] \<and> al_actor_user_id entry = Some caller))"

lemma audited_audit:
  assumes "admin_frame db db1" and "db_audit_log db1 = db_audit_log db"
  shows "audited actor (db, w) (audit actor action target_type target_id metadata rq response (db1, w1))"
proof -
  obtain db' w' r where a: "audit actor action target_type target_id metadata rq response (db1, w1) = ((db', w'), r)" by (metis surj_pair)
  from audit_cases [OF a] assms show ?thesis unfolding a audited_def
    by (auto split: sum.splits dest: admin_frame_trans)
qed

lemma audited_error: "admin_frame db db1 \<Longrightarrow> db_audit_log db1 = db_audit_log db \<Longrightarrow> audited caller (db, w) ((db1, w1), Inl e)"
  by (simp add: audited_def)

lemma admin_step_audited: "active_admin (fst s) caller \<Longrightarrow> audited caller s (admin_step ports caller rq call s)"
proof -
  obtain db w where s: "s = (db, w)" by (cases s)
  assume "active_admin (fst s) caller"
  then have admin: "active_admin db caller" by (simp add: s)
  have market: "audited caller (db, w) (set_market_status ports halting caller rq symbol (db, w))" for halting symbol
    using admin by (simp add: set_market_status_def ensure_admin_cases Let_def audited_audit audited_error split: option.split prod.split sum.split)
  have all: "audited caller (db, w) (cancel_all_in_market ports caller rq symbol (db, w))" for symbol
    using admin by (simp add: cancel_all_in_market_def ensure_admin_cases Let_def audited_audit audited_error split: option.split prod.split sum.split)
  have freeze: "audited caller (db, w) (freeze_user_endpoint ports caller rq i (db, w))" for i
  proof -
    obtain updated db1 where f: "freeze_user i db = (updated, db1)" by fastforce
    then have "db1 = snd (freeze_user i db)" by simp
    then have db1: "admin_frame db db1" "db_audit_log db1 = db_audit_log db" by simp_all
    then have "admin_frame db (mark_orders_canceled ids db1)" for ids using admin_frame_trans statement_frames(2) by blast
    with admin f db1 show ?thesis
      by (simp add: freeze_user_endpoint_def ensure_admin_cases audited_audit audited_error del: cancel_for_users.simps split: prod.split sum.split)
  qed
  show ?thesis unfolding s
    by (cases call) (simp_all add: admin_step_def admin_halt_market_def admin_resume_market_def market all freeze)
qed

lemma admin_step_refused: "\<not> active_admin (fst s) caller \<Longrightarrow> admin_step ports caller rq call s = (s, Inl (forbidden rq))"
  by (cases s; cases call) (simp_all add: admin_step_def admin_halt_market_def admin_resume_market_def set_market_status_def
      cancel_all_in_market_def freeze_user_endpoint_def ensure_admin_cases)

lemma admin_step_frame: "admin_frame (fst s) (fst (fst (admin_step ports caller rq call s)))"
  using admin_step_audited [of s caller ports rq call] admin_step_refused [of s caller ports rq call]
  by (cases "active_admin (fst s) caller") (auto simp: audited_def split: prod.split_asm)

text \<open>
  C31. Administration is restricted and leaves a trail: a call by anyone who is not an active administrator changes neither database nor
  engine and is refused; every successful call adds exactly one audit entry naming its caller; and no call touches a balance, a ledger
  entry, an API key or a session.
\<close>

theorem admin_actions_audited:
  shows "(\<not> active_admin (fst s) caller \<longrightarrow> admin_step ports caller rq call s = (s, Inl (forbidden rq)))
    \<and> (\<forall>s' response. admin_step ports caller rq call s = (s', Inr response) \<longrightarrow>
        active_admin (fst s) caller \<and>
        (\<exists>entry. db_audit_log (fst s') = db_audit_log (fst s) @ [entry] \<and> al_actor_user_id entry = Some caller))
    \<and> admin_frame (fst s) (fst (fst (admin_step ports caller rq call s)))"
proof (cases "active_admin (fst s) caller")
  case True
  from admin_step_audited [OF this, of ports rq call] admin_step_frame [of s ports caller rq call] True show ?thesis
    by (auto simp: audited_def split: prod.split_asm sum.split_asm)
qed (simp add: admin_step_refused)

section \<open>Halting a market stops it everywhere\<close>

text \<open>The engine behind the client: its request handler, whose internal errors close the connection.\<close>

definition engine_over :: "'d::linordered_idom engine_ports \<Rightarrow> ('d, 'd engine_state) engine_port" where
  "engine_over eports request request_id st =
     (case handle_request eports st request of
        None \<Rightarrow> (st, Inl ClientTimeout)
      | Some (st', Inl _) \<Rightarrow> (st', Inl ClientIo)
      | Some (st', Inr bundle) \<Rightarrow> (st', Inr (rb_response bundle)))"

lemma set_market_status_Inr:
  assumes "set_market_status ports halting caller rq symbol (db, w) = ((db', w'), Inr response)"
  shows "\<exists>m ack. find_market db (to_uppercase symbol) = Some m
    \<and> (let req = \<lparr>mc_request_id = rq, mc_symbol = to_uppercase symbol\<rparr>
       in engine_call (dp_engine ports) (\<lambda>send. if halting then client_halt_market send req else client_resume_market send req)
            (if halting then HaltMarket req else ResumeMarket req) rq w = (w', Inr ack))
    \<and> db_markets db' = db_markets (snd (update_market_status (to_uppercase symbol) (if halting then ''halted'' else ''trading'') db))"
  using assms by (auto simp: set_market_status_def Let_def split: sum.split_asm option.split_asm prod.split_asm dest!: audit_cases)

lemma engine_over_Inr:
  assumes "engine_call (engine_over eports) call request rq st = (st', Inr x)"
  shows "(\<exists>b. handle_request eports st request = Some (st', Inr b) \<and> call (\<lambda>_ _. Inr (rb_response b)) = Inr x)
    \<or> (\<exists>e. call (\<lambda>_ _. Inl e) = Inr x)"
  using assms by (auto simp: engine_call_def engine_over_def split: prod.splits option.splits sum.splits)

lemma find_updated_market:
  assumes "List.find (\<lambda>m. mk_symbol m = symbol) markets = Some m"
  shows "List.find (\<lambda>m. mk_symbol m = symbol) (update_rows (\<lambda>m. mk_symbol m = symbol) (\<lambda>m. m\<lparr>mk_status := status\<rparr>) markets) = Some (m\<lparr>mk_status := status\<rparr>)"
  using assms by (induction markets) (auto simp: update_rows_def)

text \<open>
  C32. Halting a market through the admin endpoint stops trading in it on both sides: whatever requests other than a resume the engine
  serves afterwards, it refuses every further valid order of the market, and the API places no order in it either.
\<close>

theorem admin_halt_stops_market:
  assumes halted: "admin_halt_market ports caller rq symbol (db, st) = ((db', st'), Inr response)" and "dp_engine ports = engine_over eports"
    and "serve eports st' reqs = Some (st1, bundles)" and "\<And>m. ResumeMarket m \<in> set reqs \<Longrightarrow> mc_symbol m \<noteq> to_uppercase symbol"
    and "validate_wire_order i wo = None" and "eo_symbol wo = to_uppercase symbol" and "to_uppercase (pi_market input) = to_uppercase symbol"
  shows "handle_request eports st1 (Place \<lparr>pr_request_id = i, pr_order = wo\<rparr>) = Some (st1, Inr (market_halted i))
    \<and> (\<exists>r. api_place_order aports u rq' oid (Some input) db' = (db', None, r) \<and> (\<forall>x. r \<noteq> Inr (201, x)))"
proof -
  let ?req = "\<lparr>mc_request_id = rq, mc_symbol = to_uppercase symbol\<rparr>"
  from set_market_status_Inr [OF halted [unfolded admin_halt_market_def]] assms(2) obtain m ack
    where m: "find_market db (to_uppercase symbol) = Some m"
      and call: "engine_call (engine_over eports) (\<lambda>send. client_halt_market send ?req) (HaltMarket ?req) rq st = (st', Inr ack)"
      and markets: "db_markets db' = db_markets (snd (update_market_status (to_uppercase symbol) ''halted'' db))" by (auto simp: Let_def)
  from engine_over_Inr [OF call] obtain b where h: "handle_request eports st (HaltMarket ?req) = Some (st', Inr b)"
    by (auto simp: client_halt_market_def)
  then have "st' = fst (halt_market eports st ?req)" by (simp add: handle_request_def)
  then have "to_uppercase symbol \<in> es_halted_symbols st'" by (simp add: halt_market_def market_status_response_def)
  from serve_stays_halted [OF this assms(3,4)] assms(5,6) have engine: "handle_request eports st1 (Place \<lparr>pr_request_id = i, pr_order = wo\<rparr>) = Some (st1, Inr (market_halted i))"
    by (intro place_while_halted) simp_all
  from m obtain mr where "List.find (\<lambda>m. mk_symbol m = to_uppercase symbol) (db_markets db) = Some mr" by (auto simp: find_market_def)
  from find_updated_market [OF this, of "''halted''"] markets
  have "get_market_assets db' (to_uppercase symbol) = Some (mk_id mr, mk_base_asset_id mr, mk_quote_asset_id mr, ''halted'')"
    by (simp add: get_market_assets_def update_market_status_def)
  with assms(7) have "\<exists>r. api_place_order aports u rq' oid (Some input) db' = (db', None, r) \<and> (\<forall>x. r \<noteq> Inr (201, x))"
    by (auto simp: api_place_order_def Let_def split: option.splits sum.splits)
  with engine show ?thesis by blast
qed

section \<open>A frozen account is shut out\<close>

lemma freeze_endpoint_Inr:
  assumes "freeze_user_endpoint ports caller rq v (db, w) = ((db', w'), Inr response)"
  shows "admin_frame db db' \<and> (\<exists>u \<in> set (db_users db'). us_id u = v \<and> us_status u = ''frozen'')"
proof -
  obtain updated db1 where f: "freeze_user v db = (updated, db1)" by fastforce
  from assms f obtain ids response' actor metadata w1 where "updated"
    and a: "audit actor ''user.freeze'' ''user'' (Some v) metadata rq response' (mark_orders_canceled ids db1, w1) = ((db', w'), Inr response)"
    by (auto simp: freeze_user_endpoint_def simp del: cancel_for_users.simps split: sum.split_asm prod.split_asm if_split_asm)
  from f \<open>updated\<close> obtain u where "u \<in> set (db_users db)" "freezable v u" by (auto simp: freeze_user_def list_ex_iff)
  then have "u\<lparr>us_status := ''frozen''\<rparr> \<in> set (db_users db1)" using f by (force simp: freeze_user_def update_rows_def)
  moreover have "db_users db' = db_users db1" using audit_cases [OF a] by (simp add: mark_orders_canceled_def)
  moreover have "admin_frame db db'" using audit_cases [OF a] f statement_frames(2,3) admin_frame_trans by (metis snd_conv)
  ultimately show ?thesis using \<open>freezable v u\<close> by (auto simp: freezable_def intro!: bexI [of _ "u\<lparr>us_status := ''frozen''\<rparr>"])
qed

lemma inactive_user_refused:
  assumes "pg_ok (sv_repository st)" and "u \<in> set (db_users (sv_repository st))" and "us_status u \<noteq> ''active''"
  shows "normalize_email (li_email input) = us_email u \<Longrightarrow> snd (auth_login aports cfg pg_auth_repository env input ip st) \<noteq> Inr outcome"
    and "pg_tokens (sv_repository st) (hash_refresh_token aports token) = Some t \<Longrightarrow> rt_user_id t = us_id u \<Longrightarrow>
      snd (auth_refresh aports cfg pg_auth_repository env token st) \<noteq> Inr pair"
proof -
  have status: "au_status (user_of_row u) \<noteq> Active" using assms(3) by (simp add: user_of_row_def from_db_def)
  have "pg_logins (sv_repository st) (us_email u) = Some (user_of_row u)" "pg_users (sv_repository st) (us_id u) = Some (user_of_row u)"
    using assms(1,2) by (auto simp: pg_logins_def pg_users_def pg_ok_def find_key_iff)
  note rows = this
  show "snd (auth_login aports cfg pg_auth_repository env input ip st) \<noteq> Inr outcome" if "normalize_email (li_email input) = us_email u"
  proof -
    have "verify_login aports pg_auth_repository (us_email u) p (sv_repository st) = Inl AuthInvalidCredentials" for p
      using rows(1) status by (simp add: verify_login_def pg.find_user_by_email)
    with that show ?thesis
      by (auto simp: auth_login_def normalised_email_or_error_def ensure_login_allowed_def Let_def split: sum.splits prod.splits)
  qed
  show "snd (auth_refresh aports cfg pg_auth_repository env token st) \<noteq> Inr pair"
    if "pg_tokens (sv_repository st) (hash_refresh_token aports token) = Some t" "rt_user_id t = us_id u"
    using that rows(2) status
    by (auto simp: auth_refresh_def pg.find_refresh_token pg.find_user_by_id Let_def split: sum.splits prod.splits)
qed

text \<open>
  C33. Freezing an account shuts its owner out of the session endpoints: after a successful freeze, whatever signups, logins and
  refreshes follow, neither the account's password nor any of its refresh tokens is answered with tokens.
\<close>

theorem frozen_user_shut_out:
  assumes frozen: "freeze_user_endpoint ports caller rq v (db, w) = ((db', w'), Inr response)" and "pg_ok db" and "sv_repository st = db'"
    and "u \<in> set (db_users db')" and "us_id u = v"
  shows "(normalize_email (li_email input) = us_email u \<longrightarrow>
      snd (auth_login aports cfg pg_auth_repository env input ip (auth_run aports cfg pg_auth_repository calls st)) \<noteq> Inr outcome)
    \<and> (pg_tokens (sv_repository (auth_run aports cfg pg_auth_repository calls st)) (hash_refresh_token aports token) = Some t \<and> rt_user_id t = v \<longrightarrow>
      snd (auth_refresh aports cfg pg_auth_repository env token (auth_run aports cfg pg_auth_repository calls st)) \<noteq> Inr pair)"
proof -
  note fr = freeze_endpoint_Inr [OF frozen]
  then have ok: "pg_ok db'" using assms(2) by (auto simp: pg_ok_def admin_frame_def)
  with fr assms(4,5) have "us_status u = ''frozen''" by (auto simp: pg_ok_def distinct_map dest: inj_onD)
  then have "us_status u \<noteq> ''active''" by simp
  moreover have "pg_ok (sv_repository (auth_run aports cfg pg_auth_repository calls st)) \<and> u \<in> set (db_users (sv_repository (auth_run aports cfg pg_auth_repository calls st)))"
    using ok assms(3,4) by (intro kept.run_keeps) simp
  ultimately show ?thesis using assms(5) inactive_user_refused [where st = "auth_run aports cfg pg_auth_repository calls st" and u = u] by simp
qed

text \<open>The API keys of a frozen account go on working: verification never looks at the account.\<close>

theorem frozen_user_keys_still_sign:
  assumes "freeze_user_endpoint ports caller rq v (db, w) = ((db', w'), r)"
  shows "verify_signature kports pk now rq' req db' = verify_signature kports pk now rq' req db"
proof -
  have "admin_frame db db'"
    using assms admin_step_frame [of "(db, w)" ports caller rq "FreezeCall v"] by (simp add: admin_step_def)
  then have keys: "db_api_keys db' = db_api_keys db" by (simp add: admin_frame_def)
  show ?thesis unfolding verify_signature_def find_api_key_def decrypt_api_key_secret_def keys by (rule refl)
qed

section \<open>Sample actions\<close>

definition sample_admin_db :: "real db" where
  "sample_admin_db = update_user 2 (\<lambda>u. u\<lparr>us_is_admin := True\<rparr>) sample_db"

definition sample_admin_ports :: "(real, nat) admin_ports" where
  "sample_admin_ports =
     \<lparr>dp_engine = (\<lambda>req rid w. (w + 1, Inr (Ack \<lparr>ar_request_id = rid, ar_result = AckCancelAll \<lparr>cl_order_ids = [101], cl_seq = 1\<rparr>\<rparr>))),
      dp_json = (\<lambda>fields. ''{}''), dp_to_string = (\<lambda>x. [])\<rparr>"

lemma sample_freeze:
  "\<exists>db. freeze_user_endpoint sample_admin_ports 2 9 1 (sample_admin_db, 0) = ((db, 1), Inr \<lparr>aa_symbol = None, aa_status = Some ''frozen'',
     aa_canceled_order_ids = [101], aa_count = 1\<rparr>) \<and> map us_status (db_users db) = [''frozen'', ''active''] \<and> map us_id (db_users db) = [1, 2]
     \<and> map us_email (db_users db) = [''ann@example.com'', ''bob@example.com'']"
  by (simp add: freeze_user_endpoint_def ensure_admin_def find_admin_user_def sample_admin_db_def sample_db_def update_user_def update_rows_def
      has_id_def freeze_user_def freezable_def engine_call_def client_cancel_all_def sample_admin_ports_def audit_def insert_audit_log_def
      mark_orders_canceled_def Let_def)

theorem admin_actions_audited_witness:
  "\<exists>s' response entry. admin_step sample_admin_ports 2 9 (FreezeCall 1) (sample_admin_db, 0) = (s', Inr response)
     \<and> db_audit_log (fst s') = db_audit_log sample_admin_db @ [entry] \<and> al_actor_user_id entry = Some 2"
proof -
  from sample_freeze obtain db response where "admin_step sample_admin_ports 2 9 (FreezeCall 1) (sample_admin_db, 0) = ((db, 1), Inr response)"
    by (auto simp: admin_step_def)
  with admin_actions_audited [of "(sample_admin_db, 0)" 2 sample_admin_ports 9 "FreezeCall 1"] show ?thesis by auto
qed

theorem frozen_user_shut_out_witness:
  "\<exists>db. (\<exists>r. freeze_user_endpoint sample_admin_ports 2 9 1 (sample_admin_db, 0) = ((db, 1), Inr r))
     \<and> snd (auth_login sample_auth_ports sample_token_config pg_auth_repository (sample_env 10 1)
         \<lparr>li_email = ''ann@example.com'', li_password = ''secret''\<rparr> ''ip''
         (auth_run sample_auth_ports sample_token_config pg_auth_repository [] \<lparr>sv_repository = db, sv_attempts = sample_attempts 0\<rparr>)) \<noteq> Inr (LoginMfaRequired [])"
proof -
  let ?r = "\<lparr>aa_symbol = None, aa_status = Some ''frozen'', aa_canceled_order_ids = [101], aa_count = 1\<rparr>"
  from sample_freeze obtain db where f: "freeze_user_endpoint sample_admin_ports 2 9 1 (sample_admin_db, 0) = ((db, 1), Inr ?r)"
    and users: "map us_id (db_users db) = [1, 2]" "map us_email (db_users db) = [''ann@example.com'', ''bob@example.com'']"
    by (elim exE conjE)
  from users obtain u u2 where u: "db_users db = [u, u2]" "us_id u = 1" "us_email u = ''ann@example.com''" by (auto simp: map_eq_Cons_conv)
  have "pg_ok sample_admin_db" by (simp add: pg_ok_def sample_admin_db_def sample_db_def update_user_def update_rows_def has_id_def)
  with frozen_user_shut_out [OF f _ _ _ u(2), where st = "\<lparr>sv_repository = db, sv_attempts = sample_attempts 0\<rparr>" and calls = "[]"
      and input = "\<lparr>li_email = ''ann@example.com'', li_password = ''secret''\<rparr>" and env = "sample_env 10 1" and ip = "''ip''"
      and aports = sample_auth_ports and cfg = sample_token_config and outcome = "LoginMfaRequired []"] f u sample_email show ?thesis
    by auto
qed

definition sample_halt_ports :: "real engine_ports" where
  "sample_halt_ports = \<lparr>ep_serialize = (\<lambda>_. None), ep_to_vec = (\<lambda>_. Some [2]), ep_next_uuid = of_nat, ep_now_rfc3339 = (\<lambda>_. ''t'')\<rparr>"

definition sample_halt_engine :: "real engine_state" where
  "sample_halt_engine = \<lparr>es_books = Map.empty, es_command_wal = \<lparr>wal_content = [], wal_sequence = 0\<rparr>,
     es_event_log = \<lparr>el_content = [], el_sequence = 0\<rparr>, es_halted_symbols = {}, es_open_orders = [], es_ports_used = 0,
     es_snapshot_depth = 50\<rparr>"

definition sample_halt_admin :: "(real, real engine_state) admin_ports" where
  "sample_halt_admin = \<lparr>dp_engine = engine_over sample_halt_ports, dp_json = (\<lambda>fields. ''{}''), dp_to_string = (\<lambda>x. [])\<rparr>"

definition sample_place_input :: "string \<Rightarrow> place_order_input" where
  "sample_place_input market = \<lparr>pi_client_order_id = None, pi_market = market, pi_side = ''buy'', pi_order_type = ''limit'',
     pi_price = Some ''100'', pi_stop_price = None, pi_quantity = Some ''2'', pi_quote_quantity = None, pi_display_quantity = None\<rparr>"

lemma sample_symbols: "to_uppercase ''btcusdt'' = ''BTCUSDT''" "to_uppercase ''BTCUSDT'' = ''BTCUSDT''"
  by code_simp+

lemma sample_halt:
  "\<exists>db st r. admin_halt_market sample_halt_admin 2 9 ''btcusdt'' (sample_admin_db, sample_halt_engine) = ((db, st), Inr r)"
  by (simp add: admin_halt_market_def set_market_status_def ensure_admin_def find_admin_user_def find_market_def sample_admin_db_def sample_db_def
      update_user_def update_rows_def has_id_def engine_call_def engine_over_def handle_request_def halt_market_def market_status_response_def
      respond_def append_next_def saturating_succ_def sample_halt_ports_def sample_halt_engine_def sample_halt_admin_def
      client_halt_market_def audit_def insert_audit_log_def update_market_status_def sample_symbols Let_def)

theorem admin_halt_stops_market_witness:
  "\<exists>db st. (\<exists>r. admin_halt_market sample_halt_admin 2 9 ''btcusdt'' (sample_admin_db, sample_halt_engine) = ((db, st), Inr r))
     \<and> handle_request sample_halt_ports st (Place \<lparr>pr_request_id = 5, pr_order = sample_buy\<rparr>) = Some (st, Inr (market_halted 5))"
proof -
  from sample_halt obtain db st r
    where h: "admin_halt_market sample_halt_admin 2 9 ''btcusdt'' (sample_admin_db, sample_halt_engine) = ((db, st), Inr r)" by (elim exE)
  have "trim ''BTCUSDT'' \<noteq> []" by code_simp
  then have "validate_wire_order 5 sample_buy = None"
    by (simp add: validate_wire_order_def requires_price_def requires_stop_price_def is_none_or_def sample_buy_def)
  then show ?thesis using h
      admin_halt_stops_market [OF h, of sample_halt_ports "[]" st "[]" 5 sample_buy "sample_place_input ''btcusdt''"]
    by (auto simp: sample_halt_admin_def sample_buy_def sample_symbols sample_place_input_def)
qed

end
