(* ===== verification/Wallet.thy ===== *)
theory Wallet
  imports Admin "HOL-Library.List_Lexorder" "HOL-Library.Char_ord"
begin

text \<open>
  The faucet (\<open>services/api/src/handlers/account.rs\<close> and \<open>apply_faucet\<close>, \<open>get_faucet_limit\<close> in
  \<open>repositories/account.rs\<close>), the balance query of the account endpoints, and the system of all
  components that write the database: bridge, settlement worker, order endpoints, faucet, authentication, key management, two-factor and admin endpoints in any interleaving.
\<close>

section \<open>Faucet\<close>

record faucet_input =
  fi_asset :: string
  fi_amount :: string

record faucet_response =
  fo_deposit_id :: uuid
  fo_asset :: string
  fo_amount :: string
  fo_available_after :: string

definition get_faucet_limit :: "'d db \<Rightarrow> string \<Rightarrow> (uuid \<times> 'd) option" where
  "get_faucet_limit db asset_symbol =
     map_option (\<lambda>a. (at_id a, at_faucet_max a))
       (List.find (\<lambda>a. at_symbol a = asset_symbol \<and> at_status a = ''active'') (db_assets db))"

definition insert_deposit :: "'d deposit_record \<Rightarrow> ('d::linordered_field, unit) tx" where
  "insert_deposit row = (\<lambda>db.
     if \<not> 0 < dp_amount row \<or> (\<exists>d \<in> set (db_deposits db). dp_id d = dp_id row) then Inl ConstraintViolation
     else Inr ((), db\<lparr>db_deposits := db_deposits db @ [row]\<rparr>))"

text \<open>One transaction: credit, deposit row, ledger entry read back from the balance row.\<close>

definition apply_faucet :: "uuid \<Rightarrow> uuid \<Rightarrow> 'd \<Rightarrow> uuid \<Rightarrow> ('d::linordered_field, 'd) tx" where
  "apply_faucet user_id asset_id amount deposit_id =
     tx_bind (update_balance user_id asset_id amount 0) (\<lambda>b.
     tx_bind (insert_deposit \<lparr>dp_id = deposit_id, dp_user_id = user_id, dp_asset_id = asset_id, dp_amount = amount,
                              dp_status = ''completed''\<rparr>) (\<lambda>_ db.
       Inr (ba_available b, db\<lparr>db_ledger_entries := db_ledger_entries db @
         map (\<lambda>b. \<lparr>le_user_id = user_id, le_asset_id = asset_id, le_kind = ''deposit'', le_amount = amount,
           le_available_after = ba_available b, le_locked_after = ba_locked b, le_reference_type = ''deposit'',
           le_reference_id = Some deposit_id, le_engine_seq = None\<rparr>) (filter (is_account user_id asset_id) (db_balances db))\<rparr>)))"

definition faucet ::
  "'d::linordered_field api_ports \<Rightarrow> uuid \<Rightarrow> uuid \<Rightarrow> uuid \<Rightarrow> faucet_input option \<Rightarrow> 'd db \<Rightarrow> 'd db \<times> (api_error + nat \<times> faucet_response)" where
  "faucet ports user_id request_id deposit_id payload db =
     (case payload of
        None \<Rightarrow> (db, Inl (api_fail 400 Internal ''Invalid JSON body'' request_id))
      | Some input \<Rightarrow>
          (case ap_parse ports (fi_amount input) of
             None \<Rightarrow> (db, Inl (api_fail 400 Internal ''Invalid amount format'' request_id))
           | Some amount \<Rightarrow>
               if amount \<le> 0 then (db, Inl (api_fail 400 Internal ''Amount must be positive'' request_id))
               else
                 (case get_faucet_limit db (to_uppercase (fi_asset input)) of
                    None \<Rightarrow> (db, Inl (api_fail 404 NotFound ''Asset not found'' request_id))
                  | Some (asset_id, faucet_max) \<Rightarrow>
                      if faucet_max < amount
                      then (db, Inl (api_fail 400 InsufficientBalance (''Faucet limit is '' @ ap_to_string ports faucet_max) request_id))
                      else
                        (case apply_faucet user_id asset_id amount deposit_id db of
                           Inl _ \<Rightarrow> (db, Inl internal)
                         | Inr (new_available, db') \<Rightarrow>
                             (db', Inr (201, \<lparr>fo_deposit_id = deposit_id, fo_asset = to_uppercase (fi_asset input),
                                fo_amount = ap_to_string ports amount, fo_available_after = ap_to_string ports new_available\<rparr>))))))"

section \<open>Balances\<close>

record balance_response =
  br_asset :: string
  br_available :: string
  br_locked :: string
  br_total :: string

definition list_balances :: "'d db \<Rightarrow> uuid \<Rightarrow> (string \<times> 'd balance_record) list" where
  "list_balances db user_id =
     sort_key fst [(at_symbol a, b). b \<leftarrow> db_balances db, ba_user_id b = user_id, a \<leftarrow> db_assets db, at_id a = ba_asset_id b]"

definition get_balances :: "'d::linordered_field api_ports \<Rightarrow> uuid \<Rightarrow> 'd db \<Rightarrow> balance_response list" where
  "get_balances ports user_id db =
     map (\<lambda>(symbol, b). \<lparr>br_asset = symbol, br_available = ap_to_string ports (ba_available b), br_locked = ap_to_string ports (ba_locked b),
                         br_total = ap_to_string ports (ba_available b + ba_locked b)\<rparr>) (list_balances db user_id)"

section \<open>The faucet keeps the ledger invariant\<close>

lemma filter_account:
  assumes "accounts_distinct db" and "List.find (is_account u a) (db_balances db) = Some b"
  shows "filter (is_account u a) (db_balances db) = [b]"
proof -
  have "filter (\<lambda>x. account_key x = k) rows = [b]"
    if "distinct (map account_key rows)" "List.find (\<lambda>x. account_key x = k) rows = Some b" for rows :: "'a balance_record list" and k
    using that
  proof (induction rows)
    case (Cons x rows)
    show ?case
    proof (cases "account_key x = k")
      case True
      with Cons.prems have "filter (\<lambda>x. account_key x = k) rows = []" by (auto simp: filter_empty_conv image_iff)
      with True Cons.prems(2) show ?thesis by simp
    qed (use Cons in simp)
  qed simp
  with assms show ?thesis by (simp add: accounts_distinct_def is_account_key)
qed

lemma apply_faucet_inv:
  assumes inv: "ledger_inv db" and eq: "apply_faucet u a x i db = Inr (n, db')"
  shows "ledger_inv db'"
proof -
  from eq obtain b db1 where up: "update_balance u a x 0 db = Inr (b, db1)" and bal: "db_balances db' = db_balances db1"
    and led: "db_ledger_entries db' = db_ledger_entries db1 @ map (\<lambda>b. \<lparr>le_user_id = u, le_asset_id = a, le_kind = ''deposit'', le_amount = x,
           le_available_after = ba_available b, le_locked_after = ba_locked b, le_reference_type = ''deposit'',
           le_reference_id = Some i, le_engine_seq = None\<rparr>) (filter (is_account u a) (db_balances db1))"
    by (auto simp: apply_faucet_def tx_bind_Inr insert_deposit_def split: if_splits)
  note dist = ledger_inv_distinct [OF inv]
  from up obtain b0 where f: "List.find (is_account u a) (db_balances db) = Some b0"
    and rows: "db_balances db1 = update_rows (is_account u a) (credit x 0) (db_balances db)"
    by (auto simp: update_balance_Inr)
  have "List.find (is_account u a) (db_balances db1) = Some (credit x 0 b0)"
    using f unfolding rows is_account_key credited.find_updated by simp
  then have "filter (is_account u a) (db_balances db1) = [credit x 0 b0]"
    by (rule filter_account [OF update_balance_locked(2) [OF dist up]])
  with led have "\<exists>e. db_ledger_entries db' = db_ledger_entries db1 @ [e] \<and> le_user_id e = u \<and> le_asset_id e = a \<and> le_amount e = x" by simp
  with update_balance_frame [OF up] bal show ?thesis
    by (intro update_balance_ledger [OF inv up]) (auto simp: ledger_sum_def)
qed

lemma faucet_inv: "ledger_inv db \<Longrightarrow> faucet ports u rq i payload db = (db', r) \<Longrightarrow> ledger_inv db'"
  by (auto simp: faucet_def split: option.splits if_splits sum.splits dest: apply_faucet_inv)

lemma api_cancel_order_inv: "ledger_inv db \<Longrightarrow> api_cancel_order ports u rq i db = (db', r) \<Longrightarrow> ledger_inv db'"
  by (auto simp: api_cancel_order_def Let_def ledger_inv_def ledger_sum_def split: option.splits if_splits sum.splits)

section \<open>Signing up keeps the ledger invariant\<close>

lemma empty_account_inv:
  assumes inv: "ledger_inv db" and none: "List.find (is_account u a) (db_balances db) = None"
  shows "ledger_inv (db\<lparr>db_balances := db_balances db @ [\<lparr>ba_user_id = u, ba_asset_id = a, ba_available = 0, ba_locked = 0\<rparr>]\<rparr>)"
proof -
  have "(u, a) \<notin> account_key ` set (db_balances db)" using none by (auto simp: find_None_iff is_account_key)
  moreover from this inv have "ledger_sum db u a = 0" by (simp add: ledger_inv_def)
  ultimately show ?thesis using inv by (auto simp: ledger_inv_def ledger_sum_def account_key_def balance_checks_def)
qed

lemma seed_zero_balances_inv:
  assumes "ledger_inv db"
  shows "ledger_inv (seed_zero_balances u db)"
proof -
  have "ledger_inv (db\<lparr>db_balances := rows\<rparr>) \<Longrightarrow> ledger_inv (db\<lparr>db_balances := fold
      (\<lambda>asset rows. if List.find (is_account u (at_id asset)) rows \<noteq> None then rows
         else rows @ [\<lparr>ba_user_id = u, ba_asset_id = at_id asset, ba_available = 0, ba_locked = 0\<rparr>]) assets rows\<rparr>)" for assets rows
    using empty_account_inv [of "db\<lparr>db_balances := r\<rparr>" u for r]
    by (induction assets arbitrary: rows) auto
  from this [of "db_balances db"] assms show ?thesis by (simp add: seed_zero_balances_def)
qed

interpretation ledger: store_invariant pg_auth_repository ledger_inv
proof
  fix db db' :: "'d::linordered_field db" and input u
  assume "ledger_inv db" and "create_user pg_auth_repository input db = (db', u)"
  then show "ledger_inv db'"
    by (auto simp: pg_auth_repository_def pg_create_user_def Let_def intro!: seed_zero_balances_inv split: if_splits)
      (simp add: ledger_inv_def ledger_sum_def)
qed (auto simp: pg_auth_repository_def pg_insert_refresh_token_def pg_revoke_refresh_token_def pg_revoke_refresh_family_def
      ledger_inv_def ledger_sum_def split: if_splits)

section \<open>The system\<close>

text \<open>
  One transition per call that writes the database; a spawned unlock task runs as a transition of its own. The database
  and the tasks not yet run are the state.
\<close>

record 'd system =
  sy_db :: "'d db"
  sy_tasks :: "'d unlock_task list"

inductive system_step :: "'d::linordered_field event_codec \<Rightarrow> 'd system \<Rightarrow> 'd system \<Rightarrow> bool" for codec where
  store: "persist_event codec ev (sy_db s) = (db', r) \<Longrightarrow> system_step codec s (s\<lparr>sy_db := db'\<rparr>)"
| settle: "process_next codec (sy_db s) = (db', r) \<Longrightarrow> system_step codec s (s\<lparr>sy_db := db'\<rparr>)"
| place: "api_place_order ports u rq i payload (sy_db s) = (db', task, r) \<Longrightarrow>
    system_step codec s (s\<lparr>sy_db := db', sy_tasks := sy_tasks s @ [task]\<rparr>)"
| cancel: "api_cancel_order ports u rq i (sy_db s) = (db', r') \<Longrightarrow> system_step codec s (s\<lparr>sy_db := db'\<rparr>)"
| unlock: "sy_tasks s = ts1 @ task # ts2 \<Longrightarrow>
    system_step codec s (s\<lparr>sy_db := run_unlock_task task (sy_db s), sy_tasks := ts1 @ ts2\<rparr>)"
| deposit: "faucet ports u rq i input (sy_db s) = (db', r'') \<Longrightarrow> system_step codec s (s\<lparr>sy_db := db'\<rparr>)"
| authenticate: "auth_step aports cfg pg_auth_repository call \<lparr>sv_repository = sy_db s, sv_attempts = attempts\<rparr> = st \<Longrightarrow>
    system_step codec s (s\<lparr>sy_db := sv_repository st\<rparr>)"
| create_key: "create_api_key_endpoint kports kenv pgcrypto_key u rq kinput (sy_db s) = (db', rk) \<Longrightarrow> system_step codec s (s\<lparr>sy_db := db'\<rparr>)"
| revoke_key: "revoke_api_key_endpoint now u rq i (sy_db s) = (db', rr) \<Longrightarrow> system_step codec s (s\<lparr>sy_db := db'\<rparr>)"
| two_factor: "totp_step kports tports aports pgcrypto_key tenv u rq tcall (sy_db s) = db' \<Longrightarrow> system_step codec s (s\<lparr>sy_db := db'\<rparr>)"
| administer: "admin_step dports caller rq acall (sy_db s, w :: 'd engine_state) = ((db', w'), ra) \<Longrightarrow> system_step codec s (s\<lparr>sy_db := db'\<rparr>)"

text \<open>Key management and the two-factor endpoints write the key and the user table only.\<close>

lemma create_api_key_endpoint_inv:
  assumes "ledger_inv db" and "create_api_key_endpoint ports env pgcrypto_key u rq input db = (db', r)"
  shows "ledger_inv db'"
proof -
  from assms(2) have "db_balances db' = db_balances db \<and> db_ledger_entries db' = db_ledger_entries db"
    by (auto simp: create_api_key_endpoint_def create_api_key_def Let_def split: option.splits prod.splits sum.splits if_splits)
  with assms(1) show ?thesis by (simp add: ledger_inv_cong [of db' db])
qed

lemma revoke_api_key_endpoint_inv:
  assumes "ledger_inv db" and "revoke_api_key_endpoint now u rq i db = (db', r)"
  shows "ledger_inv db'"
proof -
  from assms(2) have "db_balances db' = db_balances db \<and> db_ledger_entries db' = db_ledger_entries db"
    by (auto simp: revoke_api_key_endpoint_def revoke_api_key_def split: prod.splits if_splits)
  with assms(1) show ?thesis by (simp add: ledger_inv_cong [of db' db])
qed

lemma totp_step_ledger:
  assumes "ledger_inv db" and "totp_step ports tports aports pk env caller rq call db = db'"
  shows "ledger_inv db'"
proof -
  from assms(2) have "db_balances db' = db_balances db \<and> db_ledger_entries db' = db_ledger_entries db"
    by (rule totp_step_cases) (simp_all add: update_user_def enable_totp_def disable_totp_def)
  with assms(1) show ?thesis by (simp add: ledger_inv_cong [of db' db])
qed

lemma admin_step_ledger:
  assumes "ledger_inv db" and "admin_step ports caller rq call (db, w) = ((db', w'), r)"
  shows "ledger_inv db'"
  using admin_step_frame [of "(db, w)" ports caller rq call] assms by (simp add: admin_frame_def ledger_inv_cong [of db' db])

lemma persist_event_inv:
  assumes "ledger_inv db" and "persist_event codec ev db = (db', r)"
  shows "ledger_inv db'"
proof -
  have "db_balances (fst (persist_event codec ev db)) = db_balances db \<and>
      db_ledger_entries (fst (persist_event codec ev db)) = db_ledger_entries db"
    unfolding persist_event_def by (simp split: option.split)
  with assms show ?thesis by (simp add: ledger_inv_cong [of db' db])
qed

lemma system_step_inv: "system_step codec s s' \<Longrightarrow> ledger_inv (sy_db s) \<Longrightarrow> ledger_inv (sy_db s')"
proof (induction rule: system_step.induct)
  case (store ev s db' r)
  from persist_event_inv [OF store(2,1)] show ?case by simp
next
  case (settle s db' r)
  from process_next_inv [OF settle(2,1)] show ?case by simp
next
  case (place ports u rq i payload s db' task r)
  from api_place_order_inv [OF place(2,1)] show ?case by simp
next
  case (cancel ports u rq i s db' r')
  from api_cancel_order_inv [OF cancel(2,1)] show ?case by simp
next
  case (unlock s ts1 task ts2)
  from run_unlock_task_inv [OF unlock(2)] show ?case by simp
next
  case (deposit ports u rq i input s db' r'')
  from faucet_inv [OF deposit(2,1)] show ?case by simp
next
  case (authenticate aports cfg call s attempts st)
  have "ledger_inv (sv_repository (auth_step aports cfg pg_auth_repository call \<lparr>sv_repository = sy_db s, sv_attempts = attempts\<rparr>))"
    by (rule ledger.step_keeps) (simp add: authenticate(2))
  then show ?case by (simp add: authenticate(1))
next
  case (create_key kports kenv pgcrypto_key u rq kinput s db' rk)
  from create_api_key_endpoint_inv [OF create_key(2,1)] show ?case by simp
next
  case (revoke_key now u rq i s db' rr)
  from revoke_api_key_endpoint_inv [OF revoke_key(2,1)] show ?case by simp
next
  case (two_factor kports tports aports pgcrypto_key tenv u rq tcall s db')
  from totp_step_ledger [OF two_factor(2,1)] show ?case by simp
next
  case (administer dports caller rq acall s w db' w' ra)
  from admin_step_ledger [OF administer(2,1)] show ?case by simp
qed



end
