(* ===== verification/Proof_Of_Reserves.thy ===== *)
theory Proof_Of_Reserves
  imports Exchange_Db BTree_Map "HOL-Library.List_Lexorder" "HOL-Library.Char_ord" "HOL-Library.Product_Lexorder"
begin

text \<open>
  Proof of reserves (\<open>services/api/src/repositories/proof.rs\<close>): liabilities per user and asset, the
  Merkle tree over them, the proofs handed to users and their check. SHA-256 and the text forms
  of identifiers and decimals are parameters.
\<close>

section \<open>Data\<close>

definition EMPTY_ROOT_PAYLOAD :: string where
  "EMPTY_ROOT_PAYLOAD = ''aether:por:v1:empty''"

definition INTERNAL_PREFIX :: string where
  "INTERNAL_PREFIX = ''aether:por:v1:node''"

definition LEAF_PREFIX :: string where
  "LEAF_PREFIX = ''aether:por:v1:leaf''"

record proof_liability =
  pl_user_id :: uuid
  pl_asset :: string
  pl_total :: string

record proof_snapshot =
  sn_merkle_root :: string
  sn_liabilities :: "proof_liability list"

record liability_summary =
  ls_asset :: string
  ls_total :: string

record user_proof_entry =
  ue_asset :: string
  ue_total :: string
  ue_leaf_payload :: string
  ue_leaf_hash :: string
  ue_sibling_hashes :: "string list"

record merkle_leaf =
  ml_liability :: proof_liability
  ml_payload :: string
  ml_hash :: string

record merkle_tree =
  mt_leaves :: "merkle_leaf list"
  mt_root :: string

text \<open>Parameters: \<open>Sha256::digest\<close>, \<open>Uuid::to_string\<close>, \<open>Decimal\<close> in canonical form and parsed.\<close>

record 'd proof_ports =
  pp_digest :: "u8 list \<Rightarrow> u8 list"
  pp_show_uuid :: "uuid \<Rightarrow> string"
  pp_canonical_decimal :: "'d \<Rightarrow> string"
  pp_parse :: "string \<Rightarrow> 'd option"

section \<open>Hashing\<close>

definition HEX :: string where
  "HEX = ''0123456789abcdef''"

fun hex_lower :: "u8 list \<Rightarrow> string" where
  "hex_lower [] = []"
| "hex_lower (byte # bytes) = HEX ! (unat byte div 16) # HEX ! (unat byte mod 16) # hex_lower bytes"

definition as_bytes :: "string \<Rightarrow> u8 list" where
  "as_bytes s = map of_char s"

definition hash_hex :: "(u8 list \<Rightarrow> u8 list) \<Rightarrow> string \<Rightarrow> string" where
  "hash_hex digest payload = hex_lower (digest (as_bytes payload))"

definition node_payload :: "string \<Rightarrow> string \<Rightarrow> string" where
  "node_payload left right =
     (let (first, second) = (if left \<le> right then (left, right) else (right, left))
      in INTERNAL_PREFIX @ '':'' @ first @ '':'' @ second)"

definition hash_pair :: "(u8 list \<Rightarrow> u8 list) \<Rightarrow> string \<Rightarrow> string \<Rightarrow> string" where
  "hash_pair digest left right = hash_hex digest (node_payload left right)"

section \<open>The tree\<close>

fun next_level :: "(u8 list \<Rightarrow> u8 list) \<Rightarrow> string list \<Rightarrow> string list" where
  "next_level digest (left # right # level) = hash_pair digest left right # next_level digest level"
| "next_level digest [single] = [single]"
| "next_level digest [] = []"

lemma length_next_level [simp]: "length (next_level digest level) = (length level + 1) div 2"
  by (induction digest level rule: next_level.induct) auto

function merkle_loop :: "(u8 list \<Rightarrow> u8 list) \<Rightarrow> string list \<Rightarrow> string list" where
  "merkle_loop digest level = (if 1 < length level then merkle_loop digest (next_level digest level) else level)"
  by pat_completeness auto
termination by (relation "measure (\<lambda>(_, level). length level)") auto

declare merkle_loop.simps [simp del]

definition merkle_root :: "(u8 list \<Rightarrow> u8 list) \<Rightarrow> string list \<Rightarrow> string" where
  "merkle_root digest level =
     (if level = [] then hash_hex digest EMPTY_ROOT_PAYLOAD
      else (case merkle_loop digest level of [] \<Rightarrow> hash_hex digest EMPTY_ROOT_PAYLOAD | top_hash # _ \<Rightarrow> top_hash))"

function proof_for_index :: "(u8 list \<Rightarrow> u8 list) \<Rightarrow> string list \<Rightarrow> nat \<Rightarrow> string list" where
  "proof_for_index digest level index =
     (if 1 < length level then
        (let sibling_index = (if even index then index + 1 else index - 1)
         in (if sibling_index < length level then [level ! sibling_index] else [])
              @ proof_for_index digest (next_level digest level) (index div 2))
      else [])"
  by pat_completeness auto
termination by (relation "measure (\<lambda>(_, level, _). length level)") auto

declare proof_for_index.simps [simp del]

definition leaf_payload :: "'d proof_ports \<Rightarrow> proof_liability \<Rightarrow> string" where
  "leaf_payload ports liability =
     LEAF_PREFIX @ '':'' @ pp_show_uuid ports (pl_user_id liability) @ '':'' @ pl_asset liability @ '':'' @ pl_total liability"

definition merkle_tree_new :: "'d proof_ports \<Rightarrow> proof_liability list \<Rightarrow> merkle_tree" where
  "merkle_tree_new ports liabilities =
     (let sorted_liabilities = sort_key (\<lambda>l. (pl_asset l, pl_user_id l, pl_total l)) liabilities;
          leaves = map (\<lambda>l. \<lparr>ml_liability = l, ml_payload = leaf_payload ports l,
                             ml_hash = hash_hex (pp_digest ports) (leaf_payload ports l)\<rparr>) sorted_liabilities
      in \<lparr>mt_leaves = leaves, mt_root = merkle_root (pp_digest ports) (map ml_hash leaves)\<rparr>)"

definition entries_for_user :: "'d proof_ports \<Rightarrow> merkle_tree \<Rightarrow> uuid \<Rightarrow> user_proof_entry list" where
  "entries_for_user ports tree user_id =
     (let hashes = map ml_hash (mt_leaves tree)
      in map (\<lambda>(index, leaf). \<lparr>ue_asset = pl_asset (ml_liability leaf), ue_total = pl_total (ml_liability leaf),
                               ue_leaf_payload = ml_payload leaf, ue_leaf_hash = ml_hash leaf,
                               ue_sibling_hashes = proof_for_index (pp_digest ports) hashes index\<rparr>)
           (filter (\<lambda>(_, leaf). pl_user_id (ml_liability leaf) = user_id) (enumerate 0 (mt_leaves tree))))"

definition user_proof_entries :: "'d proof_ports \<Rightarrow> proof_snapshot \<Rightarrow> uuid \<Rightarrow> user_proof_entry list" where
  "user_proof_entries ports snap user_id = entries_for_user ports (merkle_tree_new ports (sn_liabilities snap)) user_id"

definition verify_proof :: "(u8 list \<Rightarrow> u8 list) \<Rightarrow> string \<Rightarrow> string list \<Rightarrow> string \<Rightarrow> bool" where
  "verify_proof digest payload sibling_hashes root_hash =
     (foldl (hash_pair digest) (hash_hex digest payload) sibling_hashes = root_hash)"

section \<open>Snapshots\<close>

definition current_liabilities :: "'d::linordered_field proof_ports \<Rightarrow> 'd db \<Rightarrow> proof_liability list" where
  "current_liabilities ports db =
     map (\<lambda>(asset, user_id, t). \<lparr>pl_user_id = user_id, pl_asset = asset, pl_total = pp_canonical_decimal ports t\<rparr>)
       (sort_key (\<lambda>(asset, user_id, _). (asset, user_id))
         [(at_symbol a, ba_user_id b, ba_available b + ba_locked b).
            b \<leftarrow> db_balances db, a \<leftarrow> db_assets db, at_id a = ba_asset_id b, u \<leftarrow> db_users db, us_id u = ba_user_id b,
            0 < ba_available b + ba_locked b \<and> us_status u \<noteq> ''closed'' \<and> \<not> us_is_mm u])"

text \<open>The table of snapshots in the order of their generation.\<close>

definition latest_snapshot :: "proof_snapshot list \<Rightarrow> proof_snapshot option" where
  "latest_snapshot snapshots = (if snapshots = [] then None else Some (last snapshots))"

definition insert_snapshot :: "string \<Rightarrow> proof_liability list \<Rightarrow> proof_snapshot list \<Rightarrow> proof_snapshot list \<times> proof_snapshot" where
  "insert_snapshot root_hash liabilities snapshots =
     (let row = \<lparr>sn_merkle_root = root_hash, sn_liabilities = liabilities\<rparr> in (snapshots @ [row], row))"

definition ensure_current_snapshot ::
  "'d::linordered_field proof_ports \<Rightarrow> 'd db \<Rightarrow> proof_snapshot list \<Rightarrow> proof_snapshot list \<times> proof_snapshot" where
  "ensure_current_snapshot ports db snapshots =
     (let liabilities = current_liabilities ports db; tree = merkle_tree_new ports liabilities
      in case latest_snapshot snapshots of
           Some latest \<Rightarrow>
             if sn_merkle_root latest = mt_root tree then (snapshots, latest)
             else insert_snapshot (mt_root tree) liabilities snapshots
         | None \<Rightarrow> insert_snapshot (mt_root tree) liabilities snapshots)"

definition add_liability :: "'d::linordered_field proof_ports \<Rightarrow> proof_liability \<Rightarrow> (string, 'd) btree \<Rightarrow> (string, 'd) btree" where
  "add_liability ports l totals =
     (let amount = (case pp_parse ports (pl_total l) of Some d \<Rightarrow> d | None \<Rightarrow> 0)
      in bt_insert (pl_asset l) (case bt_get totals (pl_asset l) of Some t \<Rightarrow> t + amount | None \<Rightarrow> amount) totals)"

definition summarize_liabilities :: "'d::linordered_field proof_ports \<Rightarrow> proof_snapshot \<Rightarrow> liability_summary list" where
  "summarize_liabilities ports snap =
     map (\<lambda>(asset, t). \<lparr>ls_asset = asset, ls_total = pp_canonical_decimal ports t\<rparr>)
       (fold (add_liability ports) (sn_liabilities snap) [])"

section \<open>Every proof handed out verifies\<close>

lemma node_payload_commute: "node_payload left right = node_payload right left"
  by (auto simp: node_payload_def)

lemma hash_pair_commute: "hash_pair digest left right = hash_pair digest right left"
  by (simp add: hash_pair_def node_payload_commute [of left])

lemma next_level_nth:
  "i < length level \<Longrightarrow> next_level digest level ! (i div 2) =
     (let s = (if even i then i + 1 else i - 1)
      in if s < length level then hash_pair digest (level ! i) (level ! s) else level ! i)"
proof (induction digest level arbitrary: i rule: next_level.induct)
  case (1 digest left right level)
  consider "i = 0" | "i = 1" | j where "i = Suc (Suc j)" by (metis One_nat_def not0_implies_Suc)
  then show ?case
  proof cases
    case 3
    with "1.IH" [of j] "1.prems" show ?thesis by (cases j) (auto simp: Let_def)
  qed (auto simp: hash_pair_commute)
qed auto

lemma proof_for_index_folds:
  "i < length level \<Longrightarrow> merkle_loop digest level = [foldl (hash_pair digest) (level ! i) (proof_for_index digest level i)]"
proof (induction digest level i rule: proof_for_index.induct)
  case (1 digest level i)
  show ?case
  proof (cases "1 < length level")
    case True
    let ?s = "if even i then i + 1 else i - 1" and ?next = "next_level digest level"
    have step: "merkle_loop digest level = merkle_loop digest ?next" using True by (simp add: merkle_loop.simps [of _ level])
    have "i div 2 < length ?next" using "1.prems" by auto
    with "1.IH" [OF True refl] have ih: "merkle_loop digest ?next =
        [foldl (hash_pair digest) (?next ! (i div 2)) (proof_for_index digest ?next (i div 2))]" by simp
    have "foldl (hash_pair digest) (level ! i) (proof_for_index digest level i) =
        foldl (hash_pair digest) (?next ! (i div 2)) (proof_for_index digest ?next (i div 2))"
      using True next_level_nth [OF "1.prems", of digest] by (simp add: proof_for_index.simps [of _ level] Let_def)
    with step ih show ?thesis by simp
  next
    case False
    with "1.prems" obtain x where "level = [x]" by (cases level) auto
    with "1.prems" show ?thesis by (simp add: merkle_loop.simps [of _ "[x]"] proof_for_index.simps [of _ "[x]"])
  qed
qed

lemma proof_for_index_root:
  "i < length level \<Longrightarrow> foldl (hash_pair digest) (level ! i) (proof_for_index digest level i) = merkle_root digest level"
  by (auto simp: merkle_root_def proof_for_index_folds)

lemma entry_verifies:
  assumes "entry \<in> set (user_proof_entries ports snap user_id)"
  shows "verify_proof (pp_digest ports) (ue_leaf_payload entry) (ue_sibling_hashes entry)
      (mt_root (merkle_tree_new ports (sn_liabilities snap)))"
proof -
  let ?leaves = "mt_leaves (merkle_tree_new ports (sn_liabilities snap))" and ?d = "pp_digest ports"
  obtain index leaf where il: "(index, leaf) \<in> set (enumerate 0 ?leaves)"
    and e: "ue_leaf_payload entry = ml_payload leaf" "ue_sibling_hashes entry = proof_for_index ?d (map ml_hash ?leaves) index"
    using assms by (auto simp: user_proof_entries_def entries_for_user_def Let_def)
  from il have i: "index < length ?leaves" "leaf = ?leaves ! index" by (auto simp: in_set_enumerate_eq)
  then have "leaf \<in> set ?leaves" by simp
  then have leaf: "ml_hash leaf = hash_hex ?d (ml_payload leaf)" by (auto simp: merkle_tree_new_def Let_def)
  have "foldl (hash_pair ?d) (ml_hash leaf) (proof_for_index ?d (map ml_hash ?leaves) index) = merkle_root ?d (map ml_hash ?leaves)"
    using proof_for_index_root [of index "map ml_hash ?leaves" ?d] i by simp
  moreover have "merkle_root ?d (map ml_hash ?leaves) = mt_root (merkle_tree_new ports (sn_liabilities snap))"
    by (simp add: merkle_tree_new_def Let_def)
  ultimately show ?thesis using e leaf by (simp add: verify_proof_def)
qed

lemma map_filter_enumerate: "map snd (filter (\<lambda>(_, x). P x) (enumerate n xs)) = filter P xs"
  by (induction xs arbitrary: n) auto

lemma entries_cover:
  "map (\<lambda>e. (ue_asset e, ue_total e, ue_leaf_payload e)) (user_proof_entries ports snap user_id) =
     map (\<lambda>l. (pl_asset l, pl_total l, leaf_payload ports l))
       (filter (\<lambda>l. pl_user_id l = user_id) (sort_key (\<lambda>l. (pl_asset l, pl_user_id l, pl_total l)) (sn_liabilities snap)))"
proof -
  let ?leaves = "mt_leaves (merkle_tree_new ports (sn_liabilities snap))"
  let ?view = "\<lambda>leaf. (pl_asset (ml_liability leaf), pl_total (ml_liability leaf), ml_payload leaf)"
  have "map (\<lambda>e. (ue_asset e, ue_total e, ue_leaf_payload e)) (user_proof_entries ports snap user_id) =
      map ?view (map snd (filter (\<lambda>(_, leaf). pl_user_id (ml_liability leaf) = user_id) (enumerate 0 ?leaves)))"
    by (simp add: user_proof_entries_def entries_for_user_def Let_def comp_def case_prod_beta)
  also have "\<dots> = map ?view (filter (\<lambda>leaf. pl_user_id (ml_liability leaf) = user_id) ?leaves)"
    by (simp only: map_filter_enumerate)
  finally show ?thesis by (simp add: merkle_tree_new_def Let_def filter_map comp_def)
qed

text \<open>
  C22. Every proof entry that a user is given verifies against the root of the snap's tree, and the entries of a user are
  exactly that user's liabilities.
\<close>

theorem user_proofs_verify:
  "(\<forall>entry \<in> set (user_proof_entries ports snap user_id).
      verify_proof (pp_digest ports) (ue_leaf_payload entry) (ue_sibling_hashes entry)
        (mt_root (merkle_tree_new ports (sn_liabilities snap))))
   \<and> mset (map (\<lambda>e. (ue_asset e, ue_total e)) (user_proof_entries ports snap user_id)) =
     mset (map (\<lambda>l. (pl_asset l, pl_total l)) (filter (\<lambda>l. pl_user_id l = user_id) (sn_liabilities snap)))"
proof -
  have "map (\<lambda>e. (ue_asset e, ue_total e)) (user_proof_entries ports snap user_id) =
      map (\<lambda>l. (pl_asset l, pl_total l))
       (filter (\<lambda>l. pl_user_id l = user_id) (sort_key (\<lambda>l. (pl_asset l, pl_user_id l, pl_total l)) (sn_liabilities snap)))"
    using arg_cong [OF entries_cover [of ports snap user_id], of "map (\<lambda>(a, t, p). (a, t))"] by (simp add: comp_def)
  then show ?thesis by (intro conjI ballI entry_verifies) (simp_all add: filter_sort)
qed

section \<open>A proof that verifies belongs to the tree\<close>

definition colon_free :: "string \<Rightarrow> bool" where
  "colon_free s \<longleftrightarrow> CHR '':'' \<notin> set s"

lemma hex_digit: "n < 16 \<Longrightarrow> HEX ! n \<noteq> CHR '':''"
  unfolding HEX_def by (simp add: less_Suc_eq numeral_eq_Suc) auto

lemma hex_lower_colon_free: "colon_free (hex_lower bs)"
proof (induction bs)
  case (Cons b bs)
  have "unat b < 2 ^ 8" using unsigned_less [of b] by simp
  then have "unat b div 16 < 16" "unat b mod 16 < 16" by auto
  with Cons show ?case using hex_digit [of "unat b div 16"] hex_digit [of "unat b mod 16"] by (simp add: colon_free_def)
qed (simp add: colon_free_def)

lemma hash_hex_colon_free [simp]: "colon_free (hash_hex d s)"
  by (simp add: hash_hex_def hex_lower_colon_free)

lemma split_at_colon:
  assumes eq: "a @ '':'' @ b = c @ '':'' @ e" and "colon_free c" "colon_free e"
  shows "a = c \<and> b = e"
proof -
  let ?n = "\<lambda>s. length (filter ((=) (CHR '':'')) s)"
  have "?n (a @ '':'' @ b) = ?n (c @ '':'' @ e)" using eq by simp
  moreover have "?n c = 0" "?n e = 0" using assms(2,3) by (auto simp: colon_free_def filter_empty_conv)
  ultimately have "?n a = 0" by simp
  then have a: "CHR '':'' \<notin> set a" by (auto simp: filter_empty_conv)
  have "takeWhile (\<lambda>x. x \<noteq> CHR '':'') (a @ '':'' @ b) = a" using a by (induction a) auto
  moreover have "takeWhile (\<lambda>x. x \<noteq> CHR '':'') (c @ '':'' @ e) = c"
    using assms(2) by (induction c) (auto simp: colon_free_def)
  ultimately show ?thesis using eq by simp
qed

lemma node_payload_eq:
  assumes "node_payload a b = node_payload c e" and "colon_free c" "colon_free e"
  shows "a \<in> {c, e}"
proof -
  have form: "\<exists>f s. node_payload x y = INTERNAL_PREFIX @ '':'' @ f @ '':'' @ s \<and> (f = x \<and> s = y \<or> f = y \<and> s = x)" for x y
    by (auto simp: node_payload_def)
  obtain f s where fs: "node_payload a b = INTERNAL_PREFIX @ '':'' @ f @ '':'' @ s" "f = a \<and> s = b \<or> f = b \<and> s = a" using form by blast
  obtain f' s' where fs': "node_payload c e = INTERNAL_PREFIX @ '':'' @ f' @ '':'' @ s'" "f' = c \<and> s' = e \<or> f' = e \<and> s' = c" using form by blast
  from fs(1) fs'(1) assms(1) have "f @ '':'' @ s = f' @ '':'' @ s'" by simp
  moreover have "colon_free f'" "colon_free s'" using fs'(2) assms(2,3) by auto
  ultimately have "f = f' \<and> s = s'" by (rule split_at_colon)
  with fs(2) fs'(2) show ?thesis by auto
qed

text \<open>The strings hashed for the inner nodes of a tree, and those hashed while a proof is checked.\<close>

fun level_payloads :: "string list \<Rightarrow> string set" where
  "level_payloads (left # right # level) = insert (node_payload left right) (level_payloads level)"
| "level_payloads _ = {}"

function tree_payloads :: "(u8 list \<Rightarrow> u8 list) \<Rightarrow> string list \<Rightarrow> string set" where
  "tree_payloads digest level =
     (if 1 < length level then level_payloads level \<union> tree_payloads digest (next_level digest level) else {})"
  by pat_completeness auto
termination by (relation "measure (\<lambda>(_, level). length level)") auto

declare tree_payloads.simps [simp del]

fun chain_payloads :: "(u8 list \<Rightarrow> u8 list) \<Rightarrow> string \<Rightarrow> string list \<Rightarrow> string set" where
  "chain_payloads digest current [] = {}"
| "chain_payloads digest current (s # ss) =
     insert (node_payload current s) (chain_payloads digest (hash_pair digest current s) ss)"

lemma level_payloads_parts: "s \<in> level_payloads level \<Longrightarrow> \<exists>a \<in> set level. \<exists>b \<in> set level. s = node_payload a b"
  by (induction level rule: level_payloads.induct) auto

lemma set_next_level: "set (next_level digest level) \<subseteq> set level \<union> hash_hex digest ` level_payloads level"
  by (induction digest level rule: next_level.induct) (auto simp: hash_pair_def)

lemma tree_payloads_parts:
  "s \<in> tree_payloads digest level \<Longrightarrow>
     \<exists>a b. s = node_payload a b \<and> {a, b} \<subseteq> set level \<union> hash_hex digest ` tree_payloads digest level"
proof (induction digest level rule: tree_payloads.induct)
  case (1 digest level)
  show ?case
  proof (cases "1 < length level")
    case True
    have unfold: "tree_payloads digest level = level_payloads level \<union> tree_payloads digest (next_level digest level)"
      using True by (subst tree_payloads.simps) simp
    show ?thesis
    proof (cases "s \<in> level_payloads level")
      case True
      then show ?thesis using level_payloads_parts by blast
    next
      case False
      with "1.prems" unfold have "s \<in> tree_payloads digest (next_level digest level)" by simp
      from "1.IH" [OF True this] obtain a b where ab: "s = node_payload a b"
        "{a, b} \<subseteq> set (next_level digest level) \<union> hash_hex digest ` tree_payloads digest (next_level digest level)" by blast
      have "set (next_level digest level) \<union> hash_hex digest ` tree_payloads digest (next_level digest level)
          \<subseteq> set level \<union> hash_hex digest ` tree_payloads digest level"
        unfolding unfold using set_next_level [of digest level] by blast
      then have "{a, b} \<subseteq> set level \<union> hash_hex digest ` tree_payloads digest level" by (rule subset_trans [OF ab(2)])
      with ab(1) show ?thesis by (intro exI conjI)
    qed
  qed (use "1.prems" in \<open>simp add: tree_payloads.simps [of digest level]\<close>)
qed

lemma merkle_loop_member:
  "level \<noteq> [] \<Longrightarrow> \<exists>r. merkle_loop digest level = [r] \<and> r \<in> set level \<union> hash_hex digest ` tree_payloads digest level"
proof (induction digest level rule: merkle_loop.induct)
  case (1 digest level)
  show ?case
  proof (cases "1 < length level")
    case True
    have "next_level digest level \<noteq> []" using True by (auto simp flip: length_greater_0_conv)
    with "1.IH" [OF True] set_next_level [of digest level] True show ?thesis
      by (auto simp: merkle_loop.simps [of digest level] tree_payloads.simps [of digest level])
  next
    case False
    with "1.prems" obtain x where "level = [x]" by (cases level) auto
    then show ?thesis by (simp add: merkle_loop.simps [of digest "[x]"])
  qed
qed

lemma chain_in_tree:
  assumes "inj_on (hash_hex d) (set ps \<union> tree_payloads d (map (hash_hex d) ps) \<union> chain_payloads d c ss)"
    and "\<forall>p \<in> set ps. \<forall>a b. p \<noteq> node_payload a b"
    and "foldl (hash_pair d) c ss \<in> hash_hex d ` (set ps \<union> tree_payloads d (map (hash_hex d) ps))"
  shows "c \<in> hash_hex d ` (set ps \<union> tree_payloads d (map (hash_hex d) ps))"
  using assms
proof (induction ss arbitrary: c)
  case (Cons s ss)
  let ?T = "tree_payloads d (map (hash_hex d) ps)" and ?n = "node_payload c s"
  have "inj_on (hash_hex d) (set ps \<union> ?T \<union> chain_payloads d (hash_pair d c s) ss)"
    using Cons.prems(1) by (rule inj_on_subset) auto
  from Cons.IH [OF this Cons.prems(2)] Cons.prems(3)
  have "hash_hex d ?n \<in> hash_hex d ` (set ps \<union> ?T)" by (simp add: hash_pair_def)
  then obtain q where q: "q \<in> set ps \<union> ?T" "hash_hex d ?n = hash_hex d q" by blast
  have "?n = q" by (rule inj_onD [OF Cons.prems(1) q(2)]) (use q(1) in auto)
  with q(1) Cons.prems(2) have "?n \<in> ?T" by blast
  then obtain a b where ab: "?n = node_payload a b" "{a, b} \<subseteq> set (map (hash_hex d) ps) \<union> hash_hex d ` ?T"
    by (blast dest: tree_payloads_parts)
  then have "colon_free a" "colon_free b" by auto
  with ab(1) have "c \<in> {a, b}" by (rule node_payload_eq)
  with ab(2) show ?case by auto
qed simp

lemma prefix_distinct: "take (length LEAF_PREFIX) (node_payload a b) \<noteq> LEAF_PREFIX"
  by (simp add: node_payload_def LEAF_PREFIX_def INTERNAL_PREFIX_def)

text \<open>
  C23. A proof that verifies is a proof of membership: if the string hashes involved do not collide, a leaf payload accepted against
  the root of a tree is the payload of one of the tree's liabilities. The check itself accepts any payload, so it is the prefix
  of the payload that tells a leaf from an inner node.
\<close>

theorem verified_leaf_is_member:
  assumes "verify_proof (pp_digest ports) payload siblings (mt_root (merkle_tree_new ports liabilities))" and "liabilities \<noteq> []"
    and "inj_on (hash_hex (pp_digest ports))
      (set (map ml_payload (mt_leaves (merkle_tree_new ports liabilities)))
        \<union> tree_payloads (pp_digest ports) (map ml_hash (mt_leaves (merkle_tree_new ports liabilities)))
        \<union> insert payload (chain_payloads (pp_digest ports) (hash_hex (pp_digest ports) payload) siblings))"
    and "take (length LEAF_PREFIX) payload = LEAF_PREFIX"
  shows "payload \<in> leaf_payload ports ` set liabilities"
proof -
  let ?d = "pp_digest ports"
  define ps where "ps = map (leaf_payload ports) (sort_key (\<lambda>l. (pl_asset l, pl_user_id l, pl_total l)) liabilities)"
  have leaves: "map ml_payload (mt_leaves (merkle_tree_new ports liabilities)) = ps"
    "map ml_hash (mt_leaves (merkle_tree_new ports liabilities)) = map (hash_hex ?d) ps"
    "mt_root (merkle_tree_new ports liabilities) = merkle_root ?d (map (hash_hex ?d) ps)"
    by (simp_all add: merkle_tree_new_def ps_def Let_def comp_def)
  let ?T = "tree_payloads ?d (map (hash_hex ?d) ps)"
  note inj = assms(3) [unfolded leaves]
  have len: "length ps = length liabilities" by (simp add: ps_def)
  have ps: "set ps = leaf_payload ports ` set liabilities" "ps \<noteq> []"
    using assms(2) len by (simp add: ps_def, metis length_0_conv)
  have "take (length LEAF_PREFIX) (leaf_payload ports l) = LEAF_PREFIX" for l by (simp add: leaf_payload_def)
  then have "leaf_payload ports l \<noteq> node_payload a b" for l a b using prefix_distinct [of a b] by metis
  then have leaf: "\<forall>p \<in> set ps. \<forall>a b. p \<noteq> node_payload a b" by (simp add: ps(1))
  have "merkle_root ?d (map (hash_hex ?d) ps) \<in> hash_hex ?d ` (set ps \<union> ?T)"
    using merkle_loop_member [of "map (hash_hex ?d) ps" ?d] ps(2) by (auto simp: merkle_root_def)
  then have "foldl (hash_pair ?d) (hash_hex ?d payload) siblings \<in> hash_hex ?d ` (set ps \<union> ?T)"
    using assms(1) by (simp add: verify_proof_def leaves)
  from chain_in_tree [OF inj_on_subset [OF inj] leaf this]
  obtain q where q: "q \<in> set ps \<union> ?T" "hash_hex ?d payload = hash_hex ?d q" by blast
  have "payload = q" by (rule inj_onD [OF inj q(2)]) (use q(1) in auto)
  moreover have "payload \<notin> ?T"
  proof
    assume "payload \<in> ?T"
    then obtain a b where "payload = node_payload a b" by (blast dest: tree_payloads_parts)
    with assms(4) show False by (simp add: prefix_distinct)
  qed
  ultimately show ?thesis using q(1) ps(1) by blast
qed

section \<open>Publishing a snapshot\<close>

lemma ensure_current_snapshot_root:
  "ensure_current_snapshot ports db snaps = (snaps', s) \<Longrightarrow>
     sn_merkle_root s = mt_root (merkle_tree_new ports (current_liabilities ports db)) \<and> latest_snapshot snaps' = Some s"
  by (auto simp: ensure_current_snapshot_def insert_snapshot_def latest_snapshot_def Let_def split: if_splits option.splits)

lemma ensure_current_snapshot_idempotent:
  assumes "ensure_current_snapshot ports db snaps = (snaps', s)"
  shows "ensure_current_snapshot ports db snaps' = (snaps', s)"
  using ensure_current_snapshot_root [OF assms] by (simp add: ensure_current_snapshot_def Let_def)

lemma summary_totals:
  assumes "bt_wf totals"
  shows "bt_wf (fold (add_liability ports) ls totals) \<and>
    (case bt_get (fold (add_liability ports) ls totals) asset of None \<Rightarrow> 0 | Some t \<Rightarrow> t) =
    (case bt_get totals asset of None \<Rightarrow> 0 | Some t \<Rightarrow> t) +
      sum_list (map (\<lambda>l. case pp_parse ports (pl_total l) of Some d \<Rightarrow> d | None \<Rightarrow> 0) (filter (\<lambda>l. pl_asset l = asset) ls))"
  using assms
proof (induction ls arbitrary: totals)
  case (Cons l ls)
  have wf: "bt_wf (add_liability ports l totals)" using Cons.prems by (simp add: add_liability_def Let_def wf_intros)
  have "(case bt_get (add_liability ports l totals) asset of None \<Rightarrow> 0 | Some t \<Rightarrow> t) =
      (case bt_get totals asset of None \<Rightarrow> 0 | Some t \<Rightarrow> t) +
      (if pl_asset l = asset then (case pp_parse ports (pl_total l) of Some d \<Rightarrow> d | None \<Rightarrow> 0) else 0)"
    using Cons.prems by (auto simp: add_liability_def Let_def level_simps split: option.splits)
  with Cons.IH [OF wf] show ?case by simp
qed simp

section \<open>A concrete snapshot\<close>

definition sample_proof_ports :: "real proof_ports" where
  "sample_proof_ports = \<lparr>pp_digest = (\<lambda>bytes. [of_nat (length bytes)]), pp_show_uuid = (\<lambda>_. ''u''), pp_canonical_decimal = (\<lambda>_. ''1''),
     pp_parse = (\<lambda>_. None)\<rparr>"

definition sample_liabilities :: "proof_liability list" where
  "sample_liabilities = [\<lparr>pl_user_id = 1, pl_asset = ''BTC'', pl_total = ''1''\<rparr>, \<lparr>pl_user_id = 2, pl_asset = ''BTC'', pl_total = ''25''\<rparr>]"

theorem user_proofs_verify_witness:
  "let entries = user_proof_entries sample_proof_ports \<lparr>sn_merkle_root = [], sn_liabilities = sample_liabilities\<rparr> 2
   in length entries = 1 \<and> list_all (\<lambda>e. verify_proof (pp_digest sample_proof_ports) (ue_leaf_payload e) (ue_sibling_hashes e)
        (mt_root (merkle_tree_new sample_proof_ports sample_liabilities))) entries"
proof -
  let ?s = "\<lparr>sn_merkle_root = [], sn_liabilities = sample_liabilities\<rparr>"
  have "mset (map (\<lambda>e. (ue_asset e, ue_total e)) (user_proof_entries sample_proof_ports ?s 2)) = {#(''BTC'', ''25'')#}"
    using user_proofs_verify [of sample_proof_ports ?s 2] by (simp add: sample_liabilities_def)
  from arg_cong [OF this, of size] have "length (user_proof_entries sample_proof_ports ?s 2) = 1" by simp
  with user_proofs_verify [of sample_proof_ports ?s 2] show ?thesis by (simp add: Let_def list_all_iff)
qed

theorem verified_leaf_is_member_witness:
  "\<exists>payload siblings. siblings \<noteq> []
     \<and> verify_proof (pp_digest sample_proof_ports) payload siblings (mt_root (merkle_tree_new sample_proof_ports sample_liabilities))
     \<and> payload \<in> leaf_payload sample_proof_ports ` set sample_liabilities"
proof -
  let ?d = "pp_digest sample_proof_ports" and ?tree = "merkle_tree_new sample_proof_ports sample_liabilities"
  let ?p1 = "''aether:por:v1:leaf:u:BTC:1''" and ?p2 = "''aether:por:v1:leaf:u:BTC:25''" and ?h2 = "''1b''"
  have v: "verify_proof ?d ?p1 [?h2] (mt_root ?tree)" by code_simp
  have pl: "map ml_payload (mt_leaves ?tree) = [?p1, ?p2]" by code_simp
  have hs: "map ml_hash (mt_leaves ?tree) = [''1a'', ''1b'']" by code_simp
  have np: "node_payload ''1a'' ''1b'' = ''aether:por:v1:node:1a:1b''" by code_simp
  have h1: "hash_hex ?d ?p1 = ''1a''" and h2': "hash_hex ?d ?p2 = ''1b''" and h3: "hash_hex ?d ''aether:por:v1:node:1a:1b'' = ''18''"
    by code_simp+
  have inj: "inj_on (hash_hex ?d) (set (map ml_payload (mt_leaves ?tree)) \<union> tree_payloads ?d (map ml_hash (mt_leaves ?tree))
      \<union> insert ?p1 (chain_payloads ?d (hash_hex ?d ?p1) [?h2]))"
    unfolding pl hs h1 by (simp add: tree_payloads.simps [of ?d] np inj_on_def h1 h2' h3)
  have "?p1 \<in> leaf_payload sample_proof_ports ` set sample_liabilities"
    by (rule verified_leaf_is_member [OF v _ inj]) (simp_all add: sample_liabilities_def LEAF_PREFIX_def)
  with v show ?thesis by blast
qed

end
