(* ===== verification/Account_History.thy ===== *)
theory Account_History
  imports Wallet Proof_Of_Reserves
begin

text \<open>
  The remaining reading endpoints of an account: its profile and its ledger history with cursor paging
  (\<open>services/api/src/handlers/account.rs\<close>, \<open>ledger_history\<close> in \<open>repositories/account.rs\<close>), and the two proof-of-reserves
  endpoints (\<open>handlers/proof.rs\<close>). The \<open>BIGSERIAL\<close> key of the n-th ledger entry is \<open>ids n\<close>: the sequence is increasing and may
  skip numbers. Identifier and time of a snapshot, and the creation times that are only shown, are left out.
\<close>

section \<open>Profile\<close>

definition get_profile_endpoint :: "'d db \<Rightarrow> uuid \<Rightarrow> api_error + user_profile_row" where
  "get_profile_endpoint db user_id =
     (case get_profile db user_id of None \<Rightarrow> Inl (api_error_new 404 NotFound ''User not found'') | Some row \<Rightarrow> Inr row)"

section \<open>History\<close>

record 'd ledger_row =
  lw_id :: int
  lw_asset_symbol :: string
  lw_kind :: string
  lw_amount :: 'd
  lw_available_after :: 'd
  lw_locked_after :: 'd
  lw_reference_type :: string
  lw_reference_id :: "uuid option"

text \<open>The joined rows of one entry, and of all entries in the order of their keys.\<close>

definition entry_rows :: "(nat \<Rightarrow> int) \<Rightarrow> uuid \<Rightarrow> 'd asset_row list \<Rightarrow> nat \<times> 'd ledger_record \<Rightarrow> 'd ledger_row list" where
  "entry_rows ids user_id assets = (\<lambda>(n, le).
     if le_user_id le = user_id
     then map (\<lambda>a. \<lparr>lw_id = ids n, lw_asset_symbol = at_symbol a, lw_kind = le_kind le, lw_amount = le_amount le,
            lw_available_after = le_available_after le, lw_locked_after = le_locked_after le, lw_reference_type = le_reference_type le,
            lw_reference_id = le_reference_id le\<rparr>) (filter (\<lambda>a. at_id a = le_asset_id le) assets)
     else [])"

definition ledger_rows :: "(nat \<Rightarrow> int) \<Rightarrow> uuid \<Rightarrow> 'd db \<Rightarrow> 'd ledger_row list" where
  "ledger_rows ids user_id db = concat (map (entry_rows ids user_id (db_assets db)) (List.enumerate 0 (db_ledger_entries db)))"

definition ledger_history :: "(nat \<Rightarrow> int) \<Rightarrow> uuid \<Rightarrow> int option \<Rightarrow> nat \<Rightarrow> 'd db \<Rightarrow> 'd ledger_row list" where
  "ledger_history ids user_id cursor limit db =
     take limit (sort_key (\<lambda>r. - lw_id r)
       (filter (\<lambda>r. case cursor of None \<Rightarrow> True | Some c \<Rightarrow> lw_id r < c) (ledger_rows ids user_id db)))"

record ledger_entry_response =
  lr_id :: int
  lr_asset :: string
  lr_kind :: string
  lr_amount :: string
  lr_available_after :: string
  lr_locked_after :: string
  lr_reference_type :: string
  lr_reference_id :: "uuid option"

definition history_limit :: "int \<Rightarrow> nat" where
  "history_limit limit = nat (min 200 (max 1 limit))"

definition entry_response :: "'d api_ports \<Rightarrow> 'd ledger_row \<Rightarrow> ledger_entry_response" where
  "entry_response ports r =
     \<lparr>lr_id = lw_id r, lr_asset = lw_asset_symbol r, lr_kind = lw_kind r, lr_amount = ap_to_string ports (lw_amount r),
      lr_available_after = ap_to_string ports (lw_available_after r), lr_locked_after = ap_to_string ports (lw_locked_after r),
      lr_reference_type = lw_reference_type r, lr_reference_id = lw_reference_id r\<rparr>"

definition get_history ::
  "'d api_ports \<Rightarrow> (nat \<Rightarrow> int) \<Rightarrow> uuid \<Rightarrow> int option \<Rightarrow> int \<Rightarrow> 'd db \<Rightarrow> ledger_entry_response list \<times> int option" where
  "get_history ports ids user_id cursor limit db =
     (let rows = ledger_history ids user_id cursor (history_limit limit) db
      in (map (entry_response ports) rows, if rows = [] then None else Some (lw_id (last rows))))"

section \<open>Proof endpoints\<close>

definition latest_proof ::
  "'d::linordered_field proof_ports \<Rightarrow> 'd db \<Rightarrow> proof_snapshot list \<Rightarrow> proof_snapshot list \<times> string \<times> liability_summary list" where
  "latest_proof ports db snapshots =
     (case ensure_current_snapshot ports db snapshots of
        (snapshots', snap) \<Rightarrow> (snapshots', sn_merkle_root snap, summarize_liabilities ports snap))"

definition my_proof ::
  "'d::linordered_field proof_ports \<Rightarrow> uuid \<Rightarrow> 'd db \<Rightarrow> proof_snapshot list \<Rightarrow> proof_snapshot list \<times> string \<times> user_proof_entry list" where
  "my_proof ports user_id db snapshots =
     (case ensure_current_snapshot ports db snapshots of
        (snapshots', snap) \<Rightarrow> (snapshots', sn_merkle_root snap, user_proof_entries ports snap user_id))"

section \<open>Paging\<close>

text \<open>A client that follows the cursors, one page per state of the database, until a page is empty.\<close>

fun read_pages :: "'d api_ports \<Rightarrow> (nat \<Rightarrow> int) \<Rightarrow> uuid \<Rightarrow> int \<Rightarrow> int option \<Rightarrow> 'd db list \<Rightarrow> ledger_entry_response list" where
  "read_pages ports ids user_id limit cursor [] = []"
| "read_pages ports ids user_id limit cursor (db # dbs) =
     (case get_history ports ids user_id cursor limit db of
        (page, None) \<Rightarrow> page
      | (page, Some c) \<Rightarrow> page @ read_pages ports ids user_id limit (Some c) dbs)"

lemma sort_descending:
  assumes "sorted_wrt (\<lambda>x y. f x < (f y :: int)) xs"
  shows "sort_key (\<lambda>x. - f x) xs = rev xs"
proof (rule properties_for_sort_key)
  show "sorted (map (\<lambda>x. - f x) (rev xs))"
    using assms by (simp add: rev_map sorted_wrt_rev sorted_wrt_map) (auto elim: sorted_wrt_mono_rel [rotated])
  show "filter (\<lambda>x. - f k = - f x) (rev xs) = filter (\<lambda>x. - f k = - f x) xs" if "k \<in> set (rev xs)" for k
  proof -
    have "length (filter (\<lambda>x. - f k = - f x) xs) \<le> 1" using assms by (induction xs) (auto simp: filter_empty_conv)
    then show ?thesis by (cases "filter (\<lambda>x. - f k = - f x) xs") (simp_all add: rev_filter [symmetric])
  qed
qed simp

lemma entry_rows_single:
  assumes "distinct (map at_id assets)"
  shows "length (entry_rows ids user_id assets (n, le)) \<le> 1" and "r \<in> set (entry_rows ids user_id assets (n, le)) \<Longrightarrow> lw_id r = ids n"
proof -
  have "length (filter (\<lambda>a. at_id a = k) assets) \<le> 1" for k
    using assms
  proof (induction assets)
    case (Cons a assets)
    have "filter (\<lambda>a. at_id a = k) assets = []" if "at_id a = k"
      unfolding filter_empty_conv using Cons.prems that by (metis distinct.simps(2) image_eqI list.map(2) list.set_map)
    with Cons show ?case by auto
  qed simp
  then show "length (entry_rows ids user_id assets (n, le)) \<le> 1" by (simp add: entry_rows_def)
  show "r \<in> set (entry_rows ids user_id assets (n, le)) \<Longrightarrow> lw_id r = ids n" by (auto simp: entry_rows_def split: if_splits)
qed

lemma rows_from:
  assumes "strict_mono ids" and "distinct (map at_id assets)"
  shows "sorted_wrt (\<lambda>x y. lw_id x < lw_id y) (concat (map (entry_rows ids user_id assets) (List.enumerate k es)))
    \<and> (\<forall>r \<in> set (concat (map (entry_rows ids user_id assets) (List.enumerate k es))). ids k \<le> lw_id r \<and> lw_id r < ids (k + length es))"
proof (induction es arbitrary: k)
  case (Cons e es)
  let ?first = "entry_rows ids user_id assets (k, e)"
  have first: "sorted_wrt (\<lambda>x y. lw_id x < lw_id y) ?first" "\<And>r. r \<in> set ?first \<Longrightarrow> lw_id r = ids k"
    using entry_rows_single(1) [OF assms(2), of ids user_id k e] entry_rows_single(2) [OF assms(2), of _ ids user_id k e]
    by (cases ?first; force)+
  have "ids k < ids (Suc k)" "ids k < ids (k + length (e # es))" using assms(1) by (simp_all add: strict_mono_less)
  with first Cons.IH [of "Suc k"] show ?case by (force simp: sorted_wrt_append)
qed simp

lemma ledger_rows_ascending:
  assumes "strict_mono ids" and "distinct (map at_id (db_assets db))"
  shows "sorted_wrt (\<lambda>x y. lw_id x < lw_id y) (ledger_rows ids user_id db)"
  using rows_from [OF assms] by (simp add: ledger_rows_def)

lemma ledger_rows_grow:
  assumes "strict_mono ids" and "distinct (map at_id (db_assets db))" and "db_assets db' = db_assets db"
    and "db_ledger_entries db' = db_ledger_entries db @ added"
  obtains new where "ledger_rows ids user_id db' = ledger_rows ids user_id db @ new"
    "\<And>r r'. r \<in> set (ledger_rows ids user_id db) \<Longrightarrow> r' \<in> set new \<Longrightarrow> lw_id r < lw_id r'"
proof
  let ?n = "length (db_ledger_entries db)"
  let ?new = "concat (map (entry_rows ids user_id (db_assets db)) (List.enumerate ?n added))"
  show "ledger_rows ids user_id db' = ledger_rows ids user_id db @ ?new"
    using assms(3,4) by (simp add: ledger_rows_def enumerate_append_eq)
  show "lw_id r < lw_id r'" if "r \<in> set (ledger_rows ids user_id db)" "r' \<in> set ?new" for r r'
    using rows_from [OF assms(1,2), of user_id 0 "db_ledger_entries db"] rows_from [OF assms(1,2), of user_id ?n added] that
    by (fastforce simp: ledger_rows_def)
qed

lemma after_page:
  assumes "sorted_wrt (\<lambda>x y. lw_id y < lw_id x) ys" and "ys \<noteq> []" and "1 \<le> l"
  shows "filter (\<lambda>r. lw_id r < lw_id (last (take l ys))) ys = drop l ys"
proof -
  let ?t = "take l ys"
  have t: "?t \<noteq> []" using assms(2,3) by simp
  have s: "sorted_wrt (\<lambda>x y. lw_id y < lw_id x) (?t @ drop l ys)" using assms(1) by simp
  then have "\<forall>r \<in> set (drop l ys). lw_id r < lw_id (last ?t)" using last_in_set [OF t] by (simp only: sorted_wrt_append) blast
  moreover have "\<not> lw_id r < lw_id (last ?t)" if "r \<in> set ?t" for r
  proof -
    have "sorted_wrt (\<lambda>x y. lw_id y < lw_id x) (butlast ?t @ [last ?t])" using s t by (simp add: sorted_wrt_append)
    moreover have "r \<in> set (butlast ?t) \<or> r = last ?t" using that t by (metis UnE append_butlast_last_id empty_iff insert_iff list.set set_append)
    ultimately show ?thesis by (auto simp: sorted_wrt_append)
  qed
  ultimately have "filter (\<lambda>r. lw_id r < lw_id (last ?t)) (?t @ drop l ys) = drop l ys" by (simp only: filter_append filter_False filter_True) simp
  then show ?thesis by simp
qed

lemma history_page:
  assumes "strict_mono ids" and "distinct (map at_id (db_assets db))"
  shows "ledger_history ids user_id cursor l db =
    take l (rev (filter (\<lambda>r. case cursor of None \<Rightarrow> True | Some c \<Rightarrow> lw_id r < c) (ledger_rows ids user_id db)))"
  unfolding ledger_history_def
  by (subst sort_descending) (simp_all add: sorted_wrt_filter ledger_rows_ascending [OF assms])

lemma read_pages_rest:
  assumes mono: "strict_mono ids" and assets: "distinct (map at_id (db_assets db))"
    and grow: "\<And>db'. db' \<in> set dbs \<Longrightarrow> db_assets db' = db_assets db \<and> (\<exists>added. db_ledger_entries db' = db_ledger_entries db @ added)"
    and "c \<in> lw_id ` set (ledger_rows ids user_id db)"
    and "length (filter (\<lambda>r. lw_id r < c) (ledger_rows ids user_id db)) < length dbs"
  shows "read_pages ports ids user_id limit (Some c) dbs =
    map (entry_response ports) (rev (filter (\<lambda>r. lw_id r < c) (ledger_rows ids user_id db)))"
  using assms(3-5)
proof (induction dbs arbitrary: c)
  case (Cons db' dbs)
  let ?xs = "ledger_rows ids user_id db" and ?l = "history_limit limit"
  let ?R = "rev (filter (\<lambda>r. lw_id r < c) ?xs)"
  have l: "1 \<le> ?l" by (simp add: history_limit_def)
  from Cons.prems(1) obtain added where db': "db_assets db' = db_assets db" "db_ledger_entries db' = db_ledger_entries db @ added" by auto
  from ledger_rows_grow [OF mono assets db', of user_id] obtain new where new: "ledger_rows ids user_id db' = ?xs @ new"
    "\<And>r r'. r \<in> set ?xs \<Longrightarrow> r' \<in> set new \<Longrightarrow> lw_id r < lw_id r'" by metis
  have "filter (\<lambda>r. lw_id r < c) (?xs @ new) = filter (\<lambda>r. lw_id r < c) ?xs"
    using Cons.prems(2) new(2) by (fastforce simp: filter_empty_conv)
  then have page: "ledger_history ids user_id (Some c) ?l db' = take ?l ?R" using mono assets db' new(1) by (simp add: history_page)
  show ?case
  proof (cases "?R = []")
    case True
    with page show ?thesis by (simp add: get_history_def)
  next
    case False
    let ?c = "lw_id (last (take ?l ?R))"
    have R: "sorted_wrt (\<lambda>x y. lw_id y < lw_id x) ?R"
      using sorted_wrt_filter [OF ledger_rows_ascending [OF mono assets, of user_id]] by (simp add: sorted_wrt_rev)
    have last: "last (take ?l ?R) \<in> set ?R" using False l by (metis in_set_takeD last_in_set not_one_le_zero take_eq_Nil)
    then have "filter (\<lambda>r. lw_id r < ?c) ?xs = filter (\<lambda>r. lw_id r < ?c) (filter (\<lambda>r. lw_id r < c) ?xs)" by (auto intro!: filter_cong)
    then have next_R: "rev (filter (\<lambda>r. lw_id r < ?c) ?xs) = drop ?l ?R" using after_page [OF R False l] by (simp only: rev_filter)
    have "length (filter (\<lambda>r. lw_id r < ?c) ?xs) < length dbs"
      using arg_cong [OF next_R, of length] Cons.prems(3) False l
      by (cases "filter (\<lambda>r. lw_id r < c) ?xs") auto
    with last have "read_pages ports ids user_id limit (Some ?c) dbs = map (entry_response ports) (drop ?l ?R)"
      using Cons.IH [of ?c] Cons.prems(1) next_R by auto
    then have "read_pages ports ids user_id limit (Some c) (db' # dbs) = map (entry_response ports) (take ?l ?R) @ map (entry_response ports) (drop ?l ?R)"
      using page False l by (simp add: get_history_def Let_def)
    then show ?thesis by (simp only: map_append [symmetric] append_take_drop_id)
  qed
qed simp

text \<open>
  C36. Paging through the history is complete and stable: a client that follows the cursors, whatever entries are appended between
  its requests, reads every entry its account had at the first request exactly once, newest first, and no page is cut short.
\<close>

theorem history_pages_complete:
  assumes "strict_mono ids" and "distinct (map at_id (db_assets db))"
    and "\<And>db'. db' \<in> set dbs \<Longrightarrow> db_assets db' = db_assets db \<and> (\<exists>added. db_ledger_entries db' = db_ledger_entries db @ added)"
    and "length (ledger_rows ids user_id db) \<le> length dbs"
  shows "read_pages ports ids user_id limit None (db # dbs) = map (entry_response ports) (rev (ledger_rows ids user_id db))"
proof -
  let ?xs = "ledger_rows ids user_id db" and ?l = "history_limit limit"
  have l: "1 \<le> ?l" by (simp add: history_limit_def)
  have page: "ledger_history ids user_id None ?l db = take ?l (rev ?xs)" using assms(1,2) by (simp add: history_page)
  show ?thesis
  proof (cases "?xs = []")
    case True
    with page show ?thesis by (simp add: get_history_def)
  next
    case False
    let ?c = "lw_id (last (take ?l (rev ?xs)))"
    have "sorted_wrt (\<lambda>x y. lw_id y < lw_id x) (rev ?xs)" using ledger_rows_ascending [OF assms(1,2)] by (simp add: sorted_wrt_rev)
    from after_page [OF this _ l] False have next_R: "rev (filter (\<lambda>r. lw_id r < ?c) ?xs) = drop ?l (rev ?xs)" by (simp add: rev_filter)
    have "?c \<in> lw_id ` set ?xs" using False l by (metis imageI in_set_takeD last_in_set not_one_le_zero rev_is_Nil_conv set_rev take_eq_Nil)
    moreover have "length (filter (\<lambda>r. lw_id r < ?c) ?xs) < length dbs"
      using arg_cong [OF next_R, of length] assms(4) False l by (cases ?xs) auto
    ultimately have "read_pages ports ids user_id limit (Some ?c) dbs = map (entry_response ports) (drop ?l (rev ?xs))"
      using read_pages_rest [OF assms(1-3), of dbs ?c user_id ports limit] next_R by auto
    then have "read_pages ports ids user_id limit None (db # dbs)
        = map (entry_response ports) (take ?l (rev ?xs)) @ map (entry_response ports) (drop ?l (rev ?xs))"
      using page False l by (simp add: get_history_def Let_def)
    then show ?thesis by (simp only: map_append [symmetric] append_take_drop_id)
  qed
qed

theorem history_pages_complete_witness:
  "read_pages sample_api_ports int 1 1 None [sample_db, sample_accepted, sample_accepted] = map (entry_response sample_api_ports) (rev (ledger_rows int 1 sample_db))
   \<and> length (ledger_rows int 1 sample_db) = 1"
proof -
  have "length (ledger_rows int 1 sample_db) = 1" by (simp add: ledger_rows_def entry_rows_def sample_db_def sample_adjustment_def)
  moreover have "db_assets sample_accepted = db_assets sample_db \<and> (\<exists>added. db_ledger_entries sample_accepted = db_ledger_entries sample_db @ added)"
    by (simp add: sample_accepted_def sample_db_def)
  moreover have "strict_mono int" by (simp add: strict_mono_def)
  moreover have "distinct (map at_id (db_assets sample_db))" by (simp add: sample_db_def)
  ultimately show ?thesis using history_pages_complete [of int sample_db "[sample_accepted, sample_accepted]" 1 sample_api_ports 1] by auto
qed

end
