(* ===== verification/Profit_Loss.thy ===== *)
theory Profit_Loss
  imports BTree_Map "HOL-Library.List_Lexorder" "HOL-Library.Char_ord"
begin

text \<open>
  First-in first-out profit and loss of an account (\<open>compute_pnl\<close> and \<open>PnlState\<close> in
  \<open>services/api/src/repositories/account.rs\<close>). The queries that fetch its three inputs are
  parameters: their rows are the arguments.
\<close>

section \<open>Rows\<close>

record 'd pnl_trade_row =
  pt_asset_symbol :: string
  pt_side :: string
  pt_price :: 'd
  pt_quantity :: 'd

record 'd pnl_balance_row =
  pb_asset_symbol :: string
  pb_quantity :: 'd

record 'd pnl_market_price_row =
  pm_asset_symbol :: string
  pm_market_price :: "'d option"

record 'd pnl_row =
  pr_asset_symbol :: string
  pr_quantity :: 'd
  pr_avg_cost :: 'd
  pr_market_price :: "'d option"
  pr_unrealised_pnl :: "'d option"
  pr_realised_pnl :: 'd

record 'd cost_lot =
  cl_quantity :: 'd
  cl_unit_cost :: 'd

record 'd pnl_state =
  ps_lots :: "'d cost_lot list"
  ps_realised_pnl :: 'd

section \<open>Lots\<close>

definition pnl_default :: "'d::linordered_field pnl_state" where
  "pnl_default = \<lparr>ps_lots = [], ps_realised_pnl = 0\<rparr>"

definition pnl_buy :: "'d \<Rightarrow> 'd \<Rightarrow> 'd::linordered_field pnl_state \<Rightarrow> 'd pnl_state" where
  "pnl_buy quantity unit_cost st = st\<lparr>ps_lots := ps_lots st @ [\<lparr>cl_quantity = quantity, cl_unit_cost = unit_cost\<rparr>]\<rparr>"

text \<open>The loop of \<open>sell\<close> on the queue of lots and the realised profit.\<close>

function sell_loop :: "'d::linordered_field \<Rightarrow> 'd \<Rightarrow> 'd cost_lot list \<Rightarrow> 'd \<Rightarrow> 'd cost_lot list \<times> 'd" where
  "sell_loop price quantity lots realised_pnl =
     (if 0 < quantity then
        (case lots of
           [] \<Rightarrow> ([], realised_pnl + price * quantity)
         | front # rest \<Rightarrow>
             (let consumed = (if cl_quantity front \<le> quantity then cl_quantity front else quantity);
                  realised = realised_pnl + (price - cl_unit_cost front) * consumed;
                  left = cl_quantity front - consumed
              in if left \<le> 0 then sell_loop price (quantity - consumed) rest realised
                 else sell_loop price (quantity - consumed) (front\<lparr>cl_quantity := left\<rparr> # rest) realised))
      else (lots, realised_pnl))"
  by pat_completeness auto
termination
  by (relation "measure (\<lambda>(_, quantity, lots, _). length lots + (if 0 < quantity then 1 else 0))") (auto split: if_splits)

declare sell_loop.simps [simp del]

definition pnl_sell :: "'d \<Rightarrow> 'd \<Rightarrow> 'd::linordered_field pnl_state \<Rightarrow> 'd pnl_state" where
  "pnl_sell quantity price st =
     (let (lots, realised) = sell_loop price quantity (ps_lots st) (ps_realised_pnl st)
      in \<lparr>ps_lots = lots, ps_realised_pnl = realised\<rparr>)"

definition remaining_quantity :: "'d::linordered_field pnl_state \<Rightarrow> 'd" where
  "remaining_quantity st = foldl (\<lambda>acc lot. acc + cl_quantity lot) 0 (ps_lots st)"

definition remaining_cost :: "'d::linordered_field pnl_state \<Rightarrow> 'd" where
  "remaining_cost st = foldl (\<lambda>acc lot. acc + cl_quantity lot * cl_unit_cost lot) 0 (ps_lots st)"

section \<open>The report\<close>

definition apply_trade :: "'d::linordered_field pnl_trade_row \<Rightarrow> (string, 'd pnl_state) btree \<Rightarrow> (string, 'd pnl_state) btree" where
  "apply_trade trade states =
     bt_entry (pt_asset_symbol trade) pnl_default
       (if pt_side trade = ''buy'' then pnl_buy (pt_quantity trade) (pt_price trade)
        else pnl_sell (pt_quantity trade) (pt_price trade)) states"

definition pnl_row_of ::
  "(string, 'd) btree \<Rightarrow> (string, 'd option) btree \<Rightarrow> string \<times> 'd::linordered_field pnl_state \<Rightarrow> 'd pnl_row" where
  "pnl_row_of quantities market_prices entry =
     (case entry of (asset_symbol, st) \<Rightarrow>
        (let quantity = (case bt_get quantities asset_symbol of Some q \<Rightarrow> q | None \<Rightarrow> remaining_quantity st);
             avg_cost = (if 0 < quantity then remaining_cost st / quantity else 0);
             market_price = (case bt_get market_prices asset_symbol of Some p \<Rightarrow> p | None \<Rightarrow> None);
             unrealised_pnl = map_option (\<lambda>price. (price - avg_cost) * quantity) market_price
         in \<lparr>pr_asset_symbol = asset_symbol, pr_quantity = quantity, pr_avg_cost = avg_cost, pr_market_price = market_price,
             pr_unrealised_pnl = unrealised_pnl, pr_realised_pnl = ps_realised_pnl st\<rparr>))"

definition compute_pnl ::
  "'d::linordered_field pnl_trade_row list \<Rightarrow> 'd pnl_balance_row list \<Rightarrow> 'd pnl_market_price_row list \<Rightarrow> 'd pnl_row list" where
  "compute_pnl trades balances prices =
     (let states = fold apply_trade trades [];
          quantities = fold (\<lambda>b. bt_insert (pb_asset_symbol b) (pb_quantity b)) balances [];
          market_prices = fold (\<lambda>p. bt_insert (pm_asset_symbol p) (pm_market_price p)) prices [];
          all_states = fold (\<lambda>asset. bt_entry asset pnl_default (\<lambda>st. st)) (bt_keys quantities) states
      in map (pnl_row_of quantities market_prices) all_states)"

section \<open>Selling consumes lots at cost\<close>

definition lots_cost :: "'d::linordered_field cost_lot list \<Rightarrow> 'd" where
  "lots_cost lots = sum_list (map (\<lambda>lot. cl_quantity lot * cl_unit_cost lot) lots)"

lemma remaining_cost_lots: "remaining_cost st = lots_cost (ps_lots st)"
proof -
  have "foldl (\<lambda>acc lot. acc + cl_quantity lot * cl_unit_cost lot) a lots = a + lots_cost lots" for a and lots :: "'a cost_lot list"
    by (induction lots arbitrary: a) (simp_all add: lots_cost_def)
  then show ?thesis by (simp add: remaining_cost_def)
qed

lemma sell_loop_cash:
  "0 \<le> quantity \<Longrightarrow> sell_loop price quantity lots realised = (lots', realised') \<Longrightarrow>
     realised' - lots_cost lots' = realised - lots_cost lots + price * quantity"
proof (induction price quantity lots realised rule: sell_loop.induct)
  case (1 price quantity lots realised)
  show ?case
  proof (cases "0 < quantity")
    case False
    with "1.prems" show ?thesis by (auto simp: sell_loop.simps [of _ 0])
  next
    case pos: True
    show ?thesis
    proof (cases lots)
      case Nil
      with pos "1.prems" show ?thesis by (auto simp: sell_loop.simps [of _ quantity] lots_cost_def)
    next
      case (Cons front rest)
      show ?thesis
      proof (cases "cl_quantity front \<le> quantity")
        case True
        with pos Cons "1.prems"(2)
        have step: "sell_loop price (quantity - cl_quantity front) rest (realised + (price - cl_unit_cost front) * cl_quantity front) = (lots', realised')"
          by (simp add: sell_loop.simps [of _ quantity] Let_def)
        from "1.IH"(1) [OF pos Cons refl refl refl _ _ ] step True show ?thesis
          by (simp add: Cons lots_cost_def algebra_simps)
      next
        case False
        with pos Cons "1.prems"(2)
        have "(lots', realised') = (front\<lparr>cl_quantity := cl_quantity front - quantity\<rparr> # rest, realised + (price - cl_unit_cost front) * quantity)"
          by (simp add: sell_loop.simps [of _ quantity] sell_loop.simps [of _ 0] Let_def)
        then show ?thesis by (simp add: Cons lots_cost_def algebra_simps)
      qed
    qed
  qed
qed

section \<open>Profit and loss is cash flow plus market value\<close>

definition cash_flow :: "string \<Rightarrow> 'd::linordered_field pnl_trade_row list \<Rightarrow> 'd" where
  "cash_flow asset trades =
     sum_list (map (\<lambda>t. if pt_asset_symbol t \<noteq> asset then 0 else if pt_side t = ''buy'' then - (pt_price t * pt_quantity t)
                        else pt_price t * pt_quantity t) trades)"

definition books_cash :: "string \<Rightarrow> (string, 'd::linordered_field pnl_state) btree \<Rightarrow> 'd" where
  "books_cash asset states =
     (case bt_get states asset of None \<Rightarrow> 0 | Some st \<Rightarrow> ps_realised_pnl st - remaining_cost st)"

lemma pnl_buy_cash: "ps_realised_pnl (pnl_buy q c st) - remaining_cost (pnl_buy q c st) = ps_realised_pnl st - remaining_cost st - c * q"
  by (simp add: pnl_buy_def remaining_cost_lots lots_cost_def algebra_simps)

lemma pnl_sell_cash:
  "0 \<le> q \<Longrightarrow> ps_realised_pnl (pnl_sell q p st) - remaining_cost (pnl_sell q p st) = ps_realised_pnl st - remaining_cost st + p * q"
  using sell_loop_cash [of q p "ps_lots st" "ps_realised_pnl st"]
  by (cases "sell_loop p q (ps_lots st) (ps_realised_pnl st)") (simp add: pnl_sell_def remaining_cost_lots)

lemma pnl_default_cash [simp]: "ps_realised_pnl pnl_default = 0" "remaining_cost pnl_default = 0"
  by (simp_all add: pnl_default_def remaining_cost_def)

lemma books_cash_entry:
  assumes "bt_wf states" and "\<And>st. ps_realised_pnl (f st) - remaining_cost (f st) = ps_realised_pnl st - remaining_cost st + x"
  shows "books_cash asset (bt_entry k pnl_default f states) = books_cash asset states + (if asset = k then x else 0)"
  using assms by (auto simp: books_cash_def bt_get_entry split: option.splits)

lemma books_cash_trades:
  assumes "\<forall>t \<in> set trades. 0 \<le> pt_quantity t" and "bt_wf states"
  shows "bt_wf (fold apply_trade trades states) \<and> books_cash asset (fold apply_trade trades states) = books_cash asset states + cash_flow asset trades"
  using assms
proof (induction trades arbitrary: states)
  case (Cons t trades)
  have wf: "bt_wf (apply_trade t states)" using Cons.prems(2) by (simp add: apply_trade_def bt_wf_entry)
  have "books_cash asset (apply_trade t states) = books_cash asset states + cash_flow asset [t]"
  proof (cases "pt_side t = ''buy''")
    case True
    with books_cash_entry [OF Cons.prems(2), of "pnl_buy (pt_quantity t) (pt_price t)" "- (pt_price t * pt_quantity t)"]
    show ?thesis by (simp add: apply_trade_def cash_flow_def pnl_buy_cash)
  next
    case False
    with books_cash_entry [OF Cons.prems(2), of "pnl_sell (pt_quantity t) (pt_price t)" "pt_price t * pt_quantity t"] Cons.prems(1)
    show ?thesis by (simp add: apply_trade_def cash_flow_def pnl_sell_cash)
  qed
  with Cons.IH [OF _ wf] Cons.prems(1) show ?case by (simp add: cash_flow_def)
qed (simp add: cash_flow_def)

lemma books_cash_defaults:
  "bt_wf states \<Longrightarrow> bt_wf (fold (\<lambda>a. bt_entry a pnl_default (\<lambda>st. st)) as states)
     \<and> books_cash asset (fold (\<lambda>a. bt_entry a pnl_default (\<lambda>st. st)) as states) = books_cash asset states"
proof (induction as arbitrary: states)
  case (Cons a as)
  have "bt_wf (bt_entry a pnl_default (\<lambda>st. st) states)" using Cons.prems by (rule bt_wf_entry)
  moreover have "books_cash asset (bt_entry a pnl_default (\<lambda>st. st) states) = books_cash asset states"
    using books_cash_entry [OF Cons.prems, of "\<lambda>st. st" 0 asset a] by simp
  ultimately show ?case using Cons.IH by simp
qed simp


definition sample_trades :: "real pnl_trade_row list" where
  "sample_trades = [\<lparr>pt_asset_symbol = ''BTC'', pt_side = ''buy'', pt_price = 100, pt_quantity = 1\<rparr>,
     \<lparr>pt_asset_symbol = ''BTC'', pt_side = ''buy'', pt_price = 120, pt_quantity = 1\<rparr>,
     \<lparr>pt_asset_symbol = ''BTC'', pt_side = ''sell'', pt_price = 150, pt_quantity = 3 / 2\<rparr>]"


end
