(* ===== verification/Rate_Limit.thy ===== *)
theory Rate_Limit
  imports Auth_Service
begin

text \<open>
  The request limiter of \<open>services/api/src/rate_limit.rs\<close>: the Lua script that keeps one Redis sorted set per key, the
  check around it, the choice of key and limit by path, and the middleware. A sorted set is a list of
  (member, score) pairs with its expiry time by the server's clock; the identity a bearer token claims is the parameter \<open>user_key\<close>.
\<close>

section \<open>Integers\<close>

definition i64_max :: int where
  "i64_max = 2 ^ 63 - 1"

section \<open>The sliding window\<close>

record sorted_set =
  ss_entries :: "(string \<times> int) list"
  ss_expires_at :: int

type_synonym redis_store = "string \<rightharpoonup> sorted_set"

definition redis_entries :: "redis_store \<Rightarrow> int \<Rightarrow> string \<Rightarrow> (string \<times> int) list" where
  "redis_entries store server_now key =
     (case store key of None \<Rightarrow> [] | Some s \<Rightarrow> if ss_expires_at s \<le> server_now then [] else ss_entries s)"

definition zadd :: "int \<Rightarrow> string \<Rightarrow> (string \<times> int) list \<Rightarrow> (string \<times> int) list" where
  "zadd score member entries = filter (\<lambda>e. fst e \<noteq> member) entries @ [(member, score)]"

definition sliding_window_script ::
  "int \<Rightarrow> string \<Rightarrow> int \<Rightarrow> int \<Rightarrow> int \<Rightarrow> string \<Rightarrow> redis_store \<Rightarrow> redis_store \<times> int \<times> int" where
  "sliding_window_script server_now key now window limit member store =
     (let kept = filter (\<lambda>e. now - window < snd e) (redis_entries store server_now key);
          n = int (length kept)
      in if limit \<le> n then (case store key of None \<Rightarrow> store | Some s \<Rightarrow> store(key \<mapsto> s\<lparr>ss_entries := kept\<rparr>), n, 0)
         else (store(key \<mapsto> \<lparr>ss_entries = zadd now member kept, ss_expires_at = server_now + window + 1000\<rparr>), n + 1, 1))"

record rate_limit_outcome =
  ro_allowed :: bool
  ro_limit :: "32 word"
  ro_remaining :: "32 word"
  ro_reset_at :: int

definition saturating_sub_u32 :: "32 word \<Rightarrow> 32 word \<Rightarrow> 32 word" where
  "saturating_sub_u32 a b = (if b \<le> a then a - b else 0)"

definition u32_try_from_or_zero :: "int \<Rightarrow> 32 word" where
  "u32_try_from_or_zero i = (if 0 \<le> i \<and> i < 2 ^ 32 then of_int i else 0)"

text \<open>
  No Redis (\<open>None\<close>), or one that answers with an error (\<open>failing\<close>), lets the request through.
\<close>

definition check_rate_limit ::
  "redis_store option \<Rightarrow> bool \<Rightarrow> int \<Rightarrow> string \<Rightarrow> string \<Rightarrow> 32 word \<Rightarrow> u64 \<Rightarrow> int \<Rightarrow> redis_store option \<times> rate_limit_outcome" where
  "check_rate_limit redis failing server_now member key limit window_ms now_ms =
     (let window = (if uint window_ms \<le> i64_max then uint window_ms else i64_max);
          reset_at = trunc_div (if now_ms + window \<le> i64_max then now_ms + window else i64_max) 1000;
          open_outcome = \<lparr>ro_allowed = True, ro_limit = limit, ro_remaining = saturating_sub_u32 limit 1, ro_reset_at = reset_at\<rparr>
      in case redis of
           None \<Rightarrow> (redis, open_outcome)
         | Some store \<Rightarrow>
             if failing then (redis, open_outcome)
             else (case sliding_window_script server_now key now_ms (uint window_ms) (uint limit) member store of
                     (store', n, was_added) \<Rightarrow>
                       (let allowed = (was_added = 1)
                        in (Some store',
                            \<lparr>ro_allowed = allowed, ro_limit = limit,
                             ro_remaining = (if allowed then u32_try_from_or_zero (uint limit - n) else 0),
                             ro_reset_at = reset_at\<rparr>))))"

section \<open>Keys\<close>

definition starts_with :: "string \<Rightarrow> string \<Rightarrow> bool" where
  "starts_with prefix s \<longleftrightarrow> take (length prefix) s = prefix"

definition window_bucket :: "int \<Rightarrow> int \<Rightarrow> int" where
  "window_bucket now_ms window_ms = trunc_div now_ms window_ms"

definition classify_request :: "string \<Rightarrow> string \<Rightarrow> string option \<Rightarrow> int \<Rightarrow> 32 word \<times> u64 \<times> string" where
  "classify_request path ip user_key now_ms =
     (let bucket = int_to_string (window_bucket now_ms 60000)
      in if starts_with ''/api/v1/auth/'' path then (10, 15 * 60 * 1000, ''rl:auth:'' @ ip)
         else if starts_with ''/api/v1/orders'' path then
           (case user_key of
              None \<Rightarrow> (30, 60000, ''rl:orders:ip:'' @ ip @ '':'' @ bucket)
            | Some uid \<Rightarrow> (60, 60000, ''rl:orders:user:'' @ uid @ '':'' @ bucket))
         else
           (case user_key of
              None \<Rightarrow> (30, 60000, ''rl:read:ip:'' @ ip @ '':'' @ bucket)
            | Some uid \<Rightarrow> (600, 60000, ''rl:read:user:'' @ uid @ '':'' @ bucket)))"

section \<open>The middleware\<close>

record rate_request =
  rl_path :: string
  rl_forwarded_for :: "string option"
  rl_user_key :: "string option"
  rl_request_id :: "uuid option"

definition apply_rate_limit_headers :: "rate_limit_outcome \<Rightarrow> (string \<times> string) list \<Rightarrow> (string \<times> string) list" where
  "apply_rate_limit_headers outcome headers =
     AList.update ''x-ratelimit-reset'' (int_to_string (ro_reset_at outcome))
       (AList.update ''x-ratelimit-remaining'' (nat_to_string (unat (ro_remaining outcome)))
         (AList.update ''x-ratelimit-limit'' (nat_to_string (unat (ro_limit outcome))) headers))"

text \<open>
  The answer of the middleware: the 429 error with its headers, or the response of the rest of the stack (\<open>next\<close>)
  with the headers added.
\<close>

definition rate_limit_middleware ::
  "bool \<Rightarrow> int \<Rightarrow> string \<Rightarrow> int \<Rightarrow> rate_request \<Rightarrow> ('w \<Rightarrow> 'w \<times> 'b \<times> (string \<times> string) list) \<Rightarrow>
     redis_store option \<times> 'w \<Rightarrow> (redis_store option \<times> 'w) \<times> (api_error + 'b) \<times> (string \<times> string) list" where
  "rate_limit_middleware failing server_now member now_ms req next = (\<lambda>(redis, w).
     let (limit, window_ms, key) = classify_request (rl_path req) (client_ip_key (rl_forwarded_for req)) (rl_user_key req) now_ms;
         (redis', outcome) = check_rate_limit redis failing server_now member key limit window_ms now_ms
     in if \<not> ro_allowed outcome then
          (let e = with_request_id (api_error_new 429 RateLimited ''Rate limit exceeded'')
                     (case rl_request_id req of None \<Rightarrow> 0 | Some i \<Rightarrow> i)
           in ((redis', w), Inl e,
               AList.update ''retry-after'' (int_to_string (ro_reset_at outcome)) (apply_rate_limit_headers outcome [])))
        else
          (case next w of (w', body, headers) \<Rightarrow> ((redis', w'), Inr body, apply_rate_limit_headers outcome headers)))"

section \<open>The bound\<close>

text \<open>
  The checks of one key, each with the clock readings, the member it adds and its outcome.
\<close>

record rate_call =
  rc_server_now :: int
  rc_now :: int
  rc_member :: string

fun rate_run :: "string \<Rightarrow> 32 word \<Rightarrow> u64 \<Rightarrow> rate_call list \<Rightarrow> redis_store \<Rightarrow> bool list" where
  "rate_run key limit window_ms [] store = []"
| "rate_run key limit window_ms (c # calls) store =
     (case check_rate_limit (Some store) False (rc_server_now c) (rc_member c) key limit window_ms (rc_now c) of
        (redis, outcome) \<Rightarrow> ro_allowed outcome # (case redis of None \<Rightarrow> [] | Some store' \<Rightarrow> rate_run key limit window_ms calls store'))"

definition admitted :: "rate_call list \<Rightarrow> bool list \<Rightarrow> (string \<times> int) list" where
  "admitted calls results = map (\<lambda>(c, a). (rc_member c, rc_now c)) (filter snd (zip calls results))"

definition in_window :: "int \<Rightarrow> int \<Rightarrow> (string \<times> int) list \<Rightarrow> nat" where
  "in_window window t hist = length (filter (\<lambda>e. t - window < snd e \<and> snd e \<le> t) hist)"

text \<open>Time does not run backwards, members are unique, and the two clocks drift by at most the second the key outlives its window.\<close>

definition clocks_agree :: "rate_call list \<Rightarrow> bool" where
  "clocks_agree calls \<longleftrightarrow> sorted (map rc_now calls) \<and> distinct (map rc_member calls)
     \<and> (\<forall>c \<in> set calls. \<forall>c' \<in> set calls. rc_server_now c' - rc_now c' \<le> rc_server_now c - rc_now c + 1000)"

definition window_inv :: "string \<Rightarrow> int \<Rightarrow> nat \<Rightarrow> rate_call list \<Rightarrow> (string \<times> int) list \<Rightarrow> redis_store \<Rightarrow> bool" where
  "window_inv key window limit calls hist store \<longleftrightarrow>
     (\<forall>t. in_window window t hist \<le> limit) \<and> (\<forall>c \<in> set calls. rc_member c \<notin> fst ` set hist \<and> (\<forall>e \<in> set hist. snd e \<le> rc_now c))
     \<and> (\<forall>c \<in> set calls. filter (\<lambda>e. rc_now c - window < snd e) (redis_entries store (rc_server_now c) key)
                           = filter (\<lambda>e. rc_now c - window < snd e) hist)"

lemma script_step:
  assumes inv: "window_inv key window limit (c # calls) hist store" and agree: "clocks_agree (c # calls)"
    and step: "sliding_window_script (rc_server_now c) key (rc_now c) window (int limit) (rc_member c) store = (store', n, added)"
    and window: "0 \<le> window"
  shows "window_inv key window limit calls (if added = 1 then hist @ [(rc_member c, rc_now c)] else hist) store'"
proof -
  let ?kept = "filter (\<lambda>e. rc_now c - window < snd e) hist"
  from inv have limit: "in_window window t hist \<le> limit" for t by (simp add: window_inv_def)
  from inv have kept: "filter (\<lambda>e. rc_now c - window < snd e) (redis_entries store (rc_server_now c) key) = ?kept"
    by (simp add: window_inv_def)
  from inv have fresh: "rc_member c \<notin> fst ` set hist" and past: "\<forall>e \<in> set hist. snd e \<le> rc_now c" by (simp_all add: window_inv_def)
  from agree have later: "rc_now c \<le> rc_now c'" "rc_member c' \<noteq> rc_member c"
      "rc_server_now c' - rc_now c' \<le> rc_server_now c - rc_now c + 1000" if "c' \<in> set calls" for c'
    using that by (auto simp: clocks_agree_def) (metis image_eqI)
  have refilter: "filter (\<lambda>e. rc_now c' - window < snd e) ?kept = filter (\<lambda>e. rc_now c' - window < snd e) hist" if "c' \<in> set calls" for c'
    using later(1) [OF that] by (auto intro!: filter_cong)
  show ?thesis
  proof (cases "int limit \<le> int (length ?kept)")
    case True
    with step kept have added: "added = 0" and store': "store' = (case store key of None \<Rightarrow> store | Some s \<Rightarrow> store(key \<mapsto> s\<lparr>ss_entries := ?kept\<rparr>))"
      by (auto simp: sliding_window_script_def Let_def)
    have "filter (\<lambda>e. rc_now c' - window < snd e) (redis_entries store' (rc_server_now c') key) = filter (\<lambda>e. rc_now c' - window < snd e) hist"
      if c': "c' \<in> set calls" for c'
    proof (cases "store key")
      case None
      with inv c' show ?thesis by (simp add: store' window_inv_def)
    next
      case (Some s)
      with inv c' have "filter (\<lambda>e. rc_now c' - window < snd e) (if ss_expires_at s \<le> rc_server_now c' then [] else ss_entries s) =
          filter (\<lambda>e. rc_now c' - window < snd e) hist" by (simp add: window_inv_def redis_entries_def)
      with Some refilter [OF c'] show ?thesis by (auto simp: store' redis_entries_def)
    qed
    with inv added show ?thesis by (simp add: window_inv_def)
  next
    case False
    let ?hist = "hist @ [(rc_member c, rc_now c)]"
    have zadd: "zadd (rc_now c) (rc_member c) ?kept = filter (\<lambda>e. rc_now c - window < snd e) hist @ [(rc_member c, rc_now c)]"
      using fresh by (auto simp: zadd_def intro!: filter_cong) (metis fst_conv image_eqI)
    from False step kept have added: "added = 1"
      and store': "store' = store(key \<mapsto> \<lparr>ss_entries = ?kept @ [(rc_member c, rc_now c)], ss_expires_at = rc_server_now c + window + 1000\<rparr>)"
      by (auto simp: sliding_window_script_def Let_def zadd)
    have "in_window window t ?hist \<le> limit" for t
    proof (cases "rc_now c \<le> t")
      case True
      have eq: "filter (\<lambda>e. t - window < snd e \<and> snd e \<le> t) hist = filter (\<lambda>e. t - window < snd e \<and> snd e \<le> t) ?kept"
        using True by (auto intro!: filter_cong)
      have "length (filter (\<lambda>e. t - window < snd e \<and> snd e \<le> t) hist) \<le> length ?kept" unfolding eq by (rule length_filter_le)
      with False show ?thesis by (simp add: in_window_def)
    next
      case before: False
      with limit [of t] show ?thesis by (simp add: in_window_def)
    qed
    moreover have "filter (\<lambda>e. rc_now c' - window < snd e) (redis_entries store' (rc_server_now c') key) = filter (\<lambda>e. rc_now c' - window < snd e) ?hist"
      if c': "c' \<in> set calls" for c'
    proof (cases "rc_server_now c + window + 1000 \<le> rc_server_now c'")
      case True
      with later(3) [OF c'] have "rc_now c \<le> rc_now c' - window" by simp
      with past have "\<forall>e \<in> set ?hist. \<not> rc_now c' - window < snd e" by fastforce
      with True show ?thesis by (simp add: store' redis_entries_def)
    next
      case alive: False
      with refilter [OF c'] show ?thesis by (simp add: store' redis_entries_def)
    qed
    ultimately show ?thesis using fresh past later inv added by (auto simp: window_inv_def)
  qed
qed

lemma rate_run_window:
  assumes "window_inv key (uint window_ms) (unat limit) calls hist store" and "clocks_agree calls"
  shows "in_window (uint window_ms) t (hist @ admitted calls (rate_run key limit window_ms calls store)) \<le> unat limit"
  using assms
proof (induction calls arbitrary: hist store)
  case Nil
  then show ?case by (simp add: window_inv_def admitted_def)
next
  case (Cons c calls)
  obtain store' n added where script: "sliding_window_script (rc_server_now c) key (rc_now c) (uint window_ms) (int (unat limit)) (rc_member c) store = (store', n, added)"
    using prod_cases3 by blast
  have inv: "window_inv key (uint window_ms) (unat limit) calls (if added = 1 then hist @ [(rc_member c, rc_now c)] else hist) store'"
    by (rule script_step [OF Cons.prems script]) simp
  have "clocks_agree calls" using Cons.prems(2) by (simp add: clocks_agree_def)
  note IH = Cons.IH [OF inv this]
  have "sliding_window_script (rc_server_now c) key (rc_now c) (uint window_ms) (uint limit) (rc_member c) store = (store', n, added)"
    using script by (simp only: uint_nat [of limit])
  then have "rate_run key limit window_ms (c # calls) store = (added = 1) # rate_run key limit window_ms calls store'"
    by (simp add: check_rate_limit_def Let_def)
  with IH show ?case by (simp add: admitted_def split: if_splits)
qed



section \<open>The minute boundary\<close>

lemma uint_limit_int: "uint (limit :: 32 word) = int (unat limit)"
  by (simp only: uint_nat)

text \<open>A key admits its first \<open>limit\<close> requests, here all made in the same millisecond.\<close>

lemma burst_admitted:
  assumes "distinct (map fst es @ ms)" and "\<forall>e \<in> set es. snd e = now" and "length es + length ms \<le> unat limit" and "0 < uint window_ms"
    and "es = [] \<and> store key = None \<or> (\<exists>x. store key = Some \<lparr>ss_entries = es, ss_expires_at = x\<rparr> \<and> now < x)"
  shows "rate_run key limit window_ms (map (\<lambda>m. \<lparr>rc_server_now = now, rc_now = now, rc_member = m\<rparr>) ms) store = replicate (length ms) True"
  using assms
proof (induction ms arbitrary: es store)
  case (Cons m ms)
  have entries: "redis_entries store now key = es" using Cons.prems(5) by (auto simp: redis_entries_def)
  have kept: "filter (\<lambda>e. now - uint window_ms < snd e) es = es" using Cons.prems(2,4) by (auto intro!: filter_True)
  have new: "filter (\<lambda>e. fst e \<noteq> m) es = es" using Cons.prems(1) by (auto intro!: filter_True)
  have below: "int (length es) < uint limit" using Cons.prems(3) unfolding uint_limit_int of_nat_less_iff by simp
  let ?store = "store(key \<mapsto> \<lparr>ss_entries = es @ [(m, now)], ss_expires_at = now + uint window_ms + 1000\<rparr>)"
  have "sliding_window_script now key now (uint window_ms) (uint limit) m store = (?store, int (length es) + 1, 1)"
    using below by (simp add: sliding_window_script_def entries kept zadd_def new Let_def)
  moreover have "rate_run key limit window_ms (map (\<lambda>m. \<lparr>rc_server_now = now, rc_now = now, rc_member = m\<rparr>) ms) ?store = replicate (length ms) True"
    by (rule Cons.IH [of "es @ [(m, now)]"]) (use Cons.prems in auto)
  ultimately show ?case by (simp add: check_rate_limit_def Let_def)
qed simp

text \<open>
  The order limit of sixty requests a minute can be spent twice around a minute boundary: the key names the clock
  minute, so sixty requests in the last millisecond of a minute and sixty in the first of the next are all admitted,
  a hundred and twenty within two milliseconds.
\<close>

theorem minute_boundary_doubles_limit:
  assumes "distinct ms" and "distinct ms'" and "length ms = 60" and "length ms' = 60"
  shows "case classify_request ''/api/v1/orders'' ip (Some uid) 59999 of (limit, window_ms, key) \<Rightarrow>
     case classify_request ''/api/v1/orders'' ip (Some uid) 60000 of (limit', window_ms', key') \<Rightarrow>
       limit = 60 \<and> limit' = 60 \<and> key \<noteq> key'
       \<and> rate_run key limit window_ms (map (\<lambda>m. \<lparr>rc_server_now = 59999, rc_now = 59999, rc_member = m\<rparr>) ms) Map.empty = replicate 60 True
       \<and> (\<forall>store. store key' = None \<longrightarrow>
            rate_run key' limit' window_ms' (map (\<lambda>m. \<lparr>rc_server_now = 60000, rc_now = 60000, rc_member = m\<rparr>) ms') store = replicate 60 True)"
proof -
  have buckets: "int_to_string (window_bucket 59999 60000) = ''0''" "int_to_string (window_bucket 60000 60000) = ''1''"
    by (simp_all add: int_to_string_def window_bucket_def trunc_div_def nat_to_string.simps)
  have path: "starts_with ''/api/v1/orders'' ''/api/v1/orders''" "\<not> starts_with ''/api/v1/auth/'' ''/api/v1/orders''"
    by (simp_all add: starts_with_def)
  show ?thesis
    using burst_admitted [of "[]" ms 59999 60 60000 Map.empty] burst_admitted [of "[]" ms' 60000 60 60000] assms
    by (simp add: classify_request_def buckets path Let_def)
qed

theorem minute_boundary_doubles_limit_witness:
  "rate_run ''rl:orders:user:u:0'' 60 60000 (map (\<lambda>m. \<lparr>rc_server_now = 59999, rc_now = 59999, rc_member = m\<rparr>)
     (map (\<lambda>n. replicate n (CHR ''a'')) [0..<60])) Map.empty = replicate 60 True"
proof -
  have "distinct (map (\<lambda>n. replicate n (CHR ''a'')) [0..<60])"
    by (simp add: distinct_map inj_on_def)
  moreover have "classify_request ''/api/v1/orders'' [] (Some ''u'') 59999 = (60, 60000, ''rl:orders:user:u:0'')"
    by (simp add: classify_request_def starts_with_def int_to_string_def window_bucket_def trunc_div_def nat_to_string.simps Let_def)
  ultimately show ?thesis
    using minute_boundary_doubles_limit [of "map (\<lambda>n. replicate n (CHR ''a'')) [0..<60]" "map (\<lambda>n. replicate n (CHR ''a'')) [0..<60]" "[]" "''u''"]
    by (simp split: prod.splits)
qed

end
