(* ===== verification/Market_Maker.thy ===== *)
theory Market_Maker
  imports Wire
begin

text \<open>
  The market-data worker's market maker: quote generation (\<open>services/market-data/src/quoting.rs\<close>), its engine client
  (\<open>engine.rs\<close>) and the refresh loop (\<open>market_maker.rs\<close>). The connection is the parameter \<open>port\<close>: what happens between
  connecting and the end of the stream, as the frames read in order. UUIDs are drawn from the sequence \<open>ids\<close>.
\<close>

section \<open>Quotes\<close>

record 'd book_ticker =
  tk_symbol :: string
  tk_bid_price :: 'd
  tk_bid_quantity :: 'd
  tk_ask_price :: 'd
  tk_ask_quantity :: 'd

record 'd quote_level =
  ql_price :: 'd
  ql_quantity :: 'd

record 'd quote_set =
  qs_bids :: "'d quote_level list"
  qs_asks :: "'d quote_level list"

record 'd quote_generator =
  qg_levels :: nat
  qg_spread_bps :: 'd
  qg_base_quantity :: 'd

definition default_10x10 :: "'d::linordered_field quote_generator" where
  "default_10x10 = \<lparr>qg_levels = 10, qg_spread_bps = 5, qg_base_quantity = 1\<rparr>"

definition level_offset :: "'d::linordered_field quote_generator \<Rightarrow> nat \<Rightarrow> 'd" where
  "level_offset g level = qg_spread_bps g * of_nat level / 10000"

definition generate :: "'d::linordered_field quote_generator \<Rightarrow> 'd book_ticker \<Rightarrow> 'd quote_set" where
  "generate g ticker =
     (let mid = (tk_bid_price ticker + tk_ask_price ticker) / 2;
          levels = [1..<Suc (qg_levels g)]
      in \<lparr>qs_bids = map (\<lambda>level. \<lparr>ql_price = mid * (1 - level_offset g level), ql_quantity = qg_base_quantity g * of_nat level\<rparr>) levels,
          qs_asks = map (\<lambda>level. \<lparr>ql_price = mid * (1 + level_offset g level), ql_quantity = qg_base_quantity g * of_nat level\<rparr>) levels\<rparr>)"

section \<open>The engine client\<close>

datatype mm_client_error = MmIo | MmTimeout | MmRejected string | MmUnexpected

text \<open>
  One connection per request: it may fail or time out (\<open>Inl\<close>); otherwise frames arrive, the last of them possibly unreadable
  (\<open>None\<close>), until the stream ends.
\<close>

type_synonym ('d, 's) mm_port = "'d engine_request \<Rightarrow> 's \<Rightarrow> 's \<times> (mm_client_error + 'd engine_response option list)"

fun read_non_event_response :: "'d engine_response option list \<Rightarrow> mm_client_error + 'd engine_response" where
  "read_non_event_response [] = Inl MmUnexpected"
| "read_non_event_response (None # frames) = Inl MmIo"
| "read_non_event_response (Some response # frames) =
     (case response of Event _ \<Rightarrow> read_non_event_response frames | _ \<Rightarrow> Inr response)"

definition mm_send :: "('d, 's) mm_port \<Rightarrow> 'd engine_request \<Rightarrow> 's \<Rightarrow> 's \<times> (mm_client_error + 'd engine_response)" where
  "mm_send port request w =
     (case port request w of (w', Inl e) \<Rightarrow> (w', Inl e) | (w', Inr frames) \<Rightarrow> (w', read_non_event_response frames))"

definition mm_cancel_all ::
  "('d, 's) mm_port \<Rightarrow> uuid \<Rightarrow> uuid \<Rightarrow> string \<Rightarrow> 's \<Rightarrow> 's \<times> (mm_client_error + unit)" where
  "mm_cancel_all port request_id user_id symbol w =
     (case mm_send port (CancelAll \<lparr>ca_request_id = request_id, ca_user_id = user_id, ca_symbol = Some symbol\<rparr>) w of
        (w', Inl e) \<Rightarrow> (w', Inl e)
      | (w', Inr response) \<Rightarrow>
          (w', case response of
                 Ack ack \<Rightarrow> (if ar_request_id ack = request_id
                              then (case ar_result ack of AckCancelAll _ \<Rightarrow> Inr () | _ \<Rightarrow> Inl MmUnexpected)
                              else Inl MmUnexpected)
               | Reject rejected \<Rightarrow> Inl (MmRejected (rj_code rejected))
               | _ \<Rightarrow> Inl MmUnexpected))"

definition mm_place :: "('d, 's) mm_port \<Rightarrow> uuid \<Rightarrow> 'd engine_order \<Rightarrow> 's \<Rightarrow> 's \<times> (mm_client_error + unit)" where
  "mm_place port request_id ord w =
     (case mm_send port (Place \<lparr>pr_request_id = request_id, pr_order = ord\<rparr>) w of
        (w', Inl e) \<Rightarrow> (w', Inl e)
      | (w', Inr response) \<Rightarrow>
          (w', case response of
                 Ack ack \<Rightarrow> (if ar_request_id ack = request_id
                              then (case ar_result ack of AckOrder _ \<Rightarrow> Inr () | _ \<Rightarrow> Inl MmUnexpected)
                              else Inl MmUnexpected)
               | Reject rejected \<Rightarrow> Inl (MmRejected (rj_code rejected))
               | _ \<Rightarrow> Inl MmUnexpected))"

definition quote_order :: "uuid \<Rightarrow> uuid \<Rightarrow> string \<Rightarrow> order_side \<Rightarrow> 'd \<Rightarrow> 'd \<Rightarrow> 'd engine_order" where
  "quote_order i user_id symbol side price quantity =
     \<lparr>eo_id = i, eo_user_id = user_id, eo_symbol = symbol, eo_side = side, eo_order_type = WPostOnly, eo_price = Some price,
      eo_quantity = quantity, eo_stp_mode = WDecrement, eo_stop_price = None, eo_oco_linked_id = None, eo_display_qty = None\<rparr>"

section \<open>The market maker\<close>

record 'd timed_ticker =
  tt_ticker :: "'d book_ticker"
  tt_updated_at :: nat

text \<open>\<open>latest\<close> is a \<open>HashMap\<close>; the order of its entries stands for the order in which it is iterated.\<close>

record 'd market_maker =
  mm_quote_generator :: "'d quote_generator"
  mm_quoted_symbols :: "string set"
  mm_user_id :: uuid
  mm_stale_after :: nat
  mm_latest :: "(string \<times> 'd timed_ticker) list"

definition market_maker_new :: "uuid \<Rightarrow> nat \<Rightarrow> string list \<Rightarrow> 'd::linordered_field market_maker" where
  "market_maker_new user_id stale_after quoted_symbols =
     \<lparr>mm_quote_generator = default_10x10, mm_quoted_symbols = set quoted_symbols, mm_user_id = user_id,
      mm_stale_after = stale_after, mm_latest = []\<rparr>"

definition record_ticker :: "nat \<Rightarrow> 'd book_ticker \<Rightarrow> 'd market_maker \<Rightarrow> 'd market_maker" where
  "record_ticker now ticker mm =
     (if tk_symbol ticker \<notin> mm_quoted_symbols mm then mm
      else mm\<lparr>mm_latest := AList.update (tk_symbol ticker) \<lparr>tt_ticker = ticker, tt_updated_at = now\<rparr> (mm_latest mm)\<rparr>)"

text \<open>The state of a refresh: the world behind the port and the number of UUIDs drawn.\<close>

fun place_quotes ::
  "('d, 's) mm_port \<Rightarrow> (nat \<Rightarrow> uuid) \<Rightarrow> uuid \<Rightarrow> string \<Rightarrow> order_side \<Rightarrow> 'd quote_level list \<Rightarrow> 's \<times> nat \<Rightarrow> ('s \<times> nat) \<times> (mm_client_error + unit)" where
  "place_quotes port ids user_id symbol side [] s = (s, Inr ())"
| "place_quotes port ids user_id symbol side (quote # quotes) (w, n) =
     (case mm_place port (ids (n + 1)) (quote_order (ids n) user_id symbol side (ql_price quote) (ql_quantity quote)) w of
        (w', Inl e) \<Rightarrow> ((w', n + 2), Inl e)
      | (w', Inr _) \<Rightarrow> place_quotes port ids user_id symbol side quotes (w', n + 2))"

definition refresh_symbol ::
  "('d::linordered_field, 's) mm_port \<Rightarrow> (nat \<Rightarrow> uuid) \<Rightarrow> nat \<Rightarrow> 'd market_maker \<Rightarrow> string \<times> 'd timed_ticker \<Rightarrow> 's \<times> nat \<Rightarrow>
     ('s \<times> nat) \<times> (mm_client_error + unit)" where
  "refresh_symbol port ids now mm = (\<lambda>(symbol, timed) (w, n).
     case mm_cancel_all port (ids n) (mm_user_id mm) symbol w of
       (w1, Inl e) \<Rightarrow> ((w1, n + 1), Inl e)
     | (w1, Inr _) \<Rightarrow>
         if mm_stale_after mm < now - tt_updated_at timed then ((w1, n + 1), Inr ())
         else
           (let quotes = generate (mm_quote_generator mm) (tt_ticker timed)
            in case place_quotes port ids (mm_user_id mm) symbol WBuy (qs_bids quotes) (w1, n + 1) of
                 (s2, Inl e) \<Rightarrow> (s2, Inl e)
               | (s2, Inr _) \<Rightarrow> place_quotes port ids (mm_user_id mm) symbol WSell (qs_asks quotes) s2))"

fun refresh_loop ::
  "('d::linordered_field, 's) mm_port \<Rightarrow> (nat \<Rightarrow> uuid) \<Rightarrow> nat \<Rightarrow> 'd market_maker \<Rightarrow> (string \<times> 'd timed_ticker) list \<Rightarrow> 's \<times> nat \<Rightarrow>
     ('s \<times> nat) \<times> (mm_client_error + unit)" where
  "refresh_loop port ids now mm [] s = (s, Inr ())"
| "refresh_loop port ids now mm (entry # entries) s =
     (case refresh_symbol port ids now mm entry s of
        (s', Inl e) \<Rightarrow> (s', Inl e)
      | (s', Inr _) \<Rightarrow> refresh_loop port ids now mm entries s')"

definition refresh_quotes ::
  "('d::linordered_field, 's) mm_port \<Rightarrow> (nat \<Rightarrow> uuid) \<Rightarrow> nat \<Rightarrow> 'd market_maker \<Rightarrow> 's \<times> nat \<Rightarrow> ('s \<times> nat) \<times> (mm_client_error + unit)" where
  "refresh_quotes port ids now mm s = refresh_loop port ids now mm (mm_latest mm) s"

section \<open>Quotes are valid and do not cross\<close>

lemma default_offset:
  assumes "1 \<le> level" and "level \<le> 10"
  shows "0 < level_offset (default_10x10 :: 'd::linordered_field quote_generator) level" and "level_offset (default_10x10 :: 'd quote_generator) level < 1"
proof -
  have "(1 :: 'd) \<le> of_nat level" "(of_nat level :: 'd) \<le> 10"
    using assms by (simp, metis of_nat_le_iff of_nat_numeral)
  then show "0 < level_offset (default_10x10 :: 'd quote_generator) level" and "level_offset (default_10x10 :: 'd quote_generator) level < 1"
    by (simp_all add: level_offset_def default_10x10_def)
qed

lemma level_offset_mono: "level < level' \<Longrightarrow> level_offset (default_10x10 :: 'd::linordered_field quote_generator) level < level_offset default_10x10 level'"
  by (simp add: level_offset_def default_10x10_def)

lemma valid_quote_order:
  assumes "trim symbol \<noteq> []" and "0 < price" and "0 < quantity"
  shows "validate_wire_order request_id (quote_order i user_id symbol side price quantity) = None"
  using assms by (simp add: validate_wire_order_def quote_order_def requires_price_def requires_stop_price_def is_none_or_def)

text \<open>
  Every quote set is a valid, uncrossed ladder: around a positive mid price the generator makes ten bids and ten asks,
  every bid below and every ask above the mid, prices strictly worse from level to level, and each order made from them
  passes the engine's validation.
\<close>

theorem generated_quotes_valid:
  fixes ticker :: "'d::linordered_field book_ticker"
  defines "mid \<equiv> (tk_bid_price ticker + tk_ask_price ticker) / 2" and "quotes \<equiv> generate default_10x10 ticker"
  assumes "0 < mid" and "trim symbol \<noteq> []"
  shows "length (qs_bids quotes) = 10 \<and> length (qs_asks quotes) = 10
    \<and> sorted_wrt (>) (map ql_price (qs_bids quotes)) \<and> sorted_wrt (<) (map ql_price (qs_asks quotes))
    \<and> (\<forall>q \<in> set (qs_bids quotes). ql_price q < mid \<and> validate_wire_order r (quote_order i u symbol WBuy (ql_price q) (ql_quantity q)) = None)
    \<and> (\<forall>q \<in> set (qs_asks quotes). mid < ql_price q \<and> validate_wire_order r (quote_order i u symbol WSell (ql_price q) (ql_quantity q)) = None)"
proof -
  let ?off = "level_offset (default_10x10 :: 'd quote_generator)"
  have gen: "[1..<Suc (qg_levels (default_10x10 :: 'd quote_generator))] = [1..<11]" "qg_base_quantity (default_10x10 :: 'd quote_generator) = 1"
    by (simp_all add: default_10x10_def del: upt_Suc)
  have bids: "qs_bids quotes = map (\<lambda>level. \<lparr>ql_price = mid * (1 - ?off level), ql_quantity = of_nat level\<rparr>) [1..<11]"
    and asks: "qs_asks quotes = map (\<lambda>level. \<lparr>ql_price = mid * (1 + ?off level), ql_quantity = of_nat level\<rparr>) [1..<11]"
    by (simp_all only: quotes_def generate_def Let_def mid_def gen quote_set.select_convs mult_1)
  have level: "0 < ?off l" "?off l < 1" "0 < (of_nat l :: 'd)" if "l \<in> {1..<11}" for l
    using that default_offset [of l] by auto
  have "\<forall>q \<in> set (qs_bids quotes). ql_price q < mid \<and> 0 < ql_price q \<and> 0 < ql_quantity q"
    using level assms(3) by (auto simp: bids)
  moreover have "\<forall>q \<in> set (qs_asks quotes). mid < ql_price q \<and> 0 < ql_price q \<and> 0 < ql_quantity q"
    using level assms(3) by (auto simp: asks add_pos_pos)
  moreover have "sorted_wrt (>) (map ql_price (qs_bids quotes))" "sorted_wrt (<) (map ql_price (qs_asks quotes))"
    unfolding bids asks map_map
    by (auto simp: sorted_wrt_map o_def level_offset_mono assms(3) intro: sorted_wrt_mono_rel [OF _ strict_sorted_list_of_set] sorted_wrt_mono_rel [OF _ sorted_wrt_upt])
  moreover have "length (qs_bids quotes) = 10" "length (qs_asks quotes) = 10" by (simp_all add: bids asks)
  ultimately show ?thesis using valid_quote_order [OF assms(4)] by blast
qed

section \<open>What a refresh sends\<close>

text \<open>A port that also writes down the requests it is given.\<close>

definition recording :: "('d, 's) mm_port \<Rightarrow> ('d, 's \<times> 'd engine_request list) mm_port" where
  "recording port request = (\<lambda>(w, sent). case port request w of (w', answer) \<Rightarrow> ((w', sent @ [request]), answer))"

fun quote_requests ::
  "(nat \<Rightarrow> uuid) \<Rightarrow> nat \<Rightarrow> uuid \<Rightarrow> string \<Rightarrow> order_side \<Rightarrow> 'd quote_level list \<Rightarrow> 'd engine_request list" where
  "quote_requests ids n user_id symbol side [] = []"
| "quote_requests ids n user_id symbol side (q # quotes) =
     Place \<lparr>pr_request_id = ids (n + 1), pr_order = quote_order (ids n) user_id symbol side (ql_price q) (ql_quantity q)\<rparr>
       # quote_requests ids (n + 2) user_id symbol side quotes"

fun refresh_requests ::
  "(nat \<Rightarrow> uuid) \<Rightarrow> nat \<Rightarrow> nat \<Rightarrow> 'd::linordered_field market_maker \<Rightarrow> (string \<times> 'd timed_ticker) list \<Rightarrow> 'd engine_request list" where
  "refresh_requests ids n now mm [] = []"
| "refresh_requests ids n now mm ((symbol, timed) # entries) =
     CancelAll \<lparr>ca_request_id = ids n, ca_user_id = mm_user_id mm, ca_symbol = Some symbol\<rparr>
     # (if mm_stale_after mm < now - tt_updated_at timed then refresh_requests ids (n + 1) now mm entries
        else let quotes = generate (mm_quote_generator mm) (tt_ticker timed); k = n + 1 + 2 * length (qs_bids quotes)
             in quote_requests ids (n + 1) (mm_user_id mm) symbol WBuy (qs_bids quotes)
                @ quote_requests ids k (mm_user_id mm) symbol WSell (qs_asks quotes)
                @ refresh_requests ids (k + 2 * length (qs_asks quotes)) now mm entries)"

text \<open>A run has sent \<open>plan\<close> in full when it succeeds, and a non-empty initial part of it when it fails.\<close>

definition follows :: "'a list \<Rightarrow> 'a list \<Rightarrow> 'a list \<Rightarrow> bool \<Rightarrow> bool" where
  "follows plan sent sent' done \<longleftrightarrow> (\<exists>k. sent' = sent @ take k plan \<and> (if done then length plan \<le> k else 0 < k \<and> k \<le> length plan))"

lemma follows_Nil: "follows [] sent sent True"
  by (simp add: follows_def)

lemma follows_fail: "follows (x # plan) sent (sent @ [x]) False"
  unfolding follows_def by (rule exI [of _ 1]) simp

lemma follows_Cons: "follows plan (sent @ [x]) sent' done \<Longrightarrow> follows (x # plan) sent sent' done"
  unfolding follows_def
proof (elim exE conjE)
  fix k assume "sent' = (sent @ [x]) @ take k plan" and "if done then length plan \<le> k else 0 < k \<and> k \<le> length plan"
  then show "\<exists>k. sent' = sent @ take k (x # plan) \<and> (if done then length (x # plan) \<le> k else 0 < k \<and> k \<le> length (x # plan))"
    by (intro exI [of _ "Suc k"]) (auto split: if_splits)
qed

lemma follows_append_fail: "follows plan sent sent' False \<Longrightarrow> follows (plan @ plan') sent sent' False"
  unfolding follows_def by force

lemma follows_append: "follows plan sent sent1 True \<Longrightarrow> follows plan' sent1 sent' done \<Longrightarrow> follows (plan @ plan') sent sent' done"
proof -
  assume "follows plan sent sent1 True" and "follows plan' sent1 sent' done"
  then obtain k where "sent1 = sent @ plan" and k: "sent' = sent1 @ take k plan'"
      "if done then length plan' \<le> k else 0 < k \<and> k \<le> length plan'"
    unfolding follows_def by auto
  then show ?thesis unfolding follows_def by (intro exI [of _ "length plan + k"]) (auto split: if_splits)
qed

lemma mm_place_recording:
  "\<exists>w'. mm_place (recording port) request_id ord (w, sent) =
     ((w', sent @ [Place \<lparr>pr_request_id = request_id, pr_order = ord\<rparr>]), snd (mm_place port request_id ord w))"
  by (auto simp: mm_place_def mm_send_def recording_def split: prod.splits sum.splits)

lemma mm_cancel_all_recording:
  "\<exists>w'. mm_cancel_all (recording port) request_id user_id symbol (w, sent) =
     ((w', sent @ [CancelAll \<lparr>ca_request_id = request_id, ca_user_id = user_id, ca_symbol = Some symbol\<rparr>]),
      snd (mm_cancel_all port request_id user_id symbol w))"
  by (auto simp: mm_cancel_all_def mm_send_def recording_def split: prod.splits sum.splits)

lemma place_quotes_follows:
  assumes "place_quotes (recording port) ids user_id symbol side quotes ((w, sent), n) = (((w', sent'), n'), r)"
  shows "follows (quote_requests ids n user_id symbol side quotes) sent sent' (\<not> isl r) \<and> (\<not> isl r \<longrightarrow> n' = n + 2 * length quotes)"
  using assms
proof (induction quotes arbitrary: w sent n)
  case Nil
  then show ?case by (auto simp: follows_Nil)
next
  case (Cons q quotes)
  let ?ord = "quote_order (ids n) user_id symbol side (ql_price q) (ql_quantity q)"
  let ?sent = "sent @ [Place \<lparr>pr_request_id = ids (n + 1), pr_order = ?ord\<rparr>]"
  obtain w1 where placed: "mm_place (recording port) (ids (n + 1)) ?ord (w, sent) = ((w1, ?sent), snd (mm_place port (ids (n + 1)) ?ord w))"
    by (rule exE [OF mm_place_recording]) (rule that)
  show ?case
  proof (cases "snd (mm_place port (ids (n + 1)) ?ord w)")
    case (Inl e)
    with Cons.prems placed have "sent' = ?sent" "r = Inl e" by simp_all
    then show ?thesis by (simp add: follows_fail)
  next
    case (Inr x)
    with Cons.prems placed have "place_quotes (recording port) ids user_id symbol side quotes ((w1, ?sent), n + 2) = (((w', sent'), n'), r)" by simp
    from Cons.IH [OF this] show ?thesis by (auto intro: follows_Cons)
  qed
qed

lemma refresh_loop_follows:
  assumes "refresh_loop (recording port) ids now mm entries ((w, sent), n) = (((w', sent'), n'), r)"
  shows "follows (refresh_requests ids n now mm entries) sent sent' (\<not> isl r)"
  using assms
proof (induction entries arbitrary: w sent n)
  case Nil
  then show ?case by (auto simp: follows_Nil)
next
  case (Cons entry entries)
  obtain symbol timed where entry: "entry = (symbol, timed)" by (cases entry)
  let ?quotes = "generate (mm_quote_generator mm) (tt_ticker timed)"
  let ?sent = "sent @ [CancelAll \<lparr>ca_request_id = ids n, ca_user_id = mm_user_id mm, ca_symbol = Some symbol\<rparr>]"
  obtain w1 where cancel: "mm_cancel_all (recording port) (ids n) (mm_user_id mm) symbol (w, sent) =
      ((w1, ?sent), snd (mm_cancel_all port (ids n) (mm_user_id mm) symbol w))"
    by (rule exE [OF mm_cancel_all_recording]) (rule that)
  consider (error) e where "snd (mm_cancel_all port (ids n) (mm_user_id mm) symbol w) = Inl e"
    | (stale) x where "snd (mm_cancel_all port (ids n) (mm_user_id mm) symbol w) = Inr x" "mm_stale_after mm < now - tt_updated_at timed"
    | (fresh) x where "snd (mm_cancel_all port (ids n) (mm_user_id mm) symbol w) = Inr x" "\<not> mm_stale_after mm < now - tt_updated_at timed"
    by (cases "snd (mm_cancel_all port (ids n) (mm_user_id mm) symbol w)") auto
  then show ?case
  proof cases
    case error
    with Cons.prems cancel have "sent' = ?sent" "r = Inl e" by (simp_all add: entry refresh_symbol_def)
    then show ?thesis by (simp add: entry follows_fail)
  next
    case stale
    with Cons.prems cancel have "refresh_loop (recording port) ids now mm entries ((w1, ?sent), n + 1) = (((w', sent'), n'), r)"
      by (simp add: entry refresh_symbol_def)
    from follows_Cons [OF Cons.IH [OF this]] stale show ?thesis by (simp add: entry)
  next
    case fresh
    obtain w2 sent2 n2 r2 where bids: "place_quotes (recording port) ids (mm_user_id mm) symbol WBuy (qs_bids ?quotes) ((w1, ?sent), n + 1) = (((w2, sent2), n2), r2)"
      by (metis surj_pair)
    note f2 = place_quotes_follows [OF bids]
    obtain w3 sent3 n3 r3 where asks: "place_quotes (recording port) ids (mm_user_id mm) symbol WSell (qs_asks ?quotes) ((w2, sent2), n2) = (((w3, sent3), n3), r3)"
      by (metis surj_pair)
    note f3 = place_quotes_follows [OF asks]
    show ?thesis
    proof (cases r2)
      case (Inl e)
      with Cons.prems cancel fresh bids have "sent' = sent2" "r = Inl e" by (simp_all add: entry refresh_symbol_def Let_def)
      with f2 Inl fresh(2) show ?thesis by (auto simp: entry Let_def intro!: follows_Cons follows_append_fail)
    next
      case Inr2: (Inr y)
      from f2 Inr2 have f2': "follows (quote_requests ids (n + 1) (mm_user_id mm) symbol WBuy (qs_bids ?quotes)) ?sent sent2 True"
        and n2: "n2 = n + 1 + 2 * length (qs_bids ?quotes)" by simp_all
      show ?thesis
      proof (cases r3)
        case (Inl e)
        with Cons.prems cancel fresh bids Inr2 asks have "sent' = sent3" "r = Inl e" by (simp_all add: entry refresh_symbol_def Let_def)
        moreover from f3 Inl have "follows (quote_requests ids n2 (mm_user_id mm) symbol WSell (qs_asks ?quotes)) sent2 sent3 False" by simp
        note follows_Cons [OF follows_append [OF f2' follows_append_fail [OF this]]]
        ultimately show ?thesis using fresh(2) by (simp add: entry Let_def n2)
      next
        case (Inr z)
        with Cons.prems cancel fresh bids Inr2 asks have "refresh_loop (recording port) ids now mm entries ((w3, sent3), n3) = (((w', sent'), n'), r)"
          by (simp add: entry refresh_symbol_def Let_def)
        note IH = Cons.IH [OF this]
        from f3 Inr have "follows (quote_requests ids n2 (mm_user_id mm) symbol WSell (qs_asks ?quotes)) sent2 sent3 True"
          and n3: "n3 = n2 + 2 * length (qs_asks ?quotes)" by simp_all
        from follows_Cons [OF follows_append [OF f2' follows_append [OF this(1) IH]]] show ?thesis
          using fresh(2) by (simp add: entry Let_def n2 n3)
      qed
    qed
  qed
qed


section \<open>Witnesses\<close>

definition sample_ticker :: "real book_ticker" where
  "sample_ticker = \<lparr>tk_symbol = ''BTCUSDT'', tk_bid_price = 100, tk_bid_quantity = 1, tk_ask_price = 102, tk_ask_quantity = 1\<rparr>"

theorem generated_quotes_valid_witness:
  "length (qs_bids (generate default_10x10 sample_ticker)) = 10
   \<and> list_all (\<lambda>q. ql_price q < 101 \<and> validate_wire_order 1 (quote_order 2 3 ''BTCUSDT'' WBuy (ql_price q) (ql_quantity q)) = None)
       (qs_bids (generate default_10x10 sample_ticker))"
proof -
  have "trim ''BTCUSDT'' \<noteq> []" by (simp add: trim_def is_whitespace_def)
  then show ?thesis using generated_quotes_valid [of sample_ticker "''BTCUSDT''" 1 2 3] by (simp add: sample_ticker_def list_all_iff)
qed

definition rejecting_port :: "(real, unit) mm_port" where
  "rejecting_port request w = (w, Inr [Some (case request of
     CancelAll req \<Rightarrow> Ack \<lparr>ar_request_id = ca_request_id req, ar_result = AckCancelAll \<lparr>cl_order_ids = [], cl_seq = 1\<rparr>\<rparr>
   | _ \<Rightarrow> Reject \<lparr>rj_request_id = 0, rj_code = ''POST_ONLY_REJECTED'', rj_message = []\<rparr>)])"


end
