(* ===== verification/Market_Data.thy ===== *)
theory Market_Data
  imports Market_Maker Wallet
begin

text \<open>
  Market data: the Binance payloads and stream names (\<open>services/market-data/src/binance.rs\<close>), storing candles
  (\<open>persistence.rs\<close>), the worker's event handler (\<open>main.rs\<close>), the public queries (\<open>services/api/src/repositories/markets.rs\<close>)
  and the market endpoints (\<open>handlers/markets.rs\<close>). Time stamps are Unix nanoseconds; \<open>serde_json\<close>, the range of
  \<open>OffsetDateTime\<close> and the rounding of percentages are parameters. The trade list is not modelled.
\<close>

section \<open>Payloads\<close>

record 'd kline_update =
  ku_symbol :: string
  ku_interval :: string
  ku_open_time_ms :: int
  ku_close_time_ms :: int
  ku_open :: 'd
  ku_high :: 'd
  ku_low :: 'd
  ku_close :: 'd
  ku_volume :: 'd
  ku_is_closed :: bool

datatype 'd binance_event = BookTickerEvent "'d book_ticker" | KlineEvent "'d kline_update"

record 'd raw_kline =
  rk_open_time_ms :: int
  rk_close_time_ms :: int
  rk_interval :: string
  rk_open :: 'd
  rk_close :: 'd
  rk_high :: 'd
  rk_low :: 'd
  rk_volume :: 'd
  rk_is_closed :: bool

record 'd raw_kline_envelope =
  rv_symbol :: string
  rv_kline :: "'d raw_kline"

record 'd raw_book_ticker =
  rb_symbol :: string
  rb_bid_price :: 'd
  rb_bid_quantity :: 'd
  rb_ask_price :: 'd
  rb_ask_quantity :: 'd

text \<open>The two \<open>from_str\<close> calls, up to the field \<open>data\<close>.\<close>

record 'd binance_codec =
  bc_book_ticker :: "string \<Rightarrow> 'd raw_book_ticker option"
  bc_kline :: "string \<Rightarrow> 'd raw_kline_envelope option"

definition parse_book_ticker :: "'d binance_codec \<Rightarrow> string \<Rightarrow> 'd book_ticker option" where
  "parse_book_ticker codec payload =
     map_option (\<lambda>raw. \<lparr>tk_symbol = rb_symbol raw, tk_bid_price = rb_bid_price raw, tk_bid_quantity = rb_bid_quantity raw,
         tk_ask_price = rb_ask_price raw, tk_ask_quantity = rb_ask_quantity raw\<rparr>) (bc_book_ticker codec payload)"

definition parse_kline :: "'d binance_codec \<Rightarrow> string \<Rightarrow> 'd kline_update option" where
  "parse_kline codec payload =
     map_option (\<lambda>raw. \<lparr>ku_symbol = rv_symbol raw, ku_interval = rk_interval (rv_kline raw), ku_open_time_ms = rk_open_time_ms (rv_kline raw),
         ku_close_time_ms = rk_close_time_ms (rv_kline raw), ku_open = rk_open (rv_kline raw), ku_high = rk_high (rv_kline raw),
         ku_low = rk_low (rv_kline raw), ku_close = rk_close (rv_kline raw), ku_volume = rk_volume (rv_kline raw),
         ku_is_closed = rk_is_closed (rv_kline raw)\<rparr>) (bc_kline codec payload)"

definition parse_event :: "'d binance_codec \<Rightarrow> string \<Rightarrow> 'd binance_event option" where
  "parse_event codec payload =
     (case parse_book_ticker codec payload of
        Some ticker \<Rightarrow> Some (BookTickerEvent ticker)
      | None \<Rightarrow> map_option KlineEvent (parse_kline codec payload))"

section \<open>Streams\<close>

datatype stream_kind = BookTickerStream | Kline1mStream

fun join_with :: "string \<Rightarrow> string list \<Rightarrow> string" where
  "join_with sep [] = []"
| "join_with sep [s] = s"
| "join_with sep (s # ss) = s @ sep @ join_with sep ss"

definition stream_name :: "string \<Rightarrow> stream_kind \<Rightarrow> string" where
  "stream_name symbol kind =
     map ascii_lower symbol @ (case kind of BookTickerStream \<Rightarrow> ''@bookTicker'' | Kline1mStream \<Rightarrow> ''@kline_1m'')"

definition combined_stream_url :: "string list \<Rightarrow> stream_kind list \<Rightarrow> string" where
  "combined_stream_url symbols kinds =
     ''wss://stream.binance.com:9443/stream?streams='' @
     join_with ''/'' (concat (map (\<lambda>symbol. map (stream_name symbol) kinds) symbols))"

definition combined_book_ticker_url :: "string list \<Rightarrow> string" where
  "combined_book_ticker_url symbols = combined_stream_url symbols [BookTickerStream]"

definition combined_market_data_url :: "string list \<Rightarrow> string" where
  "combined_market_data_url symbols = combined_stream_url symbols [BookTickerStream, Kline1mStream]"

definition default_top_usdt_symbols :: "string list" where
  "default_top_usdt_symbols =
     [''BTCUSDT'', ''ETHUSDT'', ''BNBUSDT'', ''SOLUSDT'', ''XRPUSDT'', ''DOGEUSDT'', ''ADAUSDT'', ''TRXUSDT'', ''AVAXUSDT'', ''LINKUSDT'',
      ''TONUSDT'', ''SHIBUSDT'', ''DOTUSDT'', ''BCHUSDT'', ''NEARUSDT'', ''MATICUSDT'', ''LTCUSDT'', ''UNIUSDT'', ''ICPUSDT'', ''APTUSDT'',
      ''ETCUSDT'', ''FILUSDT'', ''ATOMUSDT'', ''ARBUSDT'', ''OPUSDT'', ''INJUSDT'', ''SUIUSDT'', ''STXUSDT'', ''IMXUSDT'', ''HBARUSDT'',
      ''VETUSDT'', ''MKRUSDT'', ''RNDRUSDT'', ''AAVEUSDT'', ''GRTUSDT'', ''ARUSDT'', ''RUNEUSDT'', ''LDOUSDT'', ''THETAUSDT'', ''ALGOUSDT'',
      ''QNTUSDT'', ''FTMUSDT'', ''FLOWUSDT'', ''JASMYUSDT'', ''SEIUSDT'', ''WIFUSDT'', ''FETUSDT'', ''TIAUSDT'', ''PEPEUSDT'', ''BONKUSDT'']"

text \<open>A \<open>BTreeSet\<close> of the default and the local symbols, read in order.\<close>

definition stream_symbols :: "string list \<Rightarrow> string list" where
  "stream_symbols local_symbols = sort (remdups (default_top_usdt_symbols @ local_symbols))"

section \<open>Storing candles\<close>

datatype persistence_error = DatabaseFailure tx_error | InvalidTimestamp

definition millis_to_offset :: "(int \<Rightarrow> bool) \<Rightarrow> int \<Rightarrow> persistence_error + int" where
  "millis_to_offset offset_ok ms =
     (let nanos = ms * 1000000
      in if - (2 ^ 127) \<le> nanos \<and> nanos < 2 ^ 127 \<and> offset_ok nanos then Inr nanos else Inl InvalidTimestamp)"

definition kline_intervals :: "string list" where
  "kline_intervals = [''1m'', ''5m'', ''15m'', ''1h'', ''4h'', ''1d'']"

definition kline_checks :: "'d::linordered_field kline_record \<Rightarrow> bool" where
  "kline_checks k \<longleftrightarrow> kl_interval k \<in> set kline_intervals \<and> 0 < kl_open k \<and> 0 < kl_high k \<and> 0 < kl_low k \<and> 0 < kl_close k
     \<and> 0 \<le> kl_volume k \<and> kl_low k \<le> kl_high k"

definition kline_key :: "'d kline_record \<Rightarrow> string \<times> string \<times> int" where
  "kline_key k = (kl_symbol k, kl_interval k, kl_opened_at k)"

definition kline_of :: "'d kline_update \<Rightarrow> int \<Rightarrow> int \<Rightarrow> 'd kline_record" where
  "kline_of u opened_at closed_at =
     \<lparr>kl_symbol = ku_symbol u, kl_interval = ku_interval u, kl_opened_at = opened_at, kl_closed_at = closed_at, kl_open = ku_open u,
      kl_high = ku_high u, kl_low = ku_low u, kl_close = ku_close u, kl_volume = ku_volume u, kl_is_closed = ku_is_closed u\<rparr>"

definition upsert_kline :: "(int \<Rightarrow> bool) \<Rightarrow> 'd::linordered_field kline_update \<Rightarrow> 'd db \<Rightarrow> persistence_error + 'd db" where
  "upsert_kline offset_ok u db =
     (case millis_to_offset offset_ok (ku_open_time_ms u) of
        Inl e \<Rightarrow> Inl e
      | Inr opened_at \<Rightarrow>
          (case millis_to_offset offset_ok (ku_close_time_ms u) of
             Inl e \<Rightarrow> Inl e
           | Inr closed_at \<Rightarrow>
               (let k = kline_of u opened_at closed_at
                in if \<not> kline_checks k then Inl (DatabaseFailure ConstraintViolation)
                   else if list_ex (\<lambda>r. kline_key r = kline_key k) (db_klines db)
                   then Inr (db\<lparr>db_klines := update_rows (\<lambda>r. kline_key r = kline_key k) (\<lambda>_. k) (db_klines db)\<rparr>)
                   else Inr (db\<lparr>db_klines := db_klines db @ [k]\<rparr>))))"

definition load_active_markets :: "'d db \<Rightarrow> string list" where
  "load_active_markets db = sort (map mk_symbol (filter (\<lambda>m. mk_status m = ''trading'') (db_markets db)))"

definition market_maker_user_id :: "'d db \<Rightarrow> persistence_error + uuid" where
  "market_maker_user_id db =
     (case List.find (\<lambda>u. us_email u = ''mm@aether.local'' \<and> us_is_mm u) (db_users db) of
        None \<Rightarrow> Inl (DatabaseFailure RowNotFound) | Some u \<Rightarrow> Inr (us_id u))"

text \<open>The worker ends with the error when a candle is not stored.\<close>

definition handle_event ::
  "(int \<Rightarrow> bool) \<Rightarrow> nat \<Rightarrow> 'd::linordered_field binance_event \<Rightarrow> 'd db \<times> 'd market_maker \<Rightarrow> persistence_error + 'd db \<times> 'd market_maker" where
  "handle_event offset_ok now event = (\<lambda>(db, mm).
     case event of
       BookTickerEvent ticker \<Rightarrow> Inr (db, record_ticker now ticker mm)
     | KlineEvent kline \<Rightarrow> (case upsert_kline offset_ok kline db of Inl e \<Rightarrow> Inl e | Inr db' \<Rightarrow> Inr (db', mm)))"

fun handle_events ::
  "(int \<Rightarrow> bool) \<Rightarrow> (nat \<times> 'd::linordered_field binance_event) list \<Rightarrow> 'd db \<times> 'd market_maker \<Rightarrow> persistence_error + 'd db \<times> 'd market_maker" where
  "handle_events offset_ok [] s = Inr s"
| "handle_events offset_ok ((now, event) # events) s =
     (case handle_event offset_ok now event s of Inl e \<Rightarrow> Inl e | Inr s' \<Rightarrow> handle_events offset_ok events s')"

section \<open>Public queries\<close>

definition day_nanos :: int where
  "day_nanos = 24 * 60 * 60 * 1000000000"

record 'd kline_stats =
  ks_open_24h :: 'd
  ks_high_24h :: 'd
  ks_low_24h :: 'd
  ks_last_price :: 'd
  ks_volume_24h :: 'd

text \<open>The group of one symbol in \<open>stats\<close>: none when no minute candle opened in the last 24 hours.\<close>

definition day_stats :: "int \<Rightarrow> 'd::linordered_field db \<Rightarrow> string \<Rightarrow> 'd kline_stats option" where
  "day_stats now db symbol =
     (let ks = sort_key kl_opened_at
            (filter (\<lambda>k. kl_symbol k = symbol \<and> kl_interval k = ''1m'' \<and> now - day_nanos \<le> kl_opened_at k) (db_klines db))
      in if ks = [] then None
         else Some \<lparr>ks_open_24h = kl_open (hd ks), ks_high_24h = Max (set (map kl_high ks)), ks_low_24h = Min (set (map kl_low ks)),
                    ks_last_price = kl_close (last ks), ks_volume_24h = sum_list (map kl_volume ks)\<rparr>)"

record 'd public_market_row =
  mw_id :: uuid
  mw_symbol :: string
  mw_base_asset_id :: uuid
  mw_quote_asset_id :: uuid
  mw_base_asset_symbol :: string
  mw_quote_asset_symbol :: string
  mw_status :: string
  mw_tick_size :: 'd
  mw_lot_size :: 'd
  mw_min_notional :: 'd
  mw_maker_fee_bps :: 'd
  mw_taker_fee_bps :: 'd
  mw_last_price :: "'d option"
  mw_volume_24h :: "'d option"
  mw_high_24h :: "'d option"
  mw_low_24h :: "'d option"
  mw_price_change_pct :: "'d option"

definition change_pct :: "('d \<Rightarrow> 'd) \<Rightarrow> 'd::linordered_field kline_stats \<Rightarrow> 'd option" where
  "change_pct round4 s =
     (if ks_open_24h s \<noteq> 0 then Some (round4 ((ks_last_price s - ks_open_24h s) / ks_open_24h s * 100)) else None)"

definition market_rows :: "('d \<Rightarrow> 'd) \<Rightarrow> int \<Rightarrow> 'd::linordered_field db \<Rightarrow> 'd public_market_row list" where
  "market_rows round4 now db =
     [let s = day_stats now db (mk_symbol m)
      in \<lparr>mw_id = mk_id m, mw_symbol = mk_symbol m, mw_base_asset_id = mk_base_asset_id m, mw_quote_asset_id = mk_quote_asset_id m,
          mw_base_asset_symbol = at_symbol ba, mw_quote_asset_symbol = at_symbol qa,
          mw_status = mk_status m, mw_tick_size = mk_tick_size m, mw_lot_size = mk_lot_size m, mw_min_notional = mk_min_notional m,
          mw_maker_fee_bps = mk_maker_fee_bps m, mw_taker_fee_bps = mk_taker_fee_bps m, mw_last_price = map_option ks_last_price s,
          mw_volume_24h = map_option ks_volume_24h s, mw_high_24h = map_option ks_high_24h s, mw_low_24h = map_option ks_low_24h s,
          mw_price_change_pct = Option.bind s (change_pct round4)\<rparr>.
      m \<leftarrow> db_markets db, ba \<leftarrow> db_assets db, at_id ba = mk_base_asset_id m, qa \<leftarrow> db_assets db, at_id qa = mk_quote_asset_id m]"

definition list_markets :: "('d \<Rightarrow> 'd) \<Rightarrow> int \<Rightarrow> 'd::linordered_field db \<Rightarrow> 'd public_market_row list" where
  "list_markets round4 now db = sort_key mw_symbol (filter (\<lambda>m. mw_status m \<noteq> ''delisted'') (market_rows round4 now db))"

definition get_market :: "('d \<Rightarrow> 'd) \<Rightarrow> int \<Rightarrow> string \<Rightarrow> 'd::linordered_field db \<Rightarrow> 'd public_market_row option" where
  "get_market round4 now symbol db = List.find (\<lambda>m. mw_symbol m = symbol) (market_rows round4 now db)"

definition klines :: "string \<Rightarrow> string \<Rightarrow> int \<Rightarrow> int \<Rightarrow> nat \<Rightarrow> 'd db \<Rightarrow> 'd kline_record list" where
  "klines symbol interval from to limit db =
     take limit (sort_key kl_opened_at
       (filter (\<lambda>k. kl_symbol k = symbol \<and> kl_interval k = interval \<and> from \<le> kl_opened_at k \<and> kl_opened_at k \<le> to) (db_klines db)))"

definition ticker_snapshots :: "int \<Rightarrow> 'd::linordered_field db \<Rightarrow> (string \<times> 'd kline_stats option) list" where
  "ticker_snapshots now db = map (\<lambda>symbol. (symbol, day_stats now db symbol)) (load_active_markets db)"

section \<open>Endpoints\<close>

record market_response =
  mp_id :: uuid
  mp_symbol :: string
  mp_base_asset :: string
  mp_quote_asset :: string
  mp_status :: string
  mp_tick_size :: string
  mp_lot_size :: string
  mp_min_notional :: string
  mp_maker_fee_bps :: string
  mp_taker_fee_bps :: string
  mp_last_price :: "string option"
  mp_volume_24h :: "string option"
  mp_high_24h :: "string option"
  mp_low_24h :: "string option"
  mp_price_change_pct :: "string option"

definition market_row_to_response :: "('d \<Rightarrow> string) \<Rightarrow> 'd public_market_row \<Rightarrow> market_response" where
  "market_row_to_response to_string row =
     \<lparr>mp_id = mw_id row, mp_symbol = mw_symbol row, mp_base_asset = mw_base_asset_symbol row, mp_quote_asset = mw_quote_asset_symbol row,
      mp_status = mw_status row, mp_tick_size = to_string (mw_tick_size row), mp_lot_size = to_string (mw_lot_size row),
      mp_min_notional = to_string (mw_min_notional row), mp_maker_fee_bps = to_string (mw_maker_fee_bps row),
      mp_taker_fee_bps = to_string (mw_taker_fee_bps row), mp_last_price = map_option to_string (mw_last_price row),
      mp_volume_24h = map_option to_string (mw_volume_24h row), mp_high_24h = map_option to_string (mw_high_24h row),
      mp_low_24h = map_option to_string (mw_low_24h row), mp_price_change_pct = map_option to_string (mw_price_change_pct row)\<rparr>"

definition list_markets_endpoint ::
  "'d::linordered_field api_ports \<Rightarrow> ('d \<Rightarrow> 'd) \<Rightarrow> int \<Rightarrow> 'd db \<Rightarrow> market_response list" where
  "list_markets_endpoint ports round4 now db = map (market_row_to_response (ap_to_string ports)) (list_markets round4 now db)"

definition get_market_endpoint ::
  "'d::linordered_field api_ports \<Rightarrow> ('d \<Rightarrow> 'd) \<Rightarrow> int \<Rightarrow> string \<Rightarrow> 'd db \<Rightarrow> api_error + market_response" where
  "get_market_endpoint ports round4 now symbol db =
     (case get_market round4 now (to_uppercase symbol) db of
        None \<Rightarrow> Inl (api_error_new 404 MarketUnknown ''Market not found'')
      | Some row \<Rightarrow> Inr (market_row_to_response (ap_to_string ports) row))"

definition price_levels :: "('d \<Rightarrow> string) \<Rightarrow> ('d \<times> 'd) list \<Rightarrow> (string \<times> string) list" where
  "price_levels to_string = map (\<lambda>(p, q). (to_string p, to_string q))"

record orderbook_response =
  ob_bids :: "(string \<times> string) list"
  ob_asks :: "(string \<times> string) list"
  ob_seq :: u64

definition get_orderbook :: "'d api_ports \<Rightarrow> uuid \<Rightarrow> string \<Rightarrow> nat \<Rightarrow> api_error + orderbook_response" where
  "get_orderbook ports request_id symbol depth =
     (case client_snapshot (ap_send ports)
             \<lparr>sr_request_id = request_id, sr_symbol = to_uppercase symbol, sr_depth = min 500 (max 1 depth)\<rparr> of
        Inl _ \<Rightarrow> Inl (api_error_new 503 EngineTimeout ''Engine unavailable'')
      | Inr snap \<Rightarrow>
          Inr \<lparr>ob_bids = price_levels (ap_to_string ports) (bs_bids snap), ob_asks = price_levels (ap_to_string ports) (bs_asks snap),
               ob_seq = bs_seq snap\<rparr>)"

record klines_query =
  kq_interval :: "string option"
  kq_from :: "int option"
  kq_to :: "int option"
  kq_limit :: int

record kline_response =
  kx_ts :: int
  kx_open :: string
  kx_high :: string
  kx_low :: string
  kx_close :: string
  kx_volume :: string

definition unix_offset :: "(int \<Rightarrow> bool) \<Rightarrow> int option \<Rightarrow> int option" where
  "unix_offset offset_ok ts = Option.bind ts (\<lambda>s. if offset_ok (s * 1000000000) then Some (s * 1000000000) else None)"

definition unwrap_or :: "'a \<Rightarrow> 'a option \<Rightarrow> 'a" where
  "unwrap_or d x = (case x of None \<Rightarrow> d | Some v \<Rightarrow> v)"

definition clamp_limit :: "int \<Rightarrow> nat" where
  "clamp_limit limit = nat (min 1000 (max 1 limit))"

definition get_klines ::
  "'d::linordered_field api_ports \<Rightarrow> (int \<Rightarrow> bool) \<Rightarrow> int \<Rightarrow> string \<Rightarrow> klines_query \<Rightarrow> 'd db \<Rightarrow> api_error + kline_response list" where
  "get_klines ports offset_ok now symbol q db =
     (let interval = unwrap_or ''1m'' (kq_interval q)
      in if interval \<notin> set kline_intervals then Inl (api_error_new 400 Internal ''Invalid interval; use 1m|5m|15m|1h|4h|1d'')
         else Inr (map (\<lambda>k. \<lparr>kx_ts = kl_opened_at k div 1000000000, kx_open = ap_to_string ports (kl_open k),
                   kx_high = ap_to_string ports (kl_high k), kx_low = ap_to_string ports (kl_low k),
                   kx_close = ap_to_string ports (kl_close k), kx_volume = ap_to_string ports (kl_volume k)\<rparr>)
                (klines (to_uppercase symbol) interval (unwrap_or 0 (unix_offset offset_ok (kq_from q)))
                   (unwrap_or now (unix_offset offset_ok (kq_to q))) (clamp_limit (kq_limit q)) db)))"

section \<open>Candles\<close>

text \<open>The table as a map from symbol, interval and opening time to the candle; the specification of an update is a map update.\<close>

definition klines_ok :: "'d::linordered_field db \<Rightarrow> bool" where
  "klines_ok db \<longleftrightarrow> distinct (map kline_key (db_klines db)) \<and> list_all kline_checks (db_klines db)"

definition candles :: "'d db \<Rightarrow> string \<times> string \<times> int \<rightharpoonup> 'd kline_record" where
  "candles db key = List.find (\<lambda>k. kline_key k = key) (db_klines db)"

definition candle_of :: "'d kline_update \<Rightarrow> 'd kline_record" where
  "candle_of u = kline_of u (ku_open_time_ms u * 1000000) (ku_close_time_ms u * 1000000)"

fun record_candles :: "'d binance_event list \<Rightarrow> (string \<times> string \<times> int \<rightharpoonup> 'd kline_record) \<Rightarrow> string \<times> string \<times> int \<rightharpoonup> 'd kline_record" where
  "record_candles [] m = m"
| "record_candles (BookTickerEvent t # events) m = record_candles events m"
| "record_candles (KlineEvent u # events) m = record_candles events (m(kline_key (candle_of u) \<mapsto> candle_of u))"

lemma replace_rows:
  assumes "kline_key k = c"
  shows "map kline_key (update_rows (\<lambda>r. kline_key r = c) (\<lambda>_. k) rows) = map kline_key rows"
    and "List.find (\<lambda>r. kline_key r = c') (update_rows (\<lambda>r. kline_key r = c) (\<lambda>_. k) rows) =
      (if c' = c then map_option (\<lambda>_. k) (List.find (\<lambda>r. kline_key r = c) rows) else List.find (\<lambda>r. kline_key r = c') rows)"
  using assms by (induction rows) (auto simp: update_rows_def)

lemma find_append: "List.find P (xs @ ys) = (case List.find P xs of None \<Rightarrow> List.find P ys | Some x \<Rightarrow> Some x)"
  by (induction xs) auto

lemma upsert_kline_refines:
  assumes "upsert_kline ok u db = Inr db'" and "klines_ok db"
  shows "klines_ok db'" and "candles db' = (candles db)(kline_key (candle_of u) \<mapsto> candle_of u)"
proof -
  let ?k = "candle_of u"
  from assms(1) have checks: "kline_checks ?k" and db': "db_klines db' =
      (if list_ex (\<lambda>r. kline_key r = kline_key ?k) (db_klines db)
       then update_rows (\<lambda>r. kline_key r = kline_key ?k) (\<lambda>_. ?k) (db_klines db) else db_klines db @ [?k])"
    by (auto simp: upsert_kline_def millis_to_offset_def candle_of_def Let_def split: sum.splits if_splits)
  then show "klines_ok db'" using assms(2)
    by (auto simp: klines_ok_def replace_rows list_all_iff list_ex_iff set_update_rows)
  show "candles db' = (candles db)(kline_key ?k \<mapsto> ?k)"
  proof (cases "List.find (\<lambda>r. kline_key r = kline_key ?k) (db_klines db)")
    case None
    then have "\<not> list_ex (\<lambda>r. kline_key r = kline_key ?k) (db_klines db)" by (auto simp: find_None_iff list_ex_iff)
    with db' None show ?thesis by (auto simp: candles_def fun_eq_iff find_append split: option.splits)
  next
    case (Some r)
    then have "list_ex (\<lambda>r. kline_key r = kline_key ?k) (db_klines db)" by (auto simp: find_Some_iff list_ex_iff)
    with db' Some show ?thesis by (simp add: candles_def fun_eq_iff replace_rows)
  qed
qed

lemma handle_events_refines:
  assumes "handle_events ok events (db, mm) = Inr (db', mm')" and "klines_ok db"
  shows "klines_ok db' \<and> candles db' = record_candles (map snd events) (candles db)"
  using assms
proof (induction events arbitrary: db mm)
  case (Cons e events)
  obtain now ev where e: "e = (now, ev)" by (cases e)
  show ?case
  proof (cases ev)
    case (BookTickerEvent t)
    with Cons e show ?thesis by (simp add: handle_event_def)
  next
    case (KlineEvent u)
    with Cons.prems e obtain db1 where u: "upsert_kline ok u db = Inr db1" and rest: "handle_events ok events (db1, mm) = Inr (db', mm')"
      by (auto simp: handle_event_def split: sum.splits)
    from Cons.IH [OF rest upsert_kline_refines(1) [OF u Cons.prems(2)]] upsert_kline_refines(2) [OF u Cons.prems(2)] KlineEvent e
    show ?thesis by (simp add: fun_upd_def)
  qed
qed simp

lemma take_sorted_prefix:
  assumes "sorted_wrt (\<lambda>x y. f x < f y) ys" and "x \<in> set ys"
  shows "x \<in> set (take n ys) \<or> length (take n ys) = n \<and> (\<forall>y \<in> set (take n ys). f y < f x)"
proof (cases "x \<in> set (take n ys)")
  case False
  with assms(2) have "x \<in> set (drop n ys)" by (metis Un_iff append_take_drop_id set_append)
  moreover from this have "n < length ys" by (metis drop_all equals0D linorder_not_less set_empty)
  moreover have "sorted_wrt (\<lambda>x y. f x < f y) (take n ys @ drop n ys)" using assms(1) by simp
  ultimately show ?thesis by (auto simp: sorted_wrt_append simp del: append_take_drop_id)
qed simp

text \<open>
  C37. Candles show the latest updates: after any stream of events that is stored without error, a query returns the most recent
  update of every opening time in its range, strictly ascending, and leaves a candle out only when the limit is reached by
  earlier ones.
\<close>

theorem candles_show_latest_updates:
  fixes db :: "'d::linordered_field db" and symbol interval :: string and start stop :: int and limit :: nat
  defines "rows \<equiv> klines symbol interval start stop limit :: 'd db \<Rightarrow> 'd kline_record list"
  assumes "handle_events ok events (db, mm) = Inr (db', mm')" and "klines_ok db"
  shows "sorted_wrt (<) (map kl_opened_at (rows db')) \<and> length (rows db') \<le> limit
    \<and> (\<forall>k. k \<in> set (rows db') \<longrightarrow> record_candles (map snd events) (candles db) (symbol, interval, kl_opened_at k) = Some k
          \<and> start \<le> kl_opened_at k \<and> kl_opened_at k \<le> stop)
    \<and> (\<forall>k t. record_candles (map snd events) (candles db) (symbol, interval, t) = Some k \<and> start \<le> t \<and> t \<le> stop \<longrightarrow>
          k \<in> set (rows db') \<or> length (rows db') = limit \<and> (\<forall>k' \<in> set (rows db'). kl_opened_at k' < t))"
proof -
  let ?P = "\<lambda>k. kl_symbol k = symbol \<and> kl_interval k = interval \<and> start \<le> kl_opened_at k \<and> kl_opened_at k \<le> stop"
  let ?ys = "sort_key kl_opened_at (filter ?P (db_klines db'))"
  from handle_events_refines [OF assms(2,3)] have ok: "klines_ok db'"
    and spec: "record_candles (map snd events) (candles db) = candles db'" by simp_all
  then have keys: "distinct (map kline_key (db_klines db'))" by (simp add: klines_ok_def)
  then have "candles db' key = Some k \<longleftrightarrow> k \<in> set (db_klines db') \<and> kline_key k = key" for key k
    by (simp add: candles_def find_key_iff)
  then have mem: "candles db' (symbol, interval, t) = Some k \<longleftrightarrow>
      k \<in> set (db_klines db') \<and> kl_symbol k = symbol \<and> kl_interval k = interval \<and> kl_opened_at k = t" for k t
    by (auto simp: kline_key_def)
  have "distinct (map kl_opened_at (filter ?P (db_klines db')))"
    using keys by (auto simp: distinct_map inj_on_def kline_key_def)
  then have "distinct (map kl_opened_at ?ys)" by (simp add: distinct_map)
  then have sorted: "sorted_wrt (\<lambda>x y. kl_opened_at x < kl_opened_at y) ?ys"
    using sorted_sort_key [of kl_opened_at "filter ?P (db_klines db')"] by (simp only: strict_sorted_iff sorted_wrt_map [symmetric])
  have rows: "rows db' = take limit ?ys" by (simp add: rows_def klines_def)
  show ?thesis unfolding spec rows
    using sorted take_sorted_prefix [OF sorted, of _ limit]
    by (auto simp: mem sorted_wrt_map sorted_wrt_take take_map dest!: in_set_takeD)
qed

section \<open>Sample updates\<close>

definition sample_kline :: "real \<Rightarrow> real kline_update" where
  "sample_kline close = \<lparr>ku_symbol = ''BTCUSDT'', ku_interval = ''1m'', ku_open_time_ms = 60000, ku_close_time_ms = 119999, ku_open = 1,
     ku_high = 2, ku_low = 1, ku_close = close, ku_volume = 5, ku_is_closed = False\<rparr>"

lemma sample_ingest:
  "handle_events (\<lambda>_. True) [(0, KlineEvent (sample_kline 1)), (1, KlineEvent (sample_kline 2))] (sample_db, mm) =
     Inr (sample_db\<lparr>db_klines := [candle_of (sample_kline 2)]\<rparr>, mm)"
  by (simp add: handle_event_def upsert_kline_def millis_to_offset_def kline_checks_def kline_intervals_def kline_of_def candle_of_def
      kline_key_def sample_kline_def sample_db_def update_rows_def)

theorem candles_show_latest_updates_witness:
  "\<exists>db' mm'. handle_events (\<lambda>_. True) [(0, KlineEvent (sample_kline 1)), (1, KlineEvent (sample_kline 2))]
       (sample_db, market_maker_new 9 10 []) = Inr (db', mm')
     \<and> candle_of (sample_kline 2) \<in> set (klines ''BTCUSDT'' ''1m'' 0 100000000000 10 db')"
proof -
  let ?db = "sample_db\<lparr>db_klines := [candle_of (sample_kline 2)]\<rparr>" and ?k = "candle_of (sample_kline 2)"
  have ok: "klines_ok sample_db" by (simp add: klines_ok_def sample_db_def)
  have "record_candles [KlineEvent (sample_kline 1), KlineEvent (sample_kline 2)] (candles sample_db) (''BTCUSDT'', ''1m'', 60000000000) = Some ?k"
    by (simp add: kline_key_def candle_of_def kline_of_def sample_kline_def)
  moreover have "length (klines ''BTCUSDT'' ''1m'' 0 100000000000 10 ?db) \<noteq> 10" by (simp add: klines_def)
  ultimately have "?k \<in> set (klines ''BTCUSDT'' ''1m'' 0 100000000000 10 ?db)"
    using candles_show_latest_updates [OF sample_ingest ok, of "''BTCUSDT''" "''1m''" 0 100000000000 10] by fastforce
  with sample_ingest show ?thesis by blast
qed

end
