(* ===== verification/Ws_Hub.thy ===== *)
theory Ws_Hub
  imports Market_Data
begin

text \<open>
  The WebSocket side of the API: channel names (\<open>services/api/src/ws/channels.rs\<close>), the hub that fans engine events out to
  subscribers (\<open>ws/hub.rs\<close>) and the connection task (\<open>handlers/ws.rs\<close>). A frame is the JSON value it serialises. A broadcast
  channel is the list of all frames sent on it, a receiver the index of its next frame; a receiver that lags may skip any
  number of frames, which covers every capacity of the channel.
\<close>

section \<open>Frames and channels\<close>

datatype json_value =
  JsNull | JsNat nat | JsStr string | JsArr "json_value list" | JsObj "(string \<times> json_value) list"

definition js_option :: "string option \<Rightarrow> json_value" where
  "js_option s = (case s of None \<Rightarrow> JsNull | Some t \<Rightarrow> JsStr t)"

record 'd ws_ports =
  wp_decimal :: "'d \<Rightarrow> string"
  wp_uuid :: "uuid \<Rightarrow> string"
  wp_side :: "order_side \<Rightarrow> string"
  wp_reason :: "wire_cancel_reason \<Rightarrow> string"
  wp_round4 :: "'d \<Rightarrow> 'd"

definition book_diff :: "string \<Rightarrow> string" where
  "book_diff symbol = ''book.'' @ symbol @ ''.diff''"

definition trade_channel :: "string \<Rightarrow> string" where
  "trade_channel symbol = ''trade.'' @ symbol"

definition ticker_channel :: "string \<Rightarrow> string" where
  "ticker_channel symbol = ''ticker.'' @ symbol"

definition TICKER_ALL :: string where "TICKER_ALL = ''ticker.all''"

definition USER_ORDERS :: string where "USER_ORDERS = ''user.orders''"

definition USER_FILLS :: string where "USER_FILLS = ''user.fills''"

definition USER_BALANCES :: string where "USER_BALANCES = ''user.balances''"

section \<open>Hub\<close>

record hub =
  hb_senders :: "string \<rightharpoonup> json_value list"
  hb_replay :: "string \<rightharpoonup> (int \<times> json_value) list"

definition hub_new :: hub where
  "hub_new = \<lparr>hb_senders = Map.empty, hb_replay = Map.empty\<rparr>"

definition REPLAY_WINDOW :: int where
  "REPLAY_WINDOW = 60 * 1000000000"

definition hub_subscribe :: "string \<Rightarrow> hub \<Rightarrow> hub \<times> (string \<times> nat)" where
  "hub_subscribe channel hub =
     (case hb_senders hub channel of
        None \<Rightarrow> (hub\<lparr>hb_senders := (hb_senders hub)(channel \<mapsto> [])\<rparr>, (channel, 0))
      | Some sent \<Rightarrow> (hub, (channel, length sent)))"

definition publish :: "string \<Rightarrow> json_value \<Rightarrow> hub \<Rightarrow> hub" where
  "publish channel frame hub =
     (case hb_senders hub channel of
        None \<Rightarrow> hub
      | Some sent \<Rightarrow> hub\<lparr>hb_senders := (hb_senders hub)(channel \<mapsto> sent @ [frame])\<rparr>)"

definition in_replay_window :: "int \<Rightarrow> int \<times> json_value \<Rightarrow> bool" where
  "in_replay_window now entry \<longleftrightarrow> max 0 (now - fst entry) < REPLAY_WINDOW"

definition publish_with_replay :: "int \<Rightarrow> string \<Rightarrow> json_value \<Rightarrow> hub \<Rightarrow> hub" where
  "publish_with_replay now channel frame hub =
     (let hub1 = publish channel frame hub;
          entry = unwrap_or [] (hb_replay hub1 channel)
      in hub1\<lparr>hb_replay := (hb_replay hub1)(channel \<mapsto> filter (in_replay_window now) entry @ [(now, frame)])\<rparr>)"

definition replay_diffs :: "int \<Rightarrow> string \<Rightarrow> u64 \<Rightarrow> hub \<Rightarrow> json_value list option" where
  "replay_diffs now symbol after_seq hub =
     (case hb_replay hub (book_diff symbol) of
        None \<Rightarrow> None
      | Some entry \<Rightarrow>
          (let recent = map snd (filter (in_replay_window now) entry)
           in if length recent < unat after_seq then None else Some recent))"

definition channel_frame :: "string \<Rightarrow> u64 \<Rightarrow> (string \<times> json_value) list \<Rightarrow> json_value" where
  "channel_frame channel seq data = JsObj [(''channel'', JsStr channel), (''seq'', JsNat (unat seq)), (''data'', JsObj data)]"

definition js_levels :: "'d ws_ports \<Rightarrow> ('d \<times> 'd) list \<Rightarrow> json_value" where
  "js_levels ports levels = JsArr (map (\<lambda>(p, q). JsArr [JsStr p, JsStr q]) (price_levels (wp_decimal ports) levels))"

definition on_book_delta :: "'d ws_ports \<Rightarrow> int \<Rightarrow> 'd book_delta_event \<Rightarrow> u64 \<Rightarrow> hub \<Rightarrow> hub" where
  "on_book_delta ports now delta seq =
     (let channel = book_diff (bd_symbol delta)
      in publish_with_replay now channel
           (channel_frame channel seq
              [(''bids'', js_levels ports (bd_bids delta)), (''asks'', js_levels ports (bd_asks delta)), (''seq'', JsNat (unat seq))]))"

definition on_fill :: "'d ws_ports \<Rightarrow> 'd trade_fill \<Rightarrow> u64 \<Rightarrow> hub \<Rightarrow> hub" where
  "on_fill ports fill seq hub =
     (let channel = trade_channel (tf_symbol fill);
          frame = channel_frame channel seq
            [(''id'', JsStr (wp_uuid ports (tf_trade_id fill))), (''price'', JsStr (wp_decimal ports (tf_price fill))),
             (''qty'', JsStr (wp_decimal ports (tf_quantity fill))), (''side'', JsStr (wp_side ports (tf_taker_side fill))),
             (''ts'', JsStr (tf_ts fill))];
          user_fill_frame = channel_frame USER_FILLS seq
            [(''tradeId'', JsStr (wp_uuid ports (tf_trade_id fill))), (''symbol'', JsStr (tf_symbol fill)),
             (''takerOrderId'', JsStr (wp_uuid ports (tf_taker_order_id fill))),
             (''makerOrderId'', JsStr (wp_uuid ports (tf_maker_order_id fill))), (''price'', JsStr (wp_decimal ports (tf_price fill))),
             (''qty'', JsStr (wp_decimal ports (tf_quantity fill))), (''takerSide'', JsStr (wp_side ports (tf_taker_side fill))),
             (''ts'', JsStr (tf_ts fill))]
      in publish USER_FILLS user_fill_frame (publish channel frame hub))"

definition on_order_accepted_event :: "'d ws_ports \<Rightarrow> 'd order_accepted_event \<Rightarrow> u64 \<Rightarrow> hub \<Rightarrow> hub" where
  "on_order_accepted_event ports event seq =
     publish USER_ORDERS (channel_frame USER_ORDERS seq
       [(''orderId'', JsStr (wp_uuid ports (eo_id (oa_order event)))), (''status'', JsStr ''new'')])"

definition on_order_canceled_event :: "'d ws_ports \<Rightarrow> order_canceled_event \<Rightarrow> u64 \<Rightarrow> hub \<Rightarrow> hub" where
  "on_order_canceled_event ports event seq =
     publish USER_ORDERS (channel_frame USER_ORDERS seq
       [(''orderId'', JsStr (wp_uuid ports (oc_order_id event))), (''status'', JsStr ''canceled''),
        (''reason'', JsStr (wp_reason ports (oc_reason event)))])"

definition dispatch :: "'d ws_ports \<Rightarrow> int \<Rightarrow> 'd sequenced_engine_event \<Rightarrow> hub \<Rightarrow> hub" where
  "dispatch ports now seq_event =
     (let seq = se_seq seq_event
      in case se_event seq_event of
           BookDelta delta \<Rightarrow> on_book_delta ports now delta seq
         | FillEvent fill \<Rightarrow> on_fill ports fill seq
         | OrderAccepted e \<Rightarrow> on_order_accepted_event ports e seq
         | OrderCanceled e \<Rightarrow> on_order_canceled_event ports e seq
         | OrderRested _ \<Rightarrow> id
         | MarketStatus _ \<Rightarrow> id)"

definition publish_balance_update :: "'d ws_ports \<Rightarrow> uuid \<Rightarrow> string \<Rightarrow> string \<Rightarrow> string \<Rightarrow> u64 \<Rightarrow> hub \<Rightarrow> hub" where
  "publish_balance_update ports user_id asset avail_text locked_text seq =
     publish USER_BALANCES (channel_frame USER_BALANCES seq
       [(''userId'', JsStr (wp_uuid ports user_id)), (''asset'', JsStr asset), (''available'', JsStr avail_text), (''locked'', JsStr locked_text)])"

definition ticker_item :: "'d::linordered_field ws_ports \<Rightarrow> string \<times> 'd kline_stats option \<Rightarrow> json_value" where
  "ticker_item ports = (\<lambda>(symbol, s).
     JsObj [(''symbol'', JsStr symbol),
            (''lastPrice'', js_option (map_option (wp_decimal ports \<circ> ks_last_price) s)),
            (''open24h'', js_option (map_option (wp_decimal ports \<circ> ks_open_24h) s)),
            (''high24h'', js_option (map_option (wp_decimal ports \<circ> ks_high_24h) s)),
            (''low24h'', js_option (map_option (wp_decimal ports \<circ> ks_low_24h) s)),
            (''volume24h'', js_option (map_option (wp_decimal ports \<circ> ks_volume_24h) s)),
            (''priceChangePct'', js_option (map_option (wp_decimal ports) (Option.bind s (change_pct (wp_round4 ports)))))])"

definition ticker_frame :: "string \<Rightarrow> json_value \<Rightarrow> json_value" where
  "ticker_frame channel data = JsObj [(''channel'', JsStr channel), (''data'', data)]"

definition publish_ticker :: "'d::linordered_field ws_ports \<Rightarrow> (string \<times> 'd kline_stats option) list \<Rightarrow> hub \<Rightarrow> hub" where
  "publish_ticker ports snapshots hub =
     (let hub1 = fold (\<lambda>snap. publish (ticker_channel (fst snap)) (ticker_frame (ticker_channel (fst snap)) (ticker_item ports snap)))
            snapshots hub
      in if snapshots = [] then hub1
         else publish TICKER_ALL (ticker_frame TICKER_ALL (JsArr (map (ticker_item ports) snapshots))) hub1)"

text \<open>The hub between two points of a connection: engine events, tickers, balance updates and subscriptions of other connections.\<close>

inductive hub_step :: "'d::linordered_field ws_ports \<Rightarrow> hub \<Rightarrow> hub \<Rightarrow> bool" for ports where
  event: "hub_step ports h (dispatch ports now ev h)"
| ticker: "hub_step ports h (publish_ticker ports snapshots h)"
| balance: "hub_step ports h (publish_balance_update ports u asset avail_text locked_text seq h)"
| join: "hub_step ports h (fst (hub_subscribe channel h))"

section \<open>Connection\<close>

definition HEARTBEAT_INTERVAL :: int where "HEARTBEAT_INTERVAL = 20 * 1000000000"

definition PONG_DEADLINE :: int where "PONG_DEADLINE = 30 * 1000000000"

definition error_frame :: "(string \<times> json_value) list \<Rightarrow> string \<Rightarrow> string \<Rightarrow> json_value" where
  "error_frame head code message = JsObj (head @ [(''error'', JsObj [(''code'', JsStr code), (''message'', JsStr message)])])"

definition LAG_FRAME :: json_value where
  "LAG_FRAME = error_frame [] ''GAP_TOO_LARGE'' ''Client lagged; please resync''"

text \<open>
  \<open>cn_out\<close> holds every frame put into the outbound queue so far; a forwarder is its receiver; \<open>cn_heartbeat\<close> is the time of
  the next tick of the heartbeat.
\<close>

record connection =
  cn_user_id :: "uuid option"
  cn_subscriptions :: "string set"
  cn_forwarders :: "(string \<times> nat) list"
  cn_out :: "json_value list"
  cn_awaiting_pong :: bool
  cn_heartbeat :: int
  cn_open :: bool

definition ws_handler :: "key_ports \<Rightarrow> token_config \<Rightarrow> string option \<Rightarrow> uuid option" where
  "ws_handler ports cfg token =
     Option.bind token (\<lambda>t. case kp_decode_access ports (tc_jwt_secret cfg) t of Inl _ \<Rightarrow> None | Inr claims \<Rightarrow> Some (ac_sub claims))"

text \<open>\<open>tokio::time::interval\<close> is the parameter \<open>first_tick\<close>: the time of the first tick of an interval made at a given time.\<close>

definition connection_new :: "(int \<Rightarrow> int \<Rightarrow> int) \<Rightarrow> int \<Rightarrow> uuid option \<Rightarrow> connection" where
  "connection_new first_tick now user_id =
     \<lparr>cn_user_id = user_id, cn_subscriptions = {}, cn_forwarders = [], cn_out = [], cn_awaiting_pong = False,
      cn_heartbeat = first_tick HEARTBEAT_INTERVAL now, cn_open = True\<rparr>"

definition heartbeat_tick :: "(int \<Rightarrow> int \<Rightarrow> int) \<Rightarrow> int \<Rightarrow> connection \<Rightarrow> connection" where
  "heartbeat_tick first_tick now c =
     (if cn_awaiting_pong c then c\<lparr>cn_open := False\<rparr>
      else c\<lparr>cn_awaiting_pong := True, cn_heartbeat := first_tick PONG_DEADLINE now\<rparr>)"

definition send_out :: "json_value \<Rightarrow> connection \<Rightarrow> connection" where
  "send_out frame c = c\<lparr>cn_out := cn_out c @ [frame]\<rparr>"

text \<open>A forwarder passes its next frame on; when it has fallen behind it reports the lag and goes on at a later frame.\<close>

definition forward :: "nat \<Rightarrow> hub \<Rightarrow> connection \<Rightarrow> connection option" where
  "forward i hub c =
     (if i < length (cn_forwarders c) then
        (case cn_forwarders c ! i of (channel, n) \<Rightarrow>
           (case hb_senders hub channel of
              None \<Rightarrow> None
            | Some sent \<Rightarrow>
                if n < length sent then Some (send_out (sent ! n) (c\<lparr>cn_forwarders := (cn_forwarders c)[i := (channel, Suc n)]\<rparr>)) else None))
      else None)"

definition forward_lagged :: "nat \<Rightarrow> nat \<Rightarrow> hub \<Rightarrow> connection \<Rightarrow> connection option" where
  "forward_lagged i m hub c =
     (if i < length (cn_forwarders c) then
        (case cn_forwarders c ! i of (channel, n) \<Rightarrow>
           (case hb_senders hub channel of
              None \<Rightarrow> None
            | Some sent \<Rightarrow>
                if n < m \<and> m \<le> length sent then Some (send_out LAG_FRAME (c\<lparr>cn_forwarders := (cn_forwarders c)[i := (channel, m)]\<rparr>)) else None))
      else None)"

section \<open>Client messages\<close>

record client_params =
  cp_channels :: "string list option"
  cp_after_seq :: "u64 option"

record client_message =
  cm_id :: "string option"
  cm_method :: string
  cm_params :: "client_params option"

definition server_ack :: "string option \<Rightarrow> (string \<times> json_value) list \<Rightarrow> json_value" where
  "server_ack i result = JsObj [(''id'', js_option i), (''result'', JsObj result)]"

definition ws_error :: "string option \<Rightarrow> string \<Rightarrow> string \<Rightarrow> json_value" where
  "ws_error i code message = error_frame [(''id'', js_option i)] code message"

definition is_private_channel :: "string \<Rightarrow> bool" where
  "is_private_channel channel \<longleftrightarrow> channel \<in> {USER_ORDERS, USER_FILLS, USER_BALANCES}"

definition strip_suffix :: "string \<Rightarrow> string \<Rightarrow> string option" where
  "strip_suffix suffix s =
     (if length suffix \<le> length s \<and> drop (length s - length suffix) s = suffix then Some (take (length s - length suffix) s) else None)"

definition book_diff_symbol :: "string \<Rightarrow> string option" where
  "book_diff_symbol channel = Option.bind (strip_prefix ''book.'' channel) (strip_suffix ''.diff'')"

text \<open>
  Waiting for the engine's snapshot lets the hub run on: the parameter \<open>engine\<close> gives the hub after the wait and the answer.
\<close>

type_synonym 'd snapshot_port = "snapshot_request \<Rightarrow> hub \<Rightarrow> hub \<times> (engine_client_error + 'd book_snapshot)"

definition snapshot_frame :: "'d ws_ports \<Rightarrow> string \<Rightarrow> 'd book_snapshot \<Rightarrow> json_value" where
  "snapshot_frame ports symbol snap =
     channel_frame (''book.'' @ symbol @ ''.snapshot'') (bs_seq snap)
       [(''bids'', js_levels ports (bs_bids snap)), (''asks'', js_levels ports (bs_asks snap)), (''seq'', JsNat (unat (bs_seq snap)))]"

definition send_full_snapshot :: "'d ws_ports \<Rightarrow> 'd snapshot_port \<Rightarrow> uuid \<Rightarrow> string \<Rightarrow> hub \<times> connection \<Rightarrow> hub \<times> connection" where
  "send_full_snapshot ports engine request_id symbol = (\<lambda>(hub, c).
     case engine \<lparr>sr_request_id = request_id, sr_symbol = to_uppercase symbol, sr_depth = 100\<rparr> hub of
       (hub', Inl _) \<Rightarrow> (hub', c)
     | (hub', Inr snap) \<Rightarrow> (hub', send_out (snapshot_frame ports symbol snap) c))"

definition send_book_snapshot ::
  "'d ws_ports \<Rightarrow> 'd snapshot_port \<Rightarrow> int \<Rightarrow> uuid \<Rightarrow> string \<Rightarrow> u64 option \<Rightarrow> hub \<times> connection \<Rightarrow> hub \<times> connection" where
  "send_book_snapshot ports engine now request_id symbol after_seq = (\<lambda>(hub, c).
     case after_seq of
       None \<Rightarrow> send_full_snapshot ports engine request_id symbol (hub, c)
     | Some seq \<Rightarrow>
         (case replay_diffs now symbol seq hub of
            Some frames \<Rightarrow> (hub, fold send_out frames c)
          | None \<Rightarrow> send_full_snapshot ports engine request_id symbol
                      (hub, send_out (error_frame [] ''GAP_TOO_LARGE'' ''Gap too large; sending full snapshot'') c)))"

definition join_channel :: "string \<Rightarrow> hub \<times> connection \<Rightarrow> hub \<times> connection" where
  "join_channel channel = (\<lambda>(hub, c).
     case hub_subscribe channel hub of
       (hub', rx) \<Rightarrow> (hub', c\<lparr>cn_forwarders := cn_forwarders c @ [rx], cn_subscriptions := insert channel (cn_subscriptions c)\<rparr>))"

fun subscribe_channels ::
  "'d ws_ports \<Rightarrow> 'd snapshot_port \<Rightarrow> int \<Rightarrow> uuid \<Rightarrow> string option \<Rightarrow> u64 option \<Rightarrow> string list \<Rightarrow> hub \<times> connection \<Rightarrow> string list \<Rightarrow>
     (hub \<times> connection) \<times> string list" where
  "subscribe_channels ports engine now request_id i after_seq [] s subscribed = (s, subscribed)"
| "subscribe_channels ports engine now request_id i after_seq (channel # channels) (hub, c) subscribed =
     (if is_private_channel channel \<and> cn_user_id c = None
      then subscribe_channels ports engine now request_id i after_seq channels
             (hub, send_out (ws_error i ''FORBIDDEN'' ''Token required for private channels'') c) subscribed
      else if channel \<in> cn_subscriptions c
      then subscribe_channels ports engine now request_id i after_seq channels (hub, c) (subscribed @ [channel])
      else
        (let s1 = (case book_diff_symbol channel of
                     None \<Rightarrow> (hub, c)
                   | Some symbol \<Rightarrow> send_book_snapshot ports engine now request_id symbol after_seq (hub, c))
         in subscribe_channels ports engine now request_id i after_seq channels (join_channel channel s1) (subscribed @ [channel])))"

definition requested_channels :: "client_message \<Rightarrow> string list" where
  "requested_channels msg = unwrap_or [] (Option.bind (cm_params msg) cp_channels)"

definition handle_client_message ::
  "'d ws_ports \<Rightarrow> 'd snapshot_port \<Rightarrow> int \<Rightarrow> uuid \<Rightarrow> client_message option \<Rightarrow> hub \<times> connection \<Rightarrow> hub \<times> connection" where
  "handle_client_message ports engine now request_id raw = (\<lambda>(hub, c).
     case raw of
       None \<Rightarrow> (hub, send_out (ws_error None ''INVALID_MESSAGE'' ''Invalid JSON message'') c)
     | Some msg \<Rightarrow>
         if cm_method msg = ''ping'' then (hub, send_out (server_ack (cm_id msg) [(''ts'', JsNat (nat (now div 1000000)))]) c)
         else if cm_method msg = ''subscribe'' then
           (case subscribe_channels ports engine now request_id (cm_id msg) (Option.bind (cm_params msg) cp_after_seq)
                   (requested_channels msg) (hub, c) [] of
              ((hub', c'), subscribed) \<Rightarrow> (hub', send_out (server_ack (cm_id msg) [(''channels'', JsArr (map JsStr subscribed))]) c'))
         else if cm_method msg = ''unsubscribe'' then
           (hub, send_out (server_ack (cm_id msg) [(''channels'', JsArr (map JsStr (requested_channels msg)))])
                   (c\<lparr>cn_subscriptions := cn_subscriptions c - set (requested_channels msg)\<rparr>))
         else (hub, send_out (ws_error (cm_id msg) ''UNKNOWN_METHOD'' (''Unknown method: '' @ cm_method msg)) c))"

text \<open>One connection beside the hub.\<close>

inductive ws_step :: "(int \<Rightarrow> int \<Rightarrow> int) \<Rightarrow> 'd::linordered_field ws_ports \<Rightarrow> hub \<times> connection \<Rightarrow> hub \<times> connection \<Rightarrow> bool"
  for first_tick ports where
  hub: "hub_step ports h h' \<Longrightarrow> ws_step first_tick ports (h, c) (h', c)"
| message: "cn_open c \<Longrightarrow> (\<forall>req h. (hub_step ports)\<^sup>*\<^sup>* h (fst (engine req h))) \<Longrightarrow>
    ws_step first_tick ports (h, c) (handle_client_message ports engine now request_id raw (h, c))"
| forwards: "cn_open c \<Longrightarrow> forward i h c = Some c' \<Longrightarrow> ws_step first_tick ports (h, c) (h, c')"
| lags: "cn_open c \<Longrightarrow> forward_lagged i m h c = Some c' \<Longrightarrow> ws_step first_tick ports (h, c) (h, c')"
| pong: "cn_open c \<Longrightarrow> ws_step first_tick ports (h, c) (h, c\<lparr>cn_awaiting_pong := False\<rparr>)"
| heartbeat: "cn_open c \<Longrightarrow> cn_heartbeat c \<le> now \<Longrightarrow> ws_step first_tick ports (h, c) (h, heartbeat_tick first_tick now c)"
| closes: "cn_open c \<Longrightarrow> ws_step first_tick ports (h, c) (h, c\<lparr>cn_open := False\<rparr>)"

section \<open>Frames carry their channel\<close>

fun frame_channel :: "json_value \<Rightarrow> string option" where
  "frame_channel (JsObj entries) = (case map_of entries ''channel'' of Some (JsStr channel) \<Rightarrow> Some channel | _ \<Rightarrow> None)"
| "frame_channel _ = None"

lemma frame_channel_simps [simp]:
  "frame_channel (channel_frame channel seq data) = Some channel" "frame_channel (ticker_frame channel d) = Some channel"
  "frame_channel (server_ack i result) = None" "frame_channel (ws_error i code message) = None"
  "frame_channel (error_frame [] code message) = None" "frame_channel LAG_FRAME = None"
  "frame_channel (snapshot_frame ports symbol snap) = Some (''book.'' @ symbol @ ''.snapshot'')"
  by (simp_all add: channel_frame_def ticker_frame_def server_ack_def ws_error_def error_frame_def LAG_FRAME_def snapshot_frame_def)

definition labelled :: "hub \<Rightarrow> bool" where
  "labelled h \<longleftrightarrow>
     (\<forall>channel sent. hb_senders h channel = Some sent \<longrightarrow> (\<forall>f \<in> set sent. frame_channel f = Some channel)) \<and>
     (\<forall>channel es. hb_replay h channel = Some es \<longrightarrow> (\<forall>e \<in> set es. frame_channel (snd e) = Some channel))"

lemma labelledD:
  "labelled h \<Longrightarrow> hb_senders h channel = Some sent \<Longrightarrow> f \<in> set sent \<Longrightarrow> frame_channel f = Some channel"
  "labelled h \<Longrightarrow> hb_replay h channel = Some es \<Longrightarrow> (t, f) \<in> set es \<Longrightarrow> frame_channel f = Some channel"
  by (auto simp: labelled_def) (metis snd_conv)

lemma labelled_publish [intro!]: "labelled h \<Longrightarrow> frame_channel f = Some channel \<Longrightarrow> labelled (publish channel f h)"
  by (auto simp: labelled_def publish_def split: option.splits if_splits)

lemma labelled_replay [intro!]:
  assumes "labelled h" and "frame_channel f = Some channel"
  shows "labelled (publish_with_replay now channel f h)"
proof -
  have "labelled (publish channel f h)" using assms by blast
  from labelledD [OF this] assms(2) show ?thesis unfolding labelled_def publish_with_replay_def unwrap_or_def Let_def
    by (auto split: option.splits if_splits) metis
qed

lemma labelled_fold: "labelled h \<Longrightarrow> labelled (fold (\<lambda>x. publish (ch x) (ticker_frame (ch x) (fr x))) xs h)"
  by (induction xs arbitrary: h) (auto simp: labelled_publish)

lemma labelled_subscribe [intro!]: "labelled h \<Longrightarrow> labelled (fst (hub_subscribe channel h))"
  by (auto simp: labelled_def hub_subscribe_def split: option.splits if_splits)

lemma hub_step_labelled: "hub_step ports h h' \<Longrightarrow> labelled h \<Longrightarrow> labelled h'"
  by (induction rule: hub_step.induct)
    (auto simp: dispatch_def on_book_delta_def on_fill_def on_order_accepted_event_def on_order_canceled_event_def publish_ticker_def
      publish_balance_update_def Let_def labelled_fold split: engine_event.splits)

lemma hub_run_labelled: "(hub_step ports)\<^sup>*\<^sup>* h h' \<Longrightarrow> labelled h \<Longrightarrow> labelled h'"
  by (induction rule: rtranclp_induct) (auto intro: hub_step_labelled)

lemma labelled_new [simp]: "labelled hub_new"
  by (simp add: labelled_def hub_new_def)

section \<open>What a client message does\<close>

text \<open>
  One induction over the channels of a subscription serves every invariant of the pair of hub and connection: it has to be kept by
  the hub running on, by sending frames that are not broadcast, by replayed frames and by joining a channel the caller may join.
\<close>

lemma fold_send_out [simp]: "fold send_out frames c = c\<lparr>cn_out := cn_out c @ frames\<rparr>"
  by (induction frames arbitrary: c) (simp_all add: send_out_def)

lemma replay_diffs_mem:
  "replay_diffs now symbol seq h = Some frames \<Longrightarrow> labelled h \<Longrightarrow> f \<in> set frames \<Longrightarrow> frame_channel f = Some (book_diff symbol)"
  by (auto simp: replay_diffs_def Let_def labelledD split: option.splits if_splits)

locale connection_invariant =
  fixes inv :: "hub \<Rightarrow> connection \<Rightarrow> bool" and ports :: "'d::linordered_field ws_ports"
  assumes runs: "inv h c \<Longrightarrow> labelled h \<Longrightarrow> hub_step ports h h' \<Longrightarrow> inv h' c"
    and sends: "inv h c \<Longrightarrow> labelled h \<Longrightarrow> frame_channel f = None \<or> frame_channel f = Some (''book.'' @ s) \<Longrightarrow> inv h (send_out f c)"
    and joins: "inv h c \<Longrightarrow> labelled h \<Longrightarrow> is_private_channel channel \<longrightarrow> cn_user_id c \<noteq> None \<Longrightarrow>
      inv (fst (join_channel channel (h, c))) (snd (join_channel channel (h, c)))"
    and leaves: "inv h c \<Longrightarrow> inv h (c\<lparr>cn_subscriptions := S\<rparr>)"
    and passes: "inv h c \<Longrightarrow> labelled h \<Longrightarrow> forward i h c = Some c' \<Longrightarrow> inv h c'"
    and skips: "inv h c \<Longrightarrow> labelled h \<Longrightarrow> forward_lagged i m h c = Some c' \<Longrightarrow> inv h c'"
    and timers: "inv h c \<Longrightarrow> inv h (c\<lparr>cn_awaiting_pong := p, cn_heartbeat := t, cn_open := w\<rparr>)"
begin

lemma runs_on: "(hub_step ports)\<^sup>*\<^sup>* h h' \<Longrightarrow> labelled h \<Longrightarrow> inv h c \<Longrightarrow> labelled h' \<and> inv h' c"
  by (induction rule: rtranclp_induct) (auto intro: runs hub_step_labelled)

lemma sends_all: "inv h c \<Longrightarrow> labelled h \<Longrightarrow> (\<And>f. f \<in> set fs \<Longrightarrow> frame_channel f = Some (''book.'' @ s)) \<Longrightarrow> inv h (fold send_out fs c)"
proof (induction fs arbitrary: c)
  case (Cons f fs)
  from Cons.prems have "inv h (send_out f c)" by (intro sends [where s = s]) auto
  with Cons show ?case by (simp del: fold_send_out)
qed simp

lemma full_snapshot:
  assumes "inv h c" and "labelled h" and "\<And>req h. (hub_step ports)\<^sup>*\<^sup>* h (fst (engine req h))"
    and "send_full_snapshot ports engine rid symbol (h, c) = (h', c')"
  shows "labelled h' \<and> inv h' c' \<and> cn_user_id c' = cn_user_id c"
proof -
  obtain h1 r where e: "engine \<lparr>sr_request_id = rid, sr_symbol = to_uppercase symbol, sr_depth = 100\<rparr> h = (h1, r)" by fastforce
  then have "(hub_step ports)\<^sup>*\<^sup>* h h1" using assms(3) by (metis fst_conv)
  then have h1: "labelled h1 \<and> inv h1 c" using runs_on assms(1,2) by blast
  then have "inv h1 (send_out (snapshot_frame ports symbol snap) c)" for snap
    by (intro sends [where s = "symbol @ ''.snapshot''"]) auto
  with h1 e assms(4) show ?thesis by (auto simp: send_full_snapshot_def send_out_def split: sum.splits)
qed

lemma book_snapshot:
  assumes "inv h c" and "labelled h" and "\<And>req h. (hub_step ports)\<^sup>*\<^sup>* h (fst (engine req h))"
    and "send_book_snapshot ports engine now rid symbol after_seq (h, c) = (h', c')"
  shows "labelled h' \<and> inv h' c' \<and> cn_user_id c' = cn_user_id c"
proof (cases after_seq)
  case None
  with full_snapshot [OF assms(1-3)] assms(4) show ?thesis by (simp add: send_book_snapshot_def)
next
  case (Some seq)
  show ?thesis
  proof (cases "replay_diffs now symbol seq h")
    case None
    let ?c = "send_out (error_frame [] ''GAP_TOO_LARGE'' ''Gap too large; sending full snapshot'') c"
    have "inv h ?c" using assms(1,2) by (intro sends) auto
    from full_snapshot [OF this assms(2,3)] None Some assms(4) show ?thesis by (simp add: send_book_snapshot_def send_out_def)
  next
    case replay: (Some frames)
    have "inv h (fold send_out frames c)"
      using replay_diffs_mem [OF replay assms(2)] assms(1,2) by (intro sends_all [where s = "symbol @ ''.diff''"]) (auto simp: book_diff_def)
    with replay Some assms show ?thesis by (auto simp: send_book_snapshot_def)
  qed
qed

lemma joins_channel:
  assumes "inv h c" and "labelled h" and "is_private_channel channel \<longrightarrow> cn_user_id c \<noteq> None" and "join_channel channel (h, c) = (h', c')"
  shows "labelled h' \<and> inv h' c' \<and> cn_user_id c' = cn_user_id c"
  using joins [OF assms(1-3)] labelled_subscribe [OF assms(2), of channel] assms(4)
  by (auto simp: join_channel_def split: prod.splits)

lemma subscribes:
  assumes "\<And>req h. (hub_step ports)\<^sup>*\<^sup>* h (fst (engine req h))"
  shows "inv h c \<Longrightarrow> labelled h \<Longrightarrow> subscribe_channels ports engine now rid i after_seq channels (h, c) subscribed = ((h', c'), subscribed') \<Longrightarrow>
    labelled h' \<and> inv h' c' \<and> cn_user_id c' = cn_user_id c"
proof (induction channels arbitrary: h c subscribed)
  case (Cons channel channels)
  consider (refused) "is_private_channel channel \<and> cn_user_id c = None"
    | (known) "\<not> (is_private_channel channel \<and> cn_user_id c = None)" "channel \<in> cn_subscriptions c"
    | (joins) "\<not> (is_private_channel channel \<and> cn_user_id c = None)" "channel \<notin> cn_subscriptions c" by blast
  then show ?case
  proof cases
    case refused
    let ?c = "send_out (ws_error i ''FORBIDDEN'' ''Token required for private channels'') c"
    have "inv h ?c" using Cons.prems(1,2) by (intro sends) auto
    from Cons.IH [OF this Cons.prems(2)] Cons.prems(3) refused show ?thesis by (simp add: send_out_def)
  next
    case known
    with Cons.IH [OF Cons.prems(1,2)] Cons.prems(3) show ?thesis by simp
  next
    case joins
    define s1 where "s1 = (case book_diff_symbol channel of None \<Rightarrow> (h, c)
      | Some symbol \<Rightarrow> send_book_snapshot ports engine now rid symbol after_seq (h, c))"
    obtain h1 c1 h2 c2 where s1: "s1 = (h1, c1)" and j: "join_channel channel s1 = (h2, c2)" by (metis surj_pair)
    have 1: "labelled h1 \<and> inv h1 c1 \<and> cn_user_id c1 = cn_user_id c"
      using s1 book_snapshot [OF Cons.prems(1,2) assms] Cons.prems(1,2) by (auto simp: s1_def split: option.splits)
    then have 2: "labelled h2 \<and> inv h2 c2 \<and> cn_user_id c2 = cn_user_id c1"
      using joins(1) j s1 by (intro joins_channel [of h1 c1 channel]) auto
    from Cons.prems(3) joins j have "subscribe_channels ports engine now rid i after_seq channels (h2, c2) (subscribed @ [channel]) = ((h', c'), subscribed')"
      by (simp add: s1_def [symmetric])
    with 1 2 Cons.IH [of h2 c2] show ?thesis by metis
  qed
qed simp

lemma message_keeps:
  assumes "inv h c" and "labelled h" and "\<And>req h. (hub_step ports)\<^sup>*\<^sup>* h (fst (engine req h))"
    and "handle_client_message ports engine now rid raw (h, c) = (h', c')"
  shows "labelled h' \<and> inv h' c' \<and> cn_user_id c' = cn_user_id c"
proof -
  have plain: "frame_channel f = None \<Longrightarrow> labelled h1 \<Longrightarrow> inv h1 c1 \<Longrightarrow> inv h1 (send_out f c1)" for f h1 c1 by (rule sends) auto
  show ?thesis
  proof (cases raw)
    case None
    with assms plain show ?thesis by (auto simp: handle_client_message_def send_out_def)
  next
    case (Some msg)
    show ?thesis
    proof (cases "cm_method msg = ''subscribe''")
      case True
      obtain h1 c1 subscribed where sub: "subscribe_channels ports engine now rid (cm_id msg) (Option.bind (cm_params msg) cp_after_seq)
          (requested_channels msg) (h, c) [] = ((h1, c1), subscribed)" by (metis surj_pair)
      with subscribes [OF assms(3,1,2) sub] True Some assms(4) plain show ?thesis
        by (auto simp: handle_client_message_def send_out_def)
    next
      case False
      have "inv h (send_out (server_ack i r) (c\<lparr>cn_subscriptions := S\<rparr>))" for i r S using assms(1,2) by (intro plain leaves) auto
      with False Some assms plain [OF _ assms(2,1)] show ?thesis
        by (auto simp: handle_client_message_def send_out_def split: if_splits)
    qed
  qed
qed

lemma step_keeps:
  assumes "ws_step first_tick ports (h, c) (h', c')" and "labelled h" and "inv h c"
  shows "labelled h' \<and> inv h' c' \<and> cn_user_id c' = cn_user_id c"
  using assms(1)
proof cases
  case hub
  with assms(2,3) runs hub_step_labelled show ?thesis by blast
next
  case (message engine now rid raw)
  then show ?thesis using message_keeps [OF assms(3,2), of engine now rid raw] by metis
next
  case (forwards i)
  then have "inv h c'" using assms(2,3) passes by blast
  with forwards assms(2) show ?thesis by (auto simp: forward_def send_out_def split: prod.splits option.splits if_splits)
next
  case (lags i m)
  then have "inv h c'" using assms(2,3) skips by blast
  with lags assms(2) show ?thesis by (auto simp: forward_lagged_def send_out_def split: prod.splits option.splits if_splits)
next
  case pong
  have "inv h (c\<lparr>cn_awaiting_pong := False\<rparr>)" using timers [OF assms(3), of "cn_open c" "cn_heartbeat c" False] by simp
  with pong assms(2) show ?thesis by simp
next
  case (heartbeat now)
  have "inv h (c\<lparr>cn_open := False\<rparr>)" "inv h (c\<lparr>cn_awaiting_pong := True, cn_heartbeat := first_tick PONG_DEADLINE now\<rparr>)"
    using timers [OF assms(3), of False "cn_heartbeat c" "cn_awaiting_pong c"]
      timers [OF assms(3), of "cn_open c" "first_tick PONG_DEADLINE now" True] by simp_all
  with heartbeat assms(2) show ?thesis by (auto simp: heartbeat_tick_def)
next
  case closes
  then show ?thesis using assms timers [of h c False "cn_heartbeat c" "cn_awaiting_pong c"] by simp
qed

lemma run_keeps:
  assumes "(ws_step first_tick ports)\<^sup>*\<^sup>* (h, c) (h', c')" and "labelled h" and "inv h c"
  shows "labelled h' \<and> inv h' c' \<and> cn_user_id c' = cn_user_id c"
  using assms
proof (induction rule: rtranclp_induct2)
  case (step h1 c1 h2 c2)
  then show ?case using step_keeps [of first_tick h1 c1 h2 c2] by metis
qed simp

end

section \<open>Private channels\<close>

definition guarded :: "hub \<Rightarrow> connection \<Rightarrow> bool" where
  "guarded h c \<longleftrightarrow> (cn_user_id c = None \<longrightarrow> (\<forall>rx \<in> set (cn_forwarders c). \<not> is_private_channel (fst rx)) \<and>
     (\<forall>f \<in> set (cn_out c). \<forall>channel. frame_channel f = Some channel \<longrightarrow> \<not> is_private_channel channel))"

lemma book_not_private [simp]: "\<not> is_private_channel (''book.'' @ s)" "\<not> is_private_channel (CHR ''b'' # s)"
  by (auto simp: is_private_channel_def USER_ORDERS_def USER_FILLS_def USER_BALANCES_def)

lemma forward_cases:
  assumes "forward i h c = Some c'"
  obtains channel n sent where "i < length (cn_forwarders c)" "cn_forwarders c ! i = (channel, n)" "hb_senders h channel = Some sent"
    "n < length sent" "c' = send_out (sent ! n) (c\<lparr>cn_forwarders := (cn_forwarders c)[i := (channel, Suc n)]\<rparr>)"
  using assms by (auto simp: forward_def split: if_splits prod.splits option.splits)

lemma forward_lagged_cases:
  assumes "forward_lagged i m h c = Some c'"
  obtains channel n sent where "i < length (cn_forwarders c)" "cn_forwarders c ! i = (channel, n)" "hb_senders h channel = Some sent"
    "n < m" "m \<le> length sent" "c' = send_out LAG_FRAME (c\<lparr>cn_forwarders := (cn_forwarders c)[i := (channel, m)]\<rparr>)"
  using assms by (auto simp: forward_lagged_def split: if_splits prod.splits option.splits)

interpretation guarded: connection_invariant guarded ports for ports :: "'d::linordered_field ws_ports"
proof
  fix h :: hub and c channel
  assume "guarded h c" "is_private_channel channel \<longrightarrow> cn_user_id c \<noteq> None"
  then show "guarded (fst (join_channel channel (h, c))) (snd (join_channel channel (h, c)))"
    by (auto simp: guarded_def join_channel_def hub_subscribe_def split: option.splits prod.splits)
next
  fix h :: hub and c c' i
  assume g: "guarded h c" "labelled h" and "forward i h c = Some c'"
  then obtain channel n sent where f: "i < length (cn_forwarders c)" "cn_forwarders c ! i = (channel, n)" "hb_senders h channel = Some sent"
    "n < length sent" and c': "c' = send_out (sent ! n) (c\<lparr>cn_forwarders := (cn_forwarders c)[i := (channel, Suc n)]\<rparr>)"
    by (elim forward_cases)
  have "frame_channel (sent ! n) = Some channel" using labelledD(1) [OF g(2) f(3)] f(4) by simp
  moreover have "cn_user_id c = None \<longrightarrow> \<not> is_private_channel channel" using g(1) f(1,2) by (force simp: guarded_def dest: nth_mem)
  ultimately show "guarded h c'" using g(1) c' by (auto simp: guarded_def send_out_def dest!: subsetD [OF set_update_subset_insert])
next
  fix h :: hub and c c' i m
  assume g: "guarded h c" and "forward_lagged i m h c = Some c'"
  then obtain channel n where f: "i < length (cn_forwarders c)" "cn_forwarders c ! i = (channel, n)"
    and c': "c' = send_out LAG_FRAME (c\<lparr>cn_forwarders := (cn_forwarders c)[i := (channel, m)]\<rparr>)" by (elim forward_lagged_cases)
  have "cn_user_id c = None \<longrightarrow> \<not> is_private_channel channel" using g f by (force simp: guarded_def dest: nth_mem)
  then show "guarded h c'" using g c' by (auto simp: guarded_def send_out_def dest!: subsetD [OF set_update_subset_insert])
qed (auto simp: guarded_def send_out_def)

text \<open>
  C34. Frames of a private channel go only to clients with a valid token: whatever messages a client sends and however hub and
  forwarders interleave, a connection that has been sent a frame of \<open>user.orders\<close>, \<open>user.fills\<close> or \<open>user.balances\<close> was opened
  with a token that decodes.
\<close>

theorem private_frames_need_token:
  assumes "(hub_step ports)\<^sup>*\<^sup>* hub_new h"
    and "(ws_step first_tick ports)\<^sup>*\<^sup>* (h, connection_new first_tick now (ws_handler kports cfg token)) (h', c)"
    and "f \<in> set (cn_out c)" and "frame_channel f = Some channel" and "is_private_channel channel"
  shows "\<exists>t claims. token = Some t \<and> kp_decode_access kports (tc_jwt_secret cfg) t = Inr claims \<and> cn_user_id c = Some (ac_sub claims)"
proof -
  let ?c = "connection_new first_tick now (ws_handler kports cfg token)"
  have "guarded h ?c" by (simp add: guarded_def connection_new_def)
  from guarded.run_keeps [OF assms(2) hub_run_labelled [OF assms(1)] this] have "guarded h' c" "cn_user_id c = ws_handler kports cfg token"
    by (simp_all add: connection_new_def)
  with assms(3-5) show ?thesis
    by (auto simp: guarded_def ws_handler_def split: option.splits sum.splits Option.bind_splits)
qed

section \<open>A subscriber misses nothing\<close>

definition channel_frames :: "string \<Rightarrow> connection \<Rightarrow> json_value list" where
  "channel_frames channel c = filter (\<lambda>f. frame_channel f = Some channel) (cn_out c)"

definition forwarders_on :: "string \<Rightarrow> connection \<Rightarrow> (string \<times> nat) list" where
  "forwarders_on channel c = filter (\<lambda>rx. fst rx = channel) (cn_forwarders c)"

definition segment :: "hub \<Rightarrow> string \<Rightarrow> nat \<Rightarrow> connection \<Rightarrow> bool" where
  "segment h channel n c \<longleftrightarrow> (\<exists>sent p. hb_senders h channel = Some sent \<and> p \<le> n \<and> n \<le> length sent \<and>
     (LAG_FRAME \<notin> set (cn_out c) \<longrightarrow> channel_frames channel c = take (n - p) (drop p sent)))"

definition streamed :: "string \<Rightarrow> hub \<Rightarrow> connection \<Rightarrow> bool" where
  "streamed channel h c \<longleftrightarrow> (forwarders_on channel c = [] \<longrightarrow> channel_frames channel c = []) \<and>
     (\<forall>n. forwarders_on channel c = [(channel, n)] \<longrightarrow> segment h channel n c)"

lemma publish_extends: "hb_senders h channel = Some sent \<Longrightarrow> \<exists>ys. hb_senders (publish ch f h) channel = Some (sent @ ys)"
  by (auto simp: publish_def split: option.splits)

lemma fold_publish_extends:
  "hb_senders h channel = Some sent \<Longrightarrow> \<exists>ys. hb_senders (fold (\<lambda>x. publish (ch x) (fr x)) xs h) channel = Some (sent @ ys)"
proof (induction xs arbitrary: h sent)
  case (Cons x xs)
  obtain ys where "hb_senders (publish (ch x) (fr x) h) channel = Some (sent @ ys)" using publish_extends [OF Cons.prems] by blast
  from Cons.IH [OF this] show ?case by auto
qed simp

lemma hub_step_extends:
  assumes "hub_step ports h h'" and s: "hb_senders h channel = Some sent"
  shows "\<exists>ys. hb_senders h' channel = Some (sent @ ys)"
  using assms(1)
proof cases
  case (event now ev)
  have twice: "\<exists>ys. hb_senders (publish a f (publish b g h)) channel = Some (sent @ ys)" for a b f g
    using fold_publish_extends [OF s, of fst snd "[(b, g), (a, f)]"] by simp
  show ?thesis unfolding event dispatch_def Let_def
    using publish_extends [OF s] twice s
    by (auto simp: on_book_delta_def on_fill_def on_order_accepted_event_def on_order_canceled_event_def publish_with_replay_def Let_def
        split: engine_event.split)
next
  case (ticker snapshots)
  let ?xs = "map (\<lambda>snap. (ticker_channel (fst snap), ticker_frame (ticker_channel (fst snap)) (ticker_item ports snap))) snapshots"
  have "hb_senders h' channel = hb_senders (fold (\<lambda>x. publish (fst x) (snd x))
      (if snapshots = [] then [] else ?xs @ [(TICKER_ALL, ticker_frame TICKER_ALL (JsArr (map (ticker_item ports) snapshots)))]) h) channel"
    by (simp add: ticker publish_ticker_def fold_map comp_def)
  then show ?thesis using fold_publish_extends [OF s, of fst snd] by simp
next
  case balance
  then show ?thesis using publish_extends [OF s] by (simp add: publish_balance_update_def)
next
  case (join ch)
  then show ?thesis using s by (auto simp: hub_subscribe_def split: option.splits)
qed

lemma segment_extends:
  assumes "segment h channel n c" and "\<And>sent. hb_senders h channel = Some sent \<Longrightarrow> \<exists>ys. hb_senders h' channel = Some (sent @ ys)"
  shows "segment h' channel n c"
proof -
  obtain sent p where s: "hb_senders h channel = Some sent" "p \<le> n" "n \<le> length sent"
    "LAG_FRAME \<notin> set (cn_out c) \<longrightarrow> channel_frames channel c = take (n - p) (drop p sent)"
    using assms(1) unfolding segment_def by blast
  with assms(2) obtain ys where "hb_senders h' channel = Some (sent @ ys)" by blast
  with s show ?thesis unfolding segment_def by (intro exI [of _ "sent @ ys"] exI [of _ p]) simp
qed

lemma forwarders_update:
  assumes "i < length (cn_forwarders c)" and "cn_forwarders c ! i = (ch, n)"
  obtains A B where "forwarders_on channel c = A @ (if ch = channel then [(ch, n)] else []) @ B"
    "\<And>k. forwarders_on channel (c\<lparr>cn_forwarders := (cn_forwarders c)[i := (ch, k)]\<rparr>) = A @ (if ch = channel then [(ch, k)] else []) @ B"
proof
  let ?A = "filter (\<lambda>rx. fst rx = channel) (take i (cn_forwarders c))" and ?B = "filter (\<lambda>rx. fst rx = channel) (drop (Suc i) (cn_forwarders c))"
  have "cn_forwarders c = take i (cn_forwarders c) @ (ch, n) # drop (Suc i) (cn_forwarders c)" using id_take_nth_drop [OF assms(1)] assms(2) by simp
  from arg_cong [OF this, of "filter (\<lambda>rx. fst rx = channel)"]
  show "forwarders_on channel c = ?A @ (if ch = channel then [(ch, n)] else []) @ ?B" by (simp add: forwarders_on_def)
  show "forwarders_on channel (c\<lparr>cn_forwarders := (cn_forwarders c)[i := (ch, k)]\<rparr>) = ?A @ (if ch = channel then [(ch, k)] else []) @ ?B" for k
    using assms(1) by (simp add: forwarders_on_def upd_conv_take_nth_drop)
qed

lemma channel_frames_send [simp]:
  "channel_frames channel (send_out f c) = channel_frames channel c @ (if frame_channel f = Some channel then [f] else [])"
  "forwarders_on channel (send_out f c) = forwarders_on channel c"
  "channel_frames channel (c\<lparr>cn_forwarders := rs\<rparr>) = channel_frames channel c"
  by (simp_all add: channel_frames_def forwarders_on_def send_out_def)

lemma streamed_passes:
  assumes "streamed channel h c" and "labelled h" and "forward i h c = Some c'"
  shows "streamed channel h c'"
proof -
  from assms(3) obtain ch n sent where f: "i < length (cn_forwarders c)" "cn_forwarders c ! i = (ch, n)" "hb_senders h ch = Some sent"
    "n < length sent" and c': "c' = send_out (sent ! n) (c\<lparr>cn_forwarders := (cn_forwarders c)[i := (ch, Suc n)]\<rparr>)" by (elim forward_cases)
  obtain A B where on: "forwarders_on channel c = A @ (if ch = channel then [(ch, n)] else []) @ B"
    "\<And>k. forwarders_on channel (c\<lparr>cn_forwarders := (cn_forwarders c)[i := (ch, k)]\<rparr>) = A @ (if ch = channel then [(ch, k)] else []) @ B"
    by (rule forwarders_update [OF f(1,2), of channel]) metis
  have label: "frame_channel (sent ! n) = Some ch" using labelledD(1) [OF assms(2) f(3)] f(4) by simp
  then have noLag: "LAG_FRAME \<notin> set (cn_out c') \<Longrightarrow> LAG_FRAME \<notin> set (cn_out c)" by (simp add: c' send_out_def)
  show ?thesis
  proof (cases "ch = channel")
    case False
    then have "forwarders_on channel c' = forwarders_on channel c" "channel_frames channel c' = channel_frames channel c"
      using on label by (simp_all add: c')
    with assms(1) noLag show ?thesis unfolding streamed_def segment_def by metis
  next
    case True
    have "segment h channel m c'" if "forwarders_on channel c' = [(channel, m)]" for m
    proof -
      from that True on have "A = [] \<and> B = [] \<and> m = Suc n" by (auto simp: c' append_eq_Cons_conv)
      with on True assms(1) have "segment h channel n c" by (simp add: streamed_def)
      then obtain p where p: "p \<le> n" "LAG_FRAME \<notin> set (cn_out c) \<longrightarrow> channel_frames channel c = take (n - p) (drop p sent)"
        using f(3) True by (auto simp: segment_def)
      moreover have "take (Suc n - p) (drop p sent) = take (n - p) (drop p sent) @ [sent ! n]"
        using p(1) f(4) by (simp add: Suc_diff_le take_Suc_conv_app_nth)
      ultimately show ?thesis unfolding segment_def using f(3,4) True label noLag \<open>A = [] \<and> B = [] \<and> m = Suc n\<close>
        by (intro exI [of _ sent] exI [of _ p]) (auto simp: c')
    qed
    moreover have "forwarders_on channel c' \<noteq> []" using on True by (simp add: c')
    ultimately show ?thesis by (simp add: streamed_def)
  qed
qed

lemma streamed_skips:
  assumes "streamed channel h c" and "forward_lagged i m h c = Some c'"
  shows "streamed channel h c'"
proof -
  from assms(2) obtain ch n sent where f: "i < length (cn_forwarders c)" "cn_forwarders c ! i = (ch, n)" "hb_senders h ch = Some sent"
    "n < m" "m \<le> length sent" and c': "c' = send_out LAG_FRAME (c\<lparr>cn_forwarders := (cn_forwarders c)[i := (ch, m)]\<rparr>)" by (elim forward_lagged_cases)
  obtain A B where on: "forwarders_on channel c = A @ (if ch = channel then [(ch, n)] else []) @ B"
    "\<And>k. forwarders_on channel (c\<lparr>cn_forwarders := (cn_forwarders c)[i := (ch, k)]\<rparr>) = A @ (if ch = channel then [(ch, k)] else []) @ B"
    by (rule forwarders_update [OF f(1,2), of channel]) metis
  have lag: "LAG_FRAME \<in> set (cn_out c')" by (simp add: c' send_out_def)
  have "segment h channel k c'" if "forwarders_on channel c' = [(channel, k)]" for k
  proof (cases "ch = channel")
    case True
    with that on have "k = m" by (auto simp: c' append_eq_Cons_conv)
    with True f(3,5) lag show ?thesis by (auto simp: segment_def)
  next
    case False
    with that on have "forwarders_on channel c = [(channel, k)]" by (simp add: c')
    with assms(1) lag show ?thesis by (auto simp: streamed_def segment_def)
  qed
  moreover have "forwarders_on channel c' = [] \<Longrightarrow> channel_frames channel c' = []" using on assms(1) by (auto simp: c' streamed_def split: if_splits)
  ultimately show ?thesis by (simp add: streamed_def)
qed

lemma streamed_joins:
  assumes "streamed channel h c"
  shows "streamed channel (fst (join_channel ch (h, c))) (snd (join_channel ch (h, c)))"
proof -
  let ?h = "fst (hub_subscribe ch h)" and ?c = "snd (join_channel ch (h, c))"
  have s: "fst (join_channel ch (h, c)) = ?h" "channel_frames channel ?c = channel_frames channel c" "cn_out ?c = cn_out c"
    by (simp_all add: join_channel_def channel_frames_def split: prod.split)
  have ext: "hb_senders h channel = Some sent \<Longrightarrow> \<exists>ys. hb_senders ?h channel = Some (sent @ ys)" for sent
    by (auto simp: hub_subscribe_def split: option.splits)
  have on: "forwarders_on channel ?c = forwarders_on channel c @ (if ch = channel then [snd (hub_subscribe ch h)] else [])"
    by (auto simp: forwarders_on_def join_channel_def hub_subscribe_def split: prod.split option.splits)
  have "segment ?h channel n ?c" if "forwarders_on channel ?c = [(channel, n)]" for n
  proof (cases "ch = channel")
    case True
    with that on have "forwarders_on channel c = []" "snd (hub_subscribe ch h) = (channel, n)" by auto
    with assms True s show ?thesis
      by (auto simp: streamed_def segment_def hub_subscribe_def split: option.splits)
  next
    case False
    with that on assms have "segment h channel n c" by (simp add: streamed_def)
    from segment_extends [OF this ext] s show ?thesis by (simp add: segment_def)
  qed
  with assms on s show ?thesis by (auto simp: streamed_def split: if_splits)
qed

interpretation streamed: connection_invariant "\<lambda>h c. take 5 channel \<noteq> ''book.'' \<longrightarrow> streamed channel h c" ports
  for channel and ports :: "'d::linordered_field ws_ports"
proof
  fix h h' :: hub and c
  assume "take 5 channel \<noteq> ''book.'' \<longrightarrow> streamed channel h c" and "hub_step ports h h'"
  then show "take 5 channel \<noteq> ''book.'' \<longrightarrow> streamed channel h' c"
    using segment_extends [of h channel _ c h'] hub_step_extends [of ports h h' channel] by (auto simp: streamed_def)
next
  fix h :: hub and c f s
  assume inv: "take 5 channel \<noteq> ''book.'' \<longrightarrow> streamed channel h c" and "frame_channel f = None \<or> frame_channel f = Some (''book.'' @ s)"
  then have "take 5 channel \<noteq> ''book.'' \<longrightarrow> channel_frames channel (send_out f c) = channel_frames channel c" by auto
  moreover have "LAG_FRAME \<notin> set (cn_out (send_out f c)) \<Longrightarrow> LAG_FRAME \<notin> set (cn_out c)" by (simp add: send_out_def)
  ultimately show "take 5 channel \<noteq> ''book.'' \<longrightarrow> streamed channel h (send_out f c)"
    using inv unfolding streamed_def segment_def channel_frames_send(2) by metis
next
  show "take 5 channel \<noteq> ''book.'' \<longrightarrow> streamed channel h c \<Longrightarrow>
      take 5 channel \<noteq> ''book.'' \<longrightarrow> streamed channel (fst (join_channel ch (h, c))) (snd (join_channel ch (h, c)))" for h c ch
    by (rule impI, drule (1) mp, rule streamed_joins)
next
  show "take 5 channel \<noteq> ''book.'' \<longrightarrow> streamed channel h c \<Longrightarrow> labelled h \<Longrightarrow> forward i h c = Some c' \<Longrightarrow>
      take 5 channel \<noteq> ''book.'' \<longrightarrow> streamed channel h c'" for h c c' i
    by (rule impI, drule (1) mp, rule streamed_passes)
next
  show "take 5 channel \<noteq> ''book.'' \<longrightarrow> streamed channel h c \<Longrightarrow> forward_lagged i m h c = Some c' \<Longrightarrow>
      take 5 channel \<noteq> ''book.'' \<longrightarrow> streamed channel h c'" for h c c' i m
    by (rule impI, drule (1) mp, rule streamed_skips)
qed (simp_all add: streamed_def segment_def channel_frames_def forwarders_on_def)


section \<open>Heartbeat, unsubscribing and replay\<close>

text \<open>
  The first tick of a \<open>tokio\<close> interval completes at once. The heartbeat makes a new interval after each ping, so the next tick is
  due at the time of the ping and ends the connection unless a pong was handled in between.
\<close>

theorem heartbeat_expires_at_once:
  assumes "\<And>p t. first_tick p t = t" and "cn_open c" and "cn_heartbeat c \<le> now" and "\<not> cn_awaiting_pong c"
  shows "(ws_step first_tick ports)\<^sup>*\<^sup>* (h, c) (h, (heartbeat_tick first_tick now c)\<lparr>cn_open := False\<rparr>)"
proof -
  let ?c = "heartbeat_tick first_tick now c"
  from assms have "ws_step first_tick ports (h, c) (h, ?c)" by (intro ws_step.heartbeat)
  moreover have "ws_step first_tick ports (h, ?c) (h, heartbeat_tick first_tick now ?c)"
    using assms by (intro ws_step.heartbeat) (simp_all add: heartbeat_tick_def)
  moreover have "heartbeat_tick first_tick now ?c = ?c\<lparr>cn_open := False\<rparr>" using assms(4) by (simp add: heartbeat_tick_def)
  ultimately show ?thesis by auto
qed

definition subscription :: "string \<Rightarrow> string list \<Rightarrow> u64 option \<Rightarrow> client_message option" where
  "subscription method channels after_seq =
     Some \<lparr>cm_id = None, cm_method = method, cm_params = Some \<lparr>cp_channels = Some channels, cp_after_seq = after_seq\<rparr>\<rparr>"

text \<open>Unsubscribing leaves the forwarder running; subscribing again adds a second one, and every later frame arrives twice.\<close>

theorem resubscribing_doubles_frames:
  assumes "\<not> is_private_channel channel" and "book_diff_symbol channel = None" and "cn_subscriptions c = {}"
  shows "cn_forwarders (snd (handle_client_message ports engine t3 i3 (subscription ''subscribe'' [channel] None)
      (handle_client_message ports engine t2 i2 (subscription ''unsubscribe'' [channel] None)
        (handle_client_message ports engine t1 i1 (subscription ''subscribe'' [channel] None) (h, c)))))
    = cn_forwarders c @ [snd (hub_subscribe channel h), snd (hub_subscribe channel h)]"
  using assms
  by (auto simp: handle_client_message_def subscription_def requested_channels_def unwrap_or_def join_channel_def hub_subscribe_def send_out_def
      split: option.splits)

text \<open>
  The replay buffer is compared by its length, not by sequence number: a client that has seen event 1 is sent event 7 as its
  next difference when the buffer holds one frame.
\<close>

theorem replay_skips_differences:
  assumes "hb_replay h (book_diff symbol) = Some [(t, channel_frame (book_diff symbol) 7 levels)]" and "t \<le> now" and "now < t + REPLAY_WINDOW"
  shows "send_book_snapshot ports engine now i symbol (Some 1) (h, c) = (h, send_out (channel_frame (book_diff symbol) 7 levels) c)"
proof -
  have "unat (1 :: u64) = 1" by simp
  then have "replay_diffs now symbol 1 h = Some [channel_frame (book_diff symbol) 7 levels]"
    using assms by (simp add: replay_diffs_def in_replay_window_def)
  then show ?thesis by (simp add: send_book_snapshot_def send_out_def)
qed

text \<open>
  The snapshot is taken before the connection joins the channel: a difference dispatched during the wait reaches a first
  subscriber neither in the snapshot nor on the channel.
\<close>

theorem snapshot_gap_loses_difference:
  assumes "hb_senders h (book_diff symbol) = None" and "book_diff_symbol (book_diff symbol) = Some symbol" and "cn_subscriptions c = {}"
    and "se_event ev = BookDelta delta" and "bd_symbol delta = symbol"
    and "\<And>req. engine req h = (dispatch ports now ev h, Inr snap)"
  shows "let s = handle_client_message ports engine now i (subscription ''subscribe'' [book_diff symbol] None) (h, c)
    in hb_senders (fst s) (book_diff symbol) = Some [] \<and> cn_forwarders (snd s) = cn_forwarders c @ [(book_diff symbol, 0)]
      \<and> cn_out (snd s) = cn_out c @ [snapshot_frame ports symbol snap, server_ack None [(''channels'', JsArr [JsStr (book_diff symbol)])]]"
proof -
  have "hb_senders (dispatch ports now ev h) (book_diff symbol) = None"
    using assms(1,4,5) by (simp add: dispatch_def on_book_delta_def publish_with_replay_def publish_def Let_def)
  moreover have "\<not> is_private_channel (book_diff symbol)" by (simp add: book_diff_def)
  ultimately show ?thesis using assms(2,3,6)
    by (simp add: handle_client_message_def subscription_def requested_channels_def unwrap_or_def send_book_snapshot_def send_full_snapshot_def
        join_channel_def hub_subscribe_def send_out_def)
qed

section \<open>Sample connection\<close>

definition sample_ws_ports :: "real ws_ports" where
  "sample_ws_ports = \<lparr>wp_decimal = (\<lambda>_. ''1''), wp_uuid = (\<lambda>_. ''u''), wp_side = (\<lambda>_. ''buy''), wp_reason = (\<lambda>_. ''x''), wp_round4 = id\<rparr>"

definition sample_ws_keys :: key_ports where
  "sample_ws_keys = sample_key_ports\<lparr>kp_decode_access := (\<lambda>secret token. Inr \<lparr>ac_sub = 1, ac_sid = 2, ac_kyc = 0, ac_iat = 0, ac_exp = 900, ac_jti = 3\<rparr>)\<rparr>"

definition sample_ws_fill :: "real sequenced_engine_event" where
  "sample_ws_fill = \<lparr>se_seq = 4, se_event = FillEvent \<lparr>tf_trade_id = 7, tf_symbol = ''BTCUSDT'', tf_taker_order_id = 102, tf_maker_order_id = 101,
     tf_price = 90, tf_quantity = 1, tf_taker_side = WBuy, tf_ts = ''t''\<rparr>\<rparr>"

abbreviation sample_ws_start :: connection where
  "sample_ws_start \<equiv> connection_new (\<lambda>p t. t) 0 (ws_handler sample_ws_keys sample_token_config (Some ''token''))"

lemma sample_ws_run:
  obtains h c f where "(ws_step (\<lambda>p t. t) sample_ws_ports)\<^sup>*\<^sup>* (hub_new, sample_ws_start) (h, c)" and "f \<in> set (cn_out c)"
    and "frame_channel f = Some USER_FILLS" and "cn_forwarders c = [(USER_FILLS, 1)]" and "LAG_FRAME \<notin> set (cn_out c)"
proof -
  let ?step = "ws_step (\<lambda>p t. t) sample_ws_ports"
  let ?engine = "\<lambda>req h. (h, Inl ClientTimeout) :: hub \<times> (engine_client_error + real book_snapshot)"
  let ?s1 = "handle_client_message sample_ws_ports ?engine 0 0 (subscription ''subscribe'' [USER_FILLS] None) (hub_new, sample_ws_start)"
  have user: "cn_user_id sample_ws_start = Some 1" by (simp add: connection_new_def ws_handler_def sample_ws_keys_def)
  then obtain ack where s1: "?s1 = (hub_new\<lparr>hb_senders := [USER_FILLS \<mapsto> []]\<rparr>,
      sample_ws_start\<lparr>cn_forwarders := [(USER_FILLS, 0)], cn_subscriptions := {USER_FILLS}, cn_out := [server_ack None ack]\<rparr>)"
    by (simp add: handle_client_message_def subscription_def requested_channels_def unwrap_or_def connection_new_def join_channel_def
        hub_subscribe_def hub_new_def send_out_def book_diff_symbol_def strip_prefix_def USER_FILLS_def)
  have 1: "?step (hub_new, sample_ws_start) ?s1" by (rule ws_step.message) (simp_all add: connection_new_def)
  have 2: "?step ?s1 (dispatch sample_ws_ports 0 sample_ws_fill (fst ?s1), snd ?s1)"
    by (cases ?s1) (simp add: ws_step.hub [OF hub_step.event])
  have "trade_channel ''BTCUSDT'' \<noteq> USER_FILLS" by (simp add: USER_FILLS_def trade_channel_def)
  then have "\<exists>f. hb_senders (dispatch sample_ws_ports 0 sample_ws_fill h) USER_FILLS = Some [f] \<and> frame_channel f = Some USER_FILLS"
    if "hb_senders h = [USER_FILLS \<mapsto> []]" for h
    using that by (simp add: dispatch_def sample_ws_fill_def on_fill_def publish_def Let_def)
  from this [of "fst ?s1"] obtain f where h2: "hb_senders (dispatch sample_ws_ports 0 sample_ws_fill (fst ?s1)) USER_FILLS = Some [f]"
    and f: "frame_channel f = Some USER_FILLS" by (auto simp: s1)
  let ?c = "send_out f ((snd ?s1)\<lparr>cn_forwarders := [(USER_FILLS, 1)]\<rparr>)"
  have "forward 0 (dispatch sample_ws_ports 0 sample_ws_fill (fst ?s1)) (snd ?s1) = Some ?c"
    using h2 by (simp add: forward_def s1)
  moreover have "cn_open (snd ?s1)" by (subst s1) (simp add: connection_new_def)
  ultimately have 3: "?step (dispatch sample_ws_ports 0 sample_ws_fill (fst ?s1), snd ?s1) (dispatch sample_ws_ports 0 sample_ws_fill (fst ?s1), ?c)"
    by (intro ws_step.forwards)
  from 1 2 3 have "?step\<^sup>*\<^sup>* (hub_new, sample_ws_start) (dispatch sample_ws_ports 0 sample_ws_fill (fst ?s1), ?c)"
    by (meson rtranclp.rtrancl_into_rtrancl rtranclp.rtrancl_refl)
  moreover have "LAG_FRAME \<noteq> f" using f by auto
  moreover have "LAG_FRAME \<noteq> server_ack None ack" by (simp add: LAG_FRAME_def server_ack_def error_frame_def)
  ultimately show thesis using that [of _ ?c f] f by (simp add: s1 send_out_def)
qed

theorem private_frames_need_token_witness:
  "\<exists>h c t claims. (ws_step (\<lambda>p t. t) sample_ws_ports)\<^sup>*\<^sup>* (hub_new, sample_ws_start) (h, c)
     \<and> kp_decode_access sample_ws_keys (tc_jwt_secret sample_token_config) t = Inr claims \<and> cn_user_id c = Some (ac_sub claims)"
proof (rule sample_ws_run)
  fix h c f
  assume run: "(ws_step (\<lambda>p t. t) sample_ws_ports)\<^sup>*\<^sup>* (hub_new, sample_ws_start) (h, c)"
    and f: "f \<in> set (cn_out c)" "frame_channel f = Some USER_FILLS"
  from private_frames_need_token [OF _ run f] run show ?thesis by (auto simp: is_private_channel_def)
qed


end
