(* ===== verification/Timestamps.thy ===== *)
theory Timestamps
  imports Prelude
begin

text \<open>
  The engine's clock adapter (\<open>engine/crates/server/src/time.rs\<close>): the conversion of days since the epoch to a civil date
  and the RFC 3339 text, with the proof that the conversion walks the Gregorian calendar. The system clock itself is an input.
\<close>

section \<open>The code\<close>

definition i32_or_max :: "int \<Rightarrow> int" where
  "i32_or_max i = (if - (2 ^ 31) \<le> i \<and> i < 2 ^ 31 then i else 2 ^ 31 - 1)"

definition u32_or_one :: "int \<Rightarrow> int" where
  "u32_or_one i = (if 0 \<le> i \<and> i < 2 ^ 32 then i else 1)"

definition year_of_era :: "int \<Rightarrow> int" where
  "year_of_era day_of_era =
     trunc_div (day_of_era - trunc_div day_of_era 1460 + trunc_div day_of_era 36524 - trunc_div day_of_era 146096) 365"

definition civil_from_days :: "int \<Rightarrow> int \<times> int \<times> int" where
  "civil_from_days days_since_epoch =
     (let shifted = days_since_epoch + 719468;
          era = trunc_div (if 0 \<le> shifted then shifted else shifted - 146096) 146097;
          day_of_era = shifted - era * 146097;
          yoe = year_of_era day_of_era;
          year = yoe + era * 400;
          day_of_year = day_of_era - (365 * yoe + trunc_div yoe 4 - trunc_div yoe 100);
          month_prime = trunc_div (5 * day_of_year + 2) 153;
          day = day_of_year - trunc_div (153 * month_prime + 2) 5 + 1;
          month = month_prime + (if month_prime < 10 then 3 else -9);
          adjusted_year = year + (if month \<le> 2 then 1 else 0)
      in (i32_or_max adjusted_year, u32_or_one month, u32_or_one day))"

definition format_unix_millis :: "nat \<Rightarrow> nat \<Rightarrow> string" where
  "format_unix_millis seconds millis =
     (let days = (if int (seconds div 86400) < 2 ^ 63 then int (seconds div 86400) else 2 ^ 63 - 1);
          seconds_of_day = seconds mod 86400;
          (year, month, day) = civil_from_days days
      in zero_padded 4 year @ ''-'' @ zero_padded 2 month @ ''-'' @ zero_padded 2 day @ ''T''
         @ zero_padded 2 (int (seconds_of_day div 3600)) @ '':'' @ zero_padded 2 (int (seconds_of_day mod 3600 div 60))
         @ '':'' @ zero_padded 2 (int (seconds_of_day mod 60)) @ ''.'' @ zero_padded 3 (int millis) @ ''Z'')"

section \<open>The calendar\<close>

definition is_leap :: "int \<Rightarrow> bool" where
  "is_leap y \<longleftrightarrow> y mod 4 = 0 \<and> (y mod 100 \<noteq> 0 \<or> y mod 400 = 0)"

definition month_length :: "int \<Rightarrow> int \<Rightarrow> int" where
  "month_length y m = (if m = 2 then (if is_leap y then 29 else 28) else if m \<in> {4, 6, 9, 11} then 30 else 31)"

fun next_date :: "int \<times> int \<times> int \<Rightarrow> int \<times> int \<times> int" where
  "next_date (y, m, d) =
     (if d < month_length y m then (y, m, d + 1) else if m < 12 then (y, m + 1, 1) else (y + 1, 1, 1))"

section \<open>Years that start in March\<close>

definition year_start :: "int \<Rightarrow> int" where
  "year_start y = 365 * y + y div 4 - y div 100"

definition year_days :: "int \<Rightarrow> int" where
  "year_days y = (if is_leap (y + 1) then 366 else 365)"

definition month_day :: "int \<Rightarrow> int \<times> int" where
  "month_day doy =
     (let mp = (5 * doy + 2) div 153 in (mp + (if mp < 10 then 3 else -9), doy - (153 * mp + 2) div 5 + 1))"

lemma year_start_table: "\<forall>y \<in> set [0..398]. year_start (y + 1) = year_start y + year_days y"
  by code_simp

lemma month_day_table:
  "\<forall>doy \<in> set [0..364]. let (m, d) = month_day doy; (m', d') = month_day (doy + 1) in
     0 < m \<and> m \<le> 12 \<and> 0 < d \<and> d \<le> 31 \<and> (doy < 364 \<longrightarrow>
       (if m = 12 \<and> d = 31 then m' = 1 \<and> d' = 1 else (m \<le> 2 \<longleftrightarrow> m' \<le> 2) \<and> next_date (1, m, d) = (1, m', d')))"
  by code_simp

lemma year_of_era_table:
  "\<forall>y \<in> set [0..399]. year_of_era (year_start y) = y \<and> year_of_era (year_start y + year_days y - 1) = y"
  by code_simp

lemma trunc_div_nonneg [simp]: "0 \<le> a \<Longrightarrow> trunc_div a b = a div b"
  by (simp add: trunc_div_def)

lemma is_leap_periodic [simp]: "is_leap (y + 400 * e) = is_leap y" "is_leap (y + 400 * e + 1) = is_leap (y + 1)"
proof -
  have *: "is_leap (z + 400 * e) = is_leap z" for z
  proof -
    have "(z + 4 * (100 * e)) mod 4 = z mod 4" "(z + 100 * (4 * e)) mod 100 = z mod 100" "(z + 400 * e) mod 400 = z mod 400"
      by (rule mod_mult_self2)+
    then show ?thesis by (simp add: is_leap_def)
  qed
  from * [of y] * [of "y + 1"] show "is_leap (y + 400 * e) = is_leap y" and "is_leap (y + 400 * e + 1) = is_leap (y + 1)"
    by (simp_all add: algebra_simps)
qed

lemma year_days_cases: "year_days y = 365 \<or> year_days y = 366"
  by (simp add: year_days_def)

lemma year_start_bounds:
  assumes "0 \<le> y" and "y \<le> 399"
  shows "0 \<le> year_start y" and "y < 399 \<Longrightarrow> year_start y + year_days y = year_start (y + 1)"
    and "year_start y \<le> 145731" and "year_start 399 = 145731" and "year_days 399 = 366"
proof -
  have "y div 100 \<le> y" "0 \<le> y div 4" "0 \<le> y div 100" using assms by auto
  then show "0 \<le> year_start y" using assms by (simp add: year_start_def)
  show "year_start y + year_days y = year_start (y + 1)" if "y < 399"
  proof -
    have "y \<in> set [0..398]" unfolding set_upto using assms that by simp
    with year_start_table show ?thesis by (metis (no_types))
  qed
  show "year_start 399 = 145731" "year_days 399 = 366" by (simp_all add: year_start_def year_days_def is_leap_def)
  show "year_start y \<le> 145731"
  proof (cases "y = 399")
    case False
    with assms have "y \<le> 398" by simp
    then have "y div 4 \<le> 398 div 4" by (intro zdiv_mono1) simp_all
    with \<open>y \<le> 398\<close> \<open>0 \<le> y div 100\<close> show ?thesis by (simp add: year_start_def)
  qed (simp add: year_start_def)
qed

lemma days_minus_leaps_mono:
  fixes x x' :: int
  assumes "x \<le> x'" and "0 < k"
  shows "x - x div k \<le> x' - x' div k"
proof -
  have "x' \<le> x + k * (x' - x)" using mult_right_mono [of 1 k "x' - x"] assms by simp
  then have "x' div k \<le> (x + k * (x' - x)) div k" using assms(2) by (rule zdiv_mono1)
  also have "\<dots> = x div k + (x' - x)" using assms(2) by simp
  finally show ?thesis by simp
qed

text \<open>The arithmetic recovers the year of the era from any of its days.\<close>

lemma year_of_era_inside:
  assumes y: "0 \<le> y" "y \<le> 399" and k: "0 \<le> k" "k < year_days y"
  shows "year_of_era (year_start y + k) = y"
proof -
  let ?d = "year_start y + k" and ?f = "\<lambda>x :: int. x - x div 1460 + x div 36524"
  note bounds = year_start_bounds [OF y]
  have mono: "?f x \<le> ?f x'" if "0 \<le> x" "x \<le> x'" for x x'
    using days_minus_leaps_mono [OF that(2), of 1460] zdiv_mono1 [OF that(2), of 36524] by simp
  have small: "year_of_era x = ?f x div 365" if "0 \<le> x" "x < 146096" for x
  proof -
    have "0 \<le> ?f x" using mono [of 0 x] that by simp
    with that show ?thesis by (simp add: year_of_era_def)
  qed
  have "y \<in> set [0..399]" unfolding set_upto using y by simp
  with year_of_era_table have ends: "year_of_era (year_start y) = y" "year_of_era (year_start y + year_days y - 1) = y"
    by blast+
  show ?thesis
  proof (cases "?d = 146096")
    case True
    have "y = 399"
    proof (rule ccontr)
      assume "y \<noteq> 399"
      with y have "y < 399" by simp
      with y bounds(2) year_start_bounds(3) [of "y + 1"] k True show False by simp
    qed
    with True ends(2) bounds(4,5) show ?thesis by simp
  next
    case False
    have d: "0 \<le> ?d" using bounds(1) k by simp
    have "\<exists>e. ?d \<le> e \<and> e < 146096 \<and> year_of_era e = y"
    proof (cases "y = 399")
      case True
      with False k bounds(4,5) have "?d \<le> 146095" by simp
      moreover have "year_of_era 146095 = 399" by (simp add: year_of_era_def)
      ultimately show ?thesis using True by (intro exI [of _ 146095]) simp
    next
      case not_last: False
      with y have "y < 399" by simp
      with y bounds(2) year_start_bounds(3) [of "y + 1"] k ends(2) show ?thesis
        by (intro exI [of _ "year_start y + year_days y - 1"]) simp
    qed
    then obtain e where e: "?d \<le> e" "e < 146096" "year_of_era e = y" by blast
    have start: "0 \<le> year_start y" "year_start y < 146096" using bounds(1,3) by simp_all
    have "y \<le> ?f ?d div 365"
      using mono [OF start(1), of ?d] k(1) ends(1) small [OF start] zdiv_mono1 [of "?f (year_start y)" "?f ?d" 365] by simp
    moreover have "?f ?d div 365 \<le> y"
      using mono [OF d e(1)] e small [of e] d zdiv_mono1 [of "?f ?d" "?f e" 365] by simp
    ultimately show ?thesis using small [of ?d] d e by simp
  qed
qed

lemma era_position:
  assumes "n < 146097"
  shows "\<exists>y k. 0 \<le> y \<and> y \<le> 399 \<and> 0 \<le> k \<and> k < year_days y \<and> int n = year_start y + k"
  using assms
proof (induction n)
  case 0
  show ?case by (intro exI [of _ 0]) (simp add: year_start_def year_days_def)
next
  case (Suc n)
  then obtain y k where yk: "0 \<le> y" "y \<le> 399" "0 \<le> k" "k < year_days y" "int n = year_start y + k" by auto
  note bounds = year_start_bounds [OF yk(1,2)]
  show ?case
  proof (cases "k + 1 < year_days y")
    case True
    with yk show ?thesis by (intro exI [of _ y] exI [of _ "k + 1"]) simp
  next
    case False
    then have "k + 1 = year_days y" using yk(4) by simp
    moreover from this have "y < 399" using yk Suc.prems bounds(4,5) by (cases "y = 399") auto
    ultimately show ?thesis using yk bounds(2)
      by (intro exI [of _ "y + 1"] exI [of _ 0]) (use year_days_cases [of "y + 1"] in auto)
  qed
qed

section \<open>The conversion walks the calendar\<close>

lemma month_day_range:
  assumes "0 \<le> k" and "k \<le> 365"
  shows "0 < fst (month_day k) \<and> fst (month_day k) \<le> 12 \<and> 0 < snd (month_day k) \<and> snd (month_day k) \<le> 31"
proof (cases "k = 365")
  case False
  with assms have "k \<in> set [0..364]" unfolding set_upto by simp
  from bspec [OF month_day_table this] show ?thesis by (simp add: Let_def split_beta)
qed (simp add: month_day_def)

lemma civil_at:
  assumes e: "0 \<le> e" and y: "0 \<le> y" "y \<le> 399" and k: "0 \<le> k" "k < year_days y"
    and days: "days + 719468 = 146097 * e + (year_start y + k)" and small: "400 * e + 400 < 2 ^ 31"
  shows "civil_from_days days = (case month_day k of (m, d) \<Rightarrow> (y + 400 * e + (if m \<le> 2 then 1 else 0), m, d))"
proof -
  note bounds = year_start_bounds [OF y]
  have doe: "0 \<le> year_start y + k" "year_start y + k < 146097"
    using bounds k year_days_cases [of y] by (simp, cases "y = 399") (use bounds k year_start_bounds(3) [of "y + 1"] y in auto)
  have shifted: "0 \<le> days + 719468" using days e doe by simp
  have era: "(days + 719468) div 146097 = e" using days doe by simp
  have doy: "year_start y + k - (365 * y + y div 4 - y div 100) = k" by (simp add: year_start_def)
  have k365: "k \<le> 365" using k year_days_cases [of y] by auto
  have mp: "0 \<le> (5 * k + 2) div 153" using k(1) by simp
  obtain m d where md: "month_day k = (m, d)" by (cases "month_day k")
  with month_day_range [OF k(1) k365] have range: "0 < m" "m \<le> 12" "0 < d" "d \<le> 31" by simp_all
  have year: "i32_or_max (y + 400 * e + (if m \<le> 2 then 1 else 0)) = y + 400 * e + (if m \<le> 2 then 1 else 0)"
    using e y small by (simp add: i32_or_max_def)
  have steps: "trunc_div (if 0 \<le> days + 719468 then days + 719468 else days + 719468 - 146096) 146097 = e"
      "days + 719468 - e * 146097 = year_start y + k" "year_start y + k - (365 * y + trunc_div y 4 - trunc_div y 100) = k"
      "trunc_div (5 * k + 2) 153 = (5 * k + 2) div 153"
      "trunc_div (153 * ((5 * k + 2) div 153) + 2) 5 = (153 * ((5 * k + 2) div 153) + 2) div 5"
    using shifted era days doy y k(1) mp by simp_all
  have "civil_from_days days = (case month_day k of (m, d) \<Rightarrow> (i32_or_max (y + e * 400 + (if m \<le> 2 then 1 else 0)), u32_or_one m, u32_or_one d))"
    unfolding civil_from_days_def Let_def steps year_of_era_inside [OF y k] month_day_def by simp
  with md range year show ?thesis by (simp add: u32_or_one_def mult.commute)
qed

lemma civil_step:
  assumes "0 \<le> days" and "days \<le> 700000000000"
  shows "civil_from_days (days + 1) = next_date (civil_from_days days)"
proof -
  define e where "e = (days + 719468) div 146097"
  have e: "0 \<le> e" using assms(1) by (simp add: e_def)
  have "days + 719468 = 146097 * e + (days + 719468) mod 146097" by (simp add: e_def)
  moreover have "nat ((days + 719468) mod 146097) < 146097" by (simp add: nat_less_iff)
  from era_position [OF this] obtain y k where y: "0 \<le> y" "y \<le> 399" and k: "0 \<le> k" "k < year_days y"
    and "(days + 719468) mod 146097 = year_start y + k" by auto
  ultimately have days: "days + 719468 = 146097 * e + (year_start y + k)" by simp
  have "e \<le> 700000719468 div 146097" unfolding e_def using assms(2) by (intro zdiv_mono1) simp_all
  then have small: "400 * e + 400 < 2 ^ 31" "400 * (e + 1) + 400 < 2 ^ 31" by simp_all
  note now = civil_at [OF e y k days small(1)] and bounds = year_start_bounds [OF y]
  have k365: "k \<le> 365" "k = 365 \<Longrightarrow> is_leap (y + 1)" using k by (auto simp: year_days_def split: if_splits)
  consider (inside) "k + 1 < year_days y" "k < 364" | (leap) "k + 1 < year_days y" "k = 364" | (last_day) "k + 1 = year_days y"
    using k year_days_cases [of y] by force
  then show ?thesis
  proof cases
    case inside
    have nxt: "civil_from_days (days + 1) = (case month_day (k + 1) of (m, d) \<Rightarrow> (y + 400 * e + (if m \<le> 2 then 1 else 0), m, d))"
      using inside k days by (intro civil_at [OF e y _ _ _ small(1)]) simp_all
    obtain m d m' d' where md: "month_day k = (m, d)" "month_day (k + 1) = (m', d')" by (metis surj_pair)
    have "k \<in> set [0..364]" unfolding set_upto using k inside by simp
    from bspec [OF month_day_table this] md inside(2)
    have "if m = 12 \<and> d = 31 then m' = 1 \<and> d' = 1 else (m \<le> 2 \<longleftrightarrow> m' \<le> 2) \<and> next_date (1, m, d) = (1, m', d')"
      and "m \<le> 12" by (simp_all add: Let_def del: next_date.simps)
    then show ?thesis unfolding now nxt md by (auto simp: month_length_def is_leap_def split: if_splits)
  next
    case leap
    then have "is_leap (y + 1)" by (simp add: year_days_def split: if_splits)
    moreover have "civil_from_days (days + 1) = (case month_day (k + 1) of (m, d) \<Rightarrow> (y + 400 * e + (if m \<le> 2 then 1 else 0), m, d))"
      using leap k days by (intro civil_at [OF e y _ _ _ small(1)]) simp_all
    ultimately show ?thesis unfolding now using leap(2) by (simp add: month_day_def month_length_def)
  next
    case last_day
    have feb: "month_day k = (2, if is_leap (y + 1) then 29 else 28)"
      using last_day by (auto simp: year_days_def month_day_def split: if_splits)
    have "civil_from_days (days + 1) = (y + 400 * e + 1, 3, 1)"
    proof (cases "y = 399")
      case True
      with last_day days bounds(4,5) have "days + 1 + 719468 = 146097 * (e + 1) + (year_start 0 + 0)" by (simp add: year_start_def)
      from civil_at [OF _ _ _ _ _ this small(2)] e True show ?thesis by (simp add: year_days_def month_day_def algebra_simps)
    next
      case False
      then have y1: "y < 399" using y by simp
      have "days + 1 + 719468 = 146097 * e + (year_start (y + 1) + 0)" using last_day days bounds(2) [OF y1] by simp
      from civil_at [OF e _ _ _ _ this small(1)] y y1 year_days_cases [of "y + 1"] show ?thesis by (auto simp: month_day_def)
    qed
    then show ?thesis unfolding now feb by (simp add: month_length_def)
  qed
qed

text \<open>
  C40. The date computed from a day count is the calendar's: for every day from the epoch on (up to the 1,900-millionth year, far
  past any system clock), it is what stepping that many times through the Gregorian calendar from 1970-01-01 gives, leap years and
  centuries included.
\<close>

theorem civil_from_days_walks_calendar:
  assumes "n \<le> 700000000000"
  shows "civil_from_days (int n) = (next_date ^^ n) (1970, 1, 1)"
  using assms
proof (induction n)
  case 0
  have "year_of_era 135080 = 369" by (simp add: year_of_era_def)
  then show ?case by (simp add: civil_from_days_def Let_def i32_or_max_def u32_or_one_def)
next
  case (Suc n)
  then show ?case using civil_step [of "int n"] by (simp add: add.commute)
qed

theorem civil_from_days_walks_calendar_witness: "(next_date ^^ 20089) (1970, 1, 1) = (2025, 1, 1)"
proof -
  have "year_of_era 9072 = 24" by (simp add: year_of_era_def)
  then have "civil_from_days (int 20089) = (2025, 1, 1)"
    by (simp add: civil_from_days_def Let_def i32_or_max_def u32_or_one_def)
  moreover have "civil_from_days (int 20089) = (next_date ^^ 20089) (1970, 1, 1)"
    by (rule civil_from_days_walks_calendar) simp
  ultimately show ?thesis by (rule trans [OF sym, rotated])
qed

end
